(* ===== verification/Prelude.thy ===== *)
theory Prelude
  imports Main "HOL-Library.Word" "HOL-Library.Finite_Map"
begin

text \<open>
  Shared vocabulary of the development: the machine-integer types of the C++ code
  (\<open>uint8_t\<close> is \<open>byte\<close>, and so on), big-endian serialisation as the packet writers do it
  with shifts and masks, the integer ceiling division of \<open>lib/edioutput/PFT.cpp\<close>, and the
  generic lemmas on lists and words that the components share.
\<close>

unbundle bit_operations_syntax

type_synonym byte = "8 word"
type_synonym u16 = "16 word"
type_synonym u32 = "32 word"
type_synonym u64 = "64 word"
type_synonym bytes = "byte list"

text \<open>
  What a C++ operation can end with other than a value: the exceptions the code throws, and
  \<open>OutOfBounds\<close> or \<open>DivByZero\<close> where an execution has no defined behaviour because it reads
  or writes outside an object or divides by zero, \<open>AssertFailed\<close> where an assertion aborts the program and \<open>NoReturn\<close> where a
  loop never ends.
  A fallible operation returns \<open>exn + 'a\<close>.
\<close>

datatype exn =
    RuntimeError | LogicError | OutOfRange | InvalidArgument | BadVariantAccess
  | ZmqError | ParameterError | OutOfBounds | DivByZero | AssertFailed | NoReturn

named_theorems be_simps \<open>reading back big-endian fields\<close>

subsection \<open>Big-endian fields\<close>

text \<open>
  \<open>be16\<close>, \<open>be24\<close>, \<open>be32\<close> are the byte sequences that code such as
  \<^verbatim>\<open>packet.push_back((x >> 8) & 0xFF); packet.push_back(x & 0xFF);\<close> appends.
\<close>

definition be16 :: "u16 \<Rightarrow> bytes" where
  "be16 x = [ucast (drop_bit 8 x), ucast x]"

definition be24 :: "u32 \<Rightarrow> bytes" where
  "be24 x = [ucast (drop_bit 16 x), ucast (drop_bit 8 x), ucast x]"

definition be32 :: "u32 \<Rightarrow> bytes" where
  "be32 x = [ucast (drop_bit 24 x), ucast (drop_bit 16 x), ucast (drop_bit 8 x), ucast x]"

text \<open>Readers for the same fields, used to state what a receiver gets back.\<close>

definition rd16 :: "bytes \<Rightarrow> u16" where
  "rd16 bs = push_bit 8 (ucast (bs ! 0)) OR ucast (bs ! 1)"

definition rd24 :: "bytes \<Rightarrow> u32" where
  "rd24 bs = push_bit 16 (ucast (bs ! 0)) OR push_bit 8 (ucast (bs ! 1)) OR ucast (bs ! 2)"

definition rd32 :: "bytes \<Rightarrow> u32" where
  "rd32 bs = push_bit 24 (ucast (bs ! 0)) OR push_bit 16 (ucast (bs ! 1))
     OR push_bit 8 (ucast (bs ! 2)) OR ucast (bs ! 3)"

lemma length_be [simp]:
  "length (be16 x) = 2" "length (be24 y) = 3" "length (be32 z) = 4"
  by (simp_all add: be16_def be24_def be32_def)

lemma rd16_be16 [be_simps]: "rd16 (be16 x @ rest) = x"
  unfolding rd16_def be16_def
  by (rule bit_word_eqI) (auto simp: bit_simps)

lemma rd24_be24 [be_simps]: "rd24 (be24 x @ rest) = x AND mask 24"
  unfolding rd24_def be24_def
  by (rule bit_word_eqI) (auto simp: bit_simps nth_Cons' less_diff_conv2; metis le_add_diff_inverse linorder_not_le)

lemma rd32_be32 [be_simps]: "rd32 (be32 x @ rest) = x"
  unfolding rd32_def be32_def
  by (rule bit_word_eqI) (auto simp: bit_simps nth_Cons' less_diff_conv2; metis le_add_diff_inverse linorder_not_le)

subsection \<open>Ceiling division\<close>

text \<open>The macro \<open>CEIL_DIV(a, b)\<close> of \<open>lib/edioutput/PFT.cpp\<close>; \<open>b = 0\<close> is checked by its users.\<close>

definition CEIL_DIV :: "nat \<Rightarrow> nat \<Rightarrow> nat" where
  "CEIL_DIV a b = (if a mod b = 0 then a div b else a div b + 1)"

lemma CEIL_DIV_le_iff: "0 < b \<Longrightarrow> CEIL_DIV a b \<le> n \<longleftrightarrow> a \<le> n * b"
proof -
  assume b: "0 < b"
  have a: "a = (a div b) * b + a mod b" by simp
  show ?thesis
  proof (cases "a mod b = 0")
    case True
    then have "a = (a div b) * b" using a by simp
    then show ?thesis using b True by (metis CEIL_DIV_def mult_le_cancel2)
  next
    case False
    have "a div b + 1 \<le> n \<longleftrightarrow> a < n * b"
      using b by (metis Suc_eq_plus1 Suc_le_eq div_less_iff_less_mult)
    moreover have "a \<noteq> n * b" using False by auto
    ultimately show ?thesis using False by (auto simp: CEIL_DIV_def)
  qed
qed

lemma CEIL_DIV_upper: "0 < b \<Longrightarrow> a \<le> CEIL_DIV a b * b"
  using CEIL_DIV_le_iff by blast

lemma CEIL_DIV_lower: "0 < b \<Longrightarrow> 0 < a \<Longrightarrow> (CEIL_DIV a b - 1) * b < a"
proof -
  assume b: "0 < b" and a: "0 < a"
  have pos: "0 < CEIL_DIV a b"
    using a b CEIL_DIV_upper [of b a] by (cases "CEIL_DIV a b = 0") auto
  then have "\<not> CEIL_DIV a b \<le> CEIL_DIV a b - 1" by simp
  then show ?thesis using CEIL_DIV_le_iff [OF b] by (meson not_le)
qed

lemma CEIL_DIV_pos: "0 < b \<Longrightarrow> 0 < a \<Longrightarrow> 0 < CEIL_DIV a b"
  using CEIL_DIV_upper [of b a] by (cases "CEIL_DIV a b = 0") auto

subsection \<open>The remainder operator\<close>

text \<open>C++ \<open>%\<close> on signed integers truncates towards zero: the sign is that of the dividend.\<close>

definition crem :: "int \<Rightarrow> int \<Rightarrow> int" where
  "crem a b = (if 0 \<le> a then a mod \<bar>b\<bar> else - ((- a) mod \<bar>b\<bar>))"

lemma crem_nonneg: "0 \<le> a \<Longrightarrow> 0 < b \<Longrightarrow> crem a b = a mod b"
  by (simp add: crem_def)

lemma mod_diff_inj:
  fixes a b c m :: int
  assumes "(a - c) mod m = (b - c) mod m" "0 \<le> a" "a < m" "0 \<le> b" "b < m"
  shows "a = b"
proof -
  have "(a - c + c) mod m = (b - c + c) mod m"
    using assms(1) by (rule mod_add_cong) simp
  then show ?thesis using assms(2-5) by simp
qed

text \<open>C++ integer division truncates towards zero; \<open>int\<close> to \<open>size_t\<close> wraps modulo \<open>2^64\<close>.\<close>

definition cdiv :: "int \<Rightarrow> int \<Rightarrow> int" where
  "cdiv a b = sgn a * sgn b * (\<bar>a\<bar> div \<bar>b\<bar>)"

definition to_size_t :: "int \<Rightarrow> nat" where
  "to_size_t i = nat (i mod 2 ^ 64)"

subsection \<open>Words\<close>

lemma xor_right_cancel [simp]: "(a XOR c = b XOR c) = (a = (b :: 'a::len word))"
  by (auto simp: bit_eq_iff bit_xor_iff)

subsection \<open>Decimal numbers\<close>

text \<open>\<open>printf("%d")\<close> and \<open>std::to_string\<close> on non-negative numbers, and the value of a digit string.\<close>

definition digit_char :: "nat \<Rightarrow> char" where
  "digit_char d = char_of (48 + d)"

definition is_digit :: "char \<Rightarrow> bool" where
  "is_digit c \<longleftrightarrow> 48 \<le> (of_char c :: nat) \<and> (of_char c :: nat) \<le> 57"

definition digit_val :: "char \<Rightarrow> nat" where
  "digit_val c = of_char c - 48"

fun dec_nat :: "nat \<Rightarrow> string" where
  "dec_nat n = (if n < 10 then [digit_char n] else dec_nat (n div 10) @ [digit_char (n mod 10)])"

declare dec_nat.simps [simp del]

definition digits_val :: "string \<Rightarrow> nat" where
  "digits_val = foldl (\<lambda>a c. 10 * a + digit_val c) 0"

lemma digit_char_props [simp]:
  "d < 10 \<Longrightarrow> is_digit (digit_char d)" "d < 10 \<Longrightarrow> digit_val (digit_char d) = d"
  by (simp_all add: is_digit_def digit_char_def digit_val_def)

lemma dec_nat_digits: "\<forall>c \<in> set (dec_nat n). is_digit c"
proof (induction n rule: dec_nat.induct)
  case (1 n)
  then show ?case by (subst dec_nat.simps) auto
qed

lemma dec_nat_nonempty [simp]: "dec_nat n \<noteq> []"
  by (subst dec_nat.simps) simp

lemma digits_val_dec [simp]: "digits_val (dec_nat n) = n"
proof (induction n rule: dec_nat.induct)
  case (1 n)
  then show ?case by (subst dec_nat.simps) (auto simp: digits_val_def)
qed

text \<open>\<open>isspace\<close> of the C library, and \<open>std::stoi\<close> and \<open>std::stoll\<close>: white space, a sign, digits; characters behind the
  number are ignored.\<close>

definition is_space :: "char \<Rightarrow> bool" where
  "is_space c \<longleftrightarrow> c = CHR 0x20 \<or> (9 \<le> (of_char c :: nat) \<and> (of_char c :: nat) \<le> 13)"

definition stol_range :: "int \<Rightarrow> int \<Rightarrow> string \<Rightarrow> exn + int" where
  "stol_range lo hi s =
     (let s1 = dropWhile is_space s;
          neg = (s1 \<noteq> [] \<and> hd s1 = CHR ''-'');
          s2 = (if s1 \<noteq> [] \<and> (hd s1 = CHR ''-'' \<or> hd s1 = CHR ''+'') then tl s1 else s1);
          ds = takeWhile is_digit s2;
          v = (if neg then - int (digits_val ds) else int (digits_val ds))
      in if ds = [] then Inl InvalidArgument
         else if v < lo \<or> hi < v then Inl OutOfRange
         else Inr v)"

definition stoi :: "string \<Rightarrow> exn + int" where
  "stoi = stol_range (- (2 ^ 31)) (2 ^ 31 - 1)"

definition stoll :: "string \<Rightarrow> exn + int" where
  "stoll = stol_range (- (2 ^ 63)) (2 ^ 63 - 1)"

lemma is_digit_no_space: "is_digit c \<Longrightarrow> \<not> is_space c \<and> c \<noteq> CHR ''-'' \<and> c \<noteq> CHR ''+'' \<and> c \<noteq> CHR ''#'' \<and> c \<noteq> CHR 0x0A"
  by (auto simp: is_digit_def is_space_def)

lemma dec_nat_hd: "is_digit (hd (dec_nat n))"
  using dec_nat_digits [of n] by simp

lemma dec_nat_span [simp]:
  "takeWhile is_digit (dec_nat n) = dec_nat n" "dropWhile is_digit (dec_nat n) = []" "dropWhile is_space (dec_nat n) = dec_nat n"
  using dec_nat_digits [of n] is_digit_no_space [OF dec_nat_hd [of n]]
  by (simp_all add: takeWhile_eq_all_conv dropWhile_eq_self_iff)

lemma stol_range_dec_nat: "lo \<le> 0 \<Longrightarrow> stol_range lo hi (dec_nat n) = (if hi < int n then Inl OutOfRange else Inr (int n))"
  using is_digit_no_space [OF dec_nat_hd [of n]] by (simp add: stol_range_def Let_def)

text \<open>\<open>std::to_string\<close> on signed numbers, and reading it back.\<close>

definition dec_int :: "int \<Rightarrow> string" where
  "dec_int i = (if i < 0 then CHR ''-'' # dec_nat (nat (- i)) else dec_nat (nat i))"

lemma stol_range_dec_int:
  assumes "lo \<le> i" "i \<le> hi"
  shows "stol_range lo hi (dec_int i) = Inr i"
proof (cases "i < 0")
  case True
  then show ?thesis using assms by (simp add: dec_int_def stol_range_def Let_def is_space_def)
next
  case False
  then show ?thesis using assms is_digit_no_space [OF dec_nat_hd [of "nat i"]] by (auto simp: dec_int_def stol_range_def Let_def)
qed

subsection \<open>Finite sets and maps\<close>

declare fcard_fempty [simp]

lemma fcard_pos_iff: "0 < fcard A \<longleftrightarrow> A \<noteq> {||}"
  by (auto simp: fcard_0_eq neq0_conv [symmetric] simp del: neq0_conv)

lemma ex_fset_min:
  fixes f :: "'a \<Rightarrow> int"
  assumes "A \<noteq> {||}"
  obtains k where "k |\<in>| A" "\<And>k'. k' |\<in>| A \<Longrightarrow> f k \<le> f k'"
proof -
  have "Min (f ` fset A) \<in> f ` fset A" using assms by (intro Min_in) auto
  then obtain k where "k |\<in>| A" "f k = Min (f ` fset A)" by auto
  then show ?thesis using that [of k] by simp
qed

subsection \<open>Lists\<close>

lemma nth_map_upt0 [simp]: "i < n \<Longrightarrow> map f [0..<n] ! i = f i"
  by simp

lemma map_of_rev_distinct: "distinct (map fst xs) \<Longrightarrow> map_of (rev xs) = map_of xs"
proof (induction xs)
  case (Cons x xs)
  then have "map_of xs (fst x) = None" by (simp add: map_of_eq_None_iff)
  then show ?case using Cons by (auto simp: map_add_def fun_eq_iff split: option.split)
qed simp

lemma unat_of_nat_id: "n < 2 ^ LENGTH('a) \<Longrightarrow> unat (of_nat n :: 'a::len word) = n"
  by (simp add: unat_of_nat take_bit_nat_eq_self)

lemma unat_byte: "unat (b :: byte) < 256"
  using unsigned_less [of b] by simp

lemma unat_ucast_byte [simp]: "unat (ucast (b :: byte) :: u16) = unat b" "unat (ucast (b :: byte) :: u32) = unat b"
  using unat_byte [of b] by (simp_all add: unsigned_ucast_eq take_bit_nat_eq_self)

end
