(* ===== verification/TagItems.thy ===== *)
theory TagItems
  imports Prelude
begin

text \<open>
  Model of \<open>lib/edioutput/TagItems.h\<close>, \<open>lib/edioutput/TagItems.cpp\<close>, \<open>lib/edioutput/TagPacket.h\<close>
  and \<open>lib/edioutput/TagPacket.cpp\<close>: the TAG items of the EDI protocol and the TAG packet that
  concatenates them. A pointer with a length is a list together with the length field; reading
  behind the data is \<open>OutOfBounds\<close>. \<open>Assemble\<close> may change the item (the frame counter), so it
  returns the item as well. The header fields are computed at their C++ widths.
\<close>

unbundle bit_operations_syntax

subsection \<open>Bytes of a string, and the TAG length field\<close>

definition str_bytes :: "string \<Rightarrow> bytes" where
  "str_bytes s = map of_char s"

lemma str_bytes_length [simp]: "length (str_bytes s) = length s"
  by (simp add: str_bytes_def)

text \<open>"calculate and update size": the length in bits of what follows the first eight bytes.\<close>

definition write_taglength :: "bytes \<Rightarrow> bytes" where
  "write_taglength packet =
     take 4 packet @ be32 (of_nat ((length packet - 8) * 8)) @ drop 8 packet"

definition bool_bit :: "bool \<Rightarrow> u32" where
  "bool_bit b = (if b then 1 else 0)"

text \<open>The frame counter: \<open>(dlfc+1) % 5000\<close> is computed on \<open>int\<close>.\<close>

definition dlfc_next :: "u16 \<Rightarrow> u16" where
  "dlfc_next dlfc = ucast ((ucast dlfc + 1 :: u32) mod 5000)"

text \<open>The first header word of \<open>deti\<close> and \<open>dsti\<close>: two counter bytes and three flags.\<close>

definition header16 :: "byte \<Rightarrow> byte \<Rightarrow> bool \<Rightarrow> bool \<Rightarrow> bool \<Rightarrow> u16" where
  "header16 l h a b c = ucast (ucast l OR push_bit 8 (ucast h) OR push_bit 13 (bool_bit a)
     OR push_bit 14 (bool_bit b) OR push_bit 15 (bool_bit c) :: u32)"

subsection \<open>The items\<close>

definition TagStarPTR_init :: "string \<Rightarrow> exn + string" where
  "TagStarPTR_init protocol = (if length protocol \<noteq> 4 then Inl RuntimeError else Inr protocol)"

definition TagStarPTR_Assemble :: "string \<Rightarrow> bytes" where
  "TagStarPTR_Assemble m_protocol =
     str_bytes ''*ptr'' @ [0, 0, 0, 0x40] @ str_bytes m_protocol @ [0, 0] @ [0, 0]"

record TagDETI =
  deti_stat :: byte
  deti_mid :: byte
  deti_fp :: byte
  deti_rfa :: byte
  deti_rfu :: byte
  deti_mnsc :: u16
  deti_dlfc :: u16
  deti_atstf :: bool
  deti_utco :: byte
  deti_seconds :: u32
  deti_tsta :: u32
  deti_ficf :: bool
  deti_fic_data :: bytes
  deti_fic_length :: nat
  deti_rfudf :: bool
  deti_rfud :: u32

definition TagDETI_Assemble :: "TagDETI \<Rightarrow> exn + bytes \<times> TagDETI" where
  "TagDETI_Assemble d =
     (let fct = (ucast (deti_dlfc d mod 250) :: byte);
          fcth = (ucast (deti_dlfc d div 250) :: byte);
          detiHeader = header16 fct fcth (deti_rfudf d) (deti_ficf d) (deti_atstf d);
          etiHeader = (ucast (deti_mnsc d) OR push_bit 16 (ucast (deti_rfu d)) OR push_bit 17 (ucast (deti_rfa d))
             OR push_bit 19 (ucast (deti_fp d)) OR push_bit 22 (ucast (deti_mid d))
             OR push_bit 24 (ucast (deti_stat d)) :: u32);
          atst = (if deti_atstf d then deti_utco d # be32 (deti_seconds d) @ be24 (deti_tsta d) else []);
          fic = (if deti_ficf d then take (deti_fic_length d) (deti_fic_data d) else []);
          rfud = (if deti_rfudf d then be24 (deti_rfud d) else [])
      in if deti_ficf d \<and> length (deti_fic_data d) < deti_fic_length d then Inl OutOfBounds
         else Inr (write_taglength (str_bytes ''deti'' @ [0, 0, 0, 0] @ be16 detiHeader @ be32 etiHeader
                     @ atst @ fic @ rfud),
                   d\<lparr>deti_dlfc := dlfc_next (deti_dlfc d)\<rparr>))"

definition posix_timestamp_1_jan_2000 :: int where
  "posix_timestamp_1_jan_2000 = 946684800"

definition TagDETI_set_edi_time :: "TagDETI \<Rightarrow> int \<Rightarrow> int \<Rightarrow> TagDETI" where
  "TagDETI_set_edi_time d t tai_utc_offset =
     (let utco = (word_of_int (tai_utc_offset - 32) :: byte)
      in d\<lparr>deti_utco := utco,
           deti_seconds := word_of_int (t - posix_timestamp_1_jan_2000 + uint utco)\<rparr>)"

record TagESTn =
  est_scid :: byte
  est_sad :: u16
  est_tpl :: byte
  est_rfa :: byte
  est_mst_data :: bytes
  est_mst_length :: nat
  est_id :: byte

definition TagESTn_Assemble :: "TagESTn \<Rightarrow> exn + bytes" where
  "TagESTn_Assemble e =
     (if est_tpl e > 0x3F then Inl RuntimeError
      else if est_sad e > 0x3FF then Inl RuntimeError
      else if est_scid e > 0x3F then Inl RuntimeError
      else if length (est_mst_data e) < est_mst_length e * 8 then Inl OutOfBounds
      else
        (let sstc = (push_bit 18 (ucast (est_scid e)) OR push_bit 8 (ucast (est_sad e))
                     OR push_bit 2 (ucast (est_tpl e)) OR ucast (est_rfa e) :: u32)
         in Inr (write_taglength (str_bytes ''est'' @ [est_id e] @ [0, 0, 0, 0] @ be24 sstc
                   @ take (est_mst_length e * 8) (est_mst_data e)))))"

record TagDSTI =
  dsti_stihf :: bool
  dsti_atstf :: bool
  dsti_rfadf :: bool
  dsti_dlfc :: u16
  dsti_stat :: byte
  dsti_spid :: u16
  dsti_utco :: byte
  dsti_seconds :: u32
  dsti_tsta :: u32
  dsti_rfad :: bytes

definition dsti_header :: "TagDSTI \<Rightarrow> u16" where
  "dsti_header d =
     (let dfctl = (ucast (dsti_dlfc d mod 250) :: byte);
          dfcth = (ucast (dsti_dlfc d div 250) :: byte)
      in header16 dfctl dfcth (dsti_rfadf d) (dsti_atstf d) (dsti_stihf d))"

definition TagDSTI_Assemble :: "TagDSTI \<Rightarrow> bytes \<times> TagDSTI" where
  "TagDSTI_Assemble d =
     (let sti = (if dsti_stihf d then dsti_stat d # be16 (dsti_spid d) else []);
          atst = (if dsti_atstf d then dsti_utco d # be32 (dsti_seconds d) @ be24 (dsti_tsta d) else []);
          rfad = (if dsti_rfadf d then dsti_rfad d else [])
      in (write_taglength (str_bytes ''dsti'' @ [0, 0, 0, 0] @ be16 (dsti_header d) @ sti @ atst @ rfad),
          d\<lparr>dsti_dlfc := dlfc_next (dsti_dlfc d)\<rparr>))"

definition TagDSTI_set_edi_time :: "TagDSTI \<Rightarrow> int \<Rightarrow> int \<Rightarrow> TagDSTI" where
  "TagDSTI_set_edi_time d t tai_utc_offset =
     (let utco = (word_of_int (tai_utc_offset - 32) :: byte)
      in d\<lparr>dsti_utco := utco,
           dsti_seconds := word_of_int (t - posix_timestamp_1_jan_2000 + uint utco)\<rparr>)"

record TagSSm =
  ss_rfa :: byte
  ss_tid :: byte
  ss_tidext :: byte
  ss_crcstf :: bool
  ss_stid :: u16
  ss_istd_data :: bytes
  ss_istd_length :: nat
  ss_id :: u16

definition ss_istc :: "TagSSm \<Rightarrow> u32" where
  "ss_istc s = push_bit 19 (ucast (ss_rfa s)) OR push_bit 16 (ucast (ss_tid s))
     OR push_bit 13 (ucast (ss_tidext s)) OR push_bit 12 (bool_bit (ss_crcstf s)) OR ucast (ss_stid s)"

definition TagSSm_Assemble :: "TagSSm \<Rightarrow> exn + bytes" where
  "TagSSm_Assemble s =
     (if ss_rfa s > 0x1F then Inl RuntimeError
      else if ss_tid s > 0x7 then Inl RuntimeError
      else if ss_tidext s > 0x7 then Inl RuntimeError
      else if ss_stid s > 0x0FFF then Inl RuntimeError
      else if length (ss_istd_data s) < ss_istd_length s then Inl OutOfBounds
      else Inr (write_taglength (str_bytes ''ss'' @ be16 (ss_id s) @ [0, 0, 0, 0] @ be24 (ss_istc s)
                  @ take (ss_istd_length s) (ss_istd_data s))))"

text \<open>The padding bytes are "undefined data"; \<open>resize\<close> makes them zero.\<close>

definition TagStarDMY_Assemble :: "u32 \<Rightarrow> exn + bytes" where
  "TagStarDMY_Assemble dmy_length =
     (let size = unat (4 + 4 + dmy_length)
      in if size < 8 then Inl OutOfBounds
         else Inr (str_bytes ''*dmy'' @ be32 (dmy_length * 8) @ replicate (size - 8) 0))"

record TagODRVersion =
  odrv_version :: string
  odrv_uptime :: u32

definition TagODRVersion_Assemble :: "TagODRVersion \<Rightarrow> bytes" where
  "TagODRVersion_Assemble v =
     (let l = length (odrv_version v) + 4
      in str_bytes ''ODRv'' @ be32 (of_nat (l * 8)) @ str_bytes (odrv_version v) @ be32 (odrv_uptime v))"

text \<open>The levels are \<open>int16_t\<close>, held by their 16-bit patterns.\<close>

record TagODRAudioLevels =
  odra_left :: u16
  odra_right :: u16

definition TagODRAudioLevels_Assemble :: "TagODRAudioLevels \<Rightarrow> bytes" where
  "TagODRAudioLevels_Assemble v =
     str_bytes ''ODRa'' @ be32 (4 * 8) @ be16 (odra_left v) @ be16 (odra_right v)"

subsection \<open>The packet\<close>

datatype TagItem =
    StarPTR string | DETI TagDETI | ESTn TagESTn | DSTI TagDSTI | SSm TagSSm | StarDMY u32
  | ODRVersion TagODRVersion | ODRAudioLevels TagODRAudioLevels

definition TagItem_Assemble :: "TagItem \<Rightarrow> exn + bytes \<times> TagItem" where
  "TagItem_Assemble i =
     (case i of
        StarPTR p \<Rightarrow> Inr (TagStarPTR_Assemble p, i)
      | DETI d \<Rightarrow> (case TagDETI_Assemble d of Inl e \<Rightarrow> Inl e | Inr (b, d') \<Rightarrow> Inr (b, DETI d'))
      | ESTn e \<Rightarrow> (case TagESTn_Assemble e of Inl x \<Rightarrow> Inl x | Inr b \<Rightarrow> Inr (b, i))
      | DSTI d \<Rightarrow> (case TagDSTI_Assemble d of (b, d') \<Rightarrow> Inr (b, DSTI d'))
      | SSm s \<Rightarrow> (case TagSSm_Assemble s of Inl e \<Rightarrow> Inl e | Inr b \<Rightarrow> Inr (b, i))
      | StarDMY n \<Rightarrow> (case TagStarDMY_Assemble n of Inl e \<Rightarrow> Inl e | Inr b \<Rightarrow> Inr (b, i))
      | ODRVersion v \<Rightarrow> Inr (TagODRVersion_Assemble v, i)
      | ODRAudioLevels v \<Rightarrow> Inr (TagODRAudioLevels_Assemble v, i))"

record TagPacket =
  tp_tag_items :: "TagItem list"
  tp_raw_tagpacket :: bytes
  tp_alignment :: u32

definition TagPacket_init :: "u32 \<Rightarrow> TagPacket" where
  "TagPacket_init alignment = \<lparr>tp_tag_items = [], tp_raw_tagpacket = [], tp_alignment = alignment\<rparr>"

text \<open>\<open>for (auto tag : tag_items)\<close>, for any assembly function.\<close>

fun assemble_items :: "('i \<Rightarrow> exn + bytes \<times> 'i) \<Rightarrow> 'i list \<Rightarrow> exn + bytes \<times> 'i list" where
  "assemble_items assemble [] = Inr ([], [])"
| "assemble_items assemble (i # is) =
     (case assemble i of
        Inl e \<Rightarrow> Inl e
      | Inr (b, i') \<Rightarrow>
          (case assemble_items assemble is of Inl e \<Rightarrow> Inl e | Inr (bs, is') \<Rightarrow> Inr (b @ bs, i' # is')))"

text \<open>\<open>while (packet.size() % 8 > 0) packet.push_back(0);\<close>\<close>

function pad_loop :: "bytes \<Rightarrow> bytes" where
  "pad_loop packet = (if length packet mod 8 > 0 then pad_loop (packet @ [0]) else packet)"
  by pat_completeness auto
termination
proof (relation "measure (\<lambda>p. (8 - length p mod 8) mod 8)", goal_cases)
  case 1
  show ?case by simp
next
  case (2 packet)
  have "(8 - length packet mod 8) mod 8 = 8 - length packet mod 8" using 2 by simp
  moreover have "(8 - Suc (length packet) mod 8) mod 8 < 8 - length packet mod 8"
    by (auto simp: mod_Suc)
  ultimately show ?case by simp
qed

declare pad_loop.simps [simp del]

text \<open>An alignment from 1 to 7 is only reported.\<close>

definition tag_padding :: "u32 \<Rightarrow> bytes \<Rightarrow> exn + bytes" where
  "tag_padding alignment packet =
     (if alignment = 0 then Inr packet
      else if alignment = 8 then Inr (pad_loop packet)
      else if alignment > 8 then
        (case TagStarDMY_Assemble (alignment - 8) of Inl e \<Rightarrow> Inl e | Inr dmy \<Rightarrow> Inr (packet @ dmy))
      else Inr packet)"

definition TagPacket_Assemble :: "TagPacket \<Rightarrow> exn + bytes \<times> TagPacket" where
  "TagPacket_Assemble p =
     (if tp_raw_tagpacket p \<noteq> [] \<and> tp_tag_items p \<noteq> [] then Inl LogicError
      else if tp_raw_tagpacket p \<noteq> [] then Inr (tp_raw_tagpacket p, p)
      else
        (case assemble_items TagItem_Assemble (tp_tag_items p) of
           Inl e \<Rightarrow> Inl e
         | Inr (packet, items) \<Rightarrow>
             (case tag_padding (tp_alignment p) packet of
                Inl e \<Rightarrow> Inl e
              | Inr padded \<Rightarrow> Inr (padded, p\<lparr>tp_tag_items := items\<rparr>))))"

subsection \<open>What a TAG item looks like\<close>

text \<open>Name, length in bits, value.\<close>

definition tag_tlv :: "bytes \<Rightarrow> bytes \<Rightarrow> bytes" where
  "tag_tlv name val = name @ be32 (of_nat (length val * 8)) @ val"

lemma write_taglength_tlv: "length name = 4 \<Longrightarrow> length z = 4 \<Longrightarrow> write_taglength (name @ z @ val) = tag_tlv name val"
  by (simp add: write_taglength_def tag_tlv_def)

lemma tag_tlv_length: "length name = 4 \<Longrightarrow> length (tag_tlv name val) = 8 + length val"
  by (simp add: tag_tlv_def)

text \<open>A receiver: split a TAG packet into items; fewer than eight trailing bytes are padding.\<close>

function tag_parse :: "bytes \<Rightarrow> (bytes \<times> bytes) list option" where
  "tag_parse bs =
     (if length bs < 8 then Some []
      else
        (let n = unat (rd32 (drop 4 bs)) div 8
         in if length bs < 8 + n then None
            else (case tag_parse (drop (8 + n) bs) of
                    None \<Rightarrow> None
                  | Some items \<Rightarrow> Some ((take 4 bs, take n (drop 8 bs)) # items))))"
  by pat_completeness auto
termination
  by (relation "measure length") auto

declare tag_parse.simps [simp del]

lemma tag_parse_tlv:
  assumes "length name = 4" "length val < 2 ^ 29"
  shows "tag_parse (tag_tlv name val @ rest) = map_option ((#) (name, val)) (tag_parse rest)"
proof -
  let ?bs = "tag_tlv name val @ rest"
  have "length val * 8 < 2 ^ LENGTH(32)" using assms(2) by simp
  then have n: "unat (of_nat (length val * 8) :: u32) = length val * 8" by (rule unat_of_nat_id)
  have "drop 4 ?bs = be32 (of_nat (length val * 8)) @ val @ rest" using assms(1) by (simp add: tag_tlv_def)
  then have "rd32 (drop 4 ?bs) = of_nat (length val * 8)" by (simp only: be_simps)
  then have l: "unat (rd32 (drop 4 ?bs)) div 8 = length val" by (simp only: n)
  have p: "length ?bs = 8 + length val + length rest" "take 4 ?bs = name" "drop (8 + length val) ?bs = rest"
    "take (length val) (drop 8 ?bs) = val"
    using assms(1) by (simp_all add: tag_tlv_def)
  have ge: "\<not> length ?bs < 8" "\<not> length ?bs < 8 + length val" using p(1) by simp_all
  show ?thesis
    unfolding tag_parse.simps [of ?bs] Let_def l p(2-4) by (cases "tag_parse rest") (simp_all only: ge if_False option.case option.map)
qed

text \<open>
  The interface that \<open>TagPacket\<close> relies on: an assembly function whose results are all of the form
  name, length, value.
\<close>

locale tag_source =
  fixes ok :: "'i \<Rightarrow> bool"
    and assemble :: "'i \<Rightarrow> exn + bytes \<times> 'i"
    and name :: "'i \<Rightarrow> bytes"
    and val :: "'i \<Rightarrow> bytes"
  assumes name_length: "ok i \<Longrightarrow> assemble i = Inr (b, i') \<Longrightarrow> length (name i) = 4"
    and assemble_tlv: "ok i \<Longrightarrow> assemble i = Inr (b, i') \<Longrightarrow> b = tag_tlv (name i) (val i)"
    and assemble_ok: "ok i \<Longrightarrow> assemble i = Inr (b, i') \<Longrightarrow> ok i'"
begin

lemma items_parse:
  assumes "assemble_items assemble is = Inr (bs, is')" "\<And>i. i \<in> set is \<Longrightarrow> ok i \<and> length (val i) < 2 ^ 29"
  shows "tag_parse (bs @ rest) = map_option ((@) (map (\<lambda>i. (name i, val i)) is)) (tag_parse rest)"
  using assms
proof (induction "is" arbitrary: bs is')
  case Nil
  then show ?case by (cases "tag_parse rest") simp_all
next
  case (Cons i "is")
  obtain b i1 cs is1 where s: "assemble i = Inr (b, i1)" "assemble_items assemble is = Inr (cs, is1)" "bs = b @ cs"
    using Cons.prems(1) by (auto split: sum.splits)
  have "tag_parse (bs @ rest) = map_option ((#) (name i, val i)) (tag_parse (cs @ rest))"
    using tag_parse_tlv [of "name i" "val i" "cs @ rest"] name_length [OF _ s(1)] assemble_tlv [OF _ s(1)] s(3) Cons.prems(2)
    by simp
  then show ?case using Cons.IH [OF s(2)] Cons.prems(2) by (simp add: option.map_comp comp_def)
qed

lemma items_length:
  assumes "assemble_items assemble is = Inr (bs, is')" "\<And>i. i \<in> set is \<Longrightarrow> ok i"
  shows "length bs = sum_list (map (\<lambda>i. 8 + length (val i)) is)"
  using assms
proof (induction "is" arbitrary: bs is')
  case (Cons i "is")
  obtain b i1 cs is1 where s: "assemble i = Inr (b, i1)" "assemble_items assemble is = Inr (cs, is1)" "bs = b @ cs"
    using Cons.prems(1) by (auto split: sum.splits)
  then show ?case
    using Cons.IH [OF s(2)] Cons.prems(2) tag_tlv_length [of "name i" "val i"] name_length [OF _ s(1)] assemble_tlv [OF _ s(1)]
    by simp
qed simp

lemma items_ok:
  assumes "assemble_items assemble is = Inr (bs, is')" "\<And>i. i \<in> set is \<Longrightarrow> ok i"
  shows "\<forall>i \<in> set is'. ok i"
  using assms
proof (induction "is" arbitrary: bs is')
  case (Cons i "is")
  obtain b i1 cs is1 where s: "assemble i = Inr (b, i1)" "assemble_items assemble is = Inr (cs, is1)" "is' = i1 # is1"
    using Cons.prems(1) by (auto split: sum.splits)
  then show ?case using Cons.IH [OF s(2)] Cons.prems(2) assemble_ok [OF _ s(1)] by auto
qed simp

end

text \<open>An item as its constructor leaves it, its name and its value.\<close>

definition tag_ok :: "TagItem \<Rightarrow> bool" where
  "tag_ok i = (case i of StarPTR p \<Rightarrow> length p = 4 | _ \<Rightarrow> True)"

definition tag_bytes :: "TagItem \<Rightarrow> bytes" where
  "tag_bytes i = (case TagItem_Assemble i of Inl _ \<Rightarrow> [] | Inr (b, _) \<Rightarrow> b)"

definition tag_name :: "TagItem \<Rightarrow> bytes" where
  "tag_name i = take 4 (tag_bytes i)"

definition tag_value :: "TagItem \<Rightarrow> bytes" where
  "tag_value i = drop 8 (tag_bytes i)"

lemma tlv_parts: "length name = 4 \<Longrightarrow> b = tag_tlv name v \<Longrightarrow> b = tag_tlv (take 4 b) (drop 8 b) \<and> 8 \<le> length b"
  by (simp add: tag_tlv_def)

lemma dmy_tlv:
  assumes "TagStarDMY_Assemble n = Inr b"
  shows "b = tag_tlv (str_bytes ''*dmy'') (replicate (unat n) 0)"
proof -
  have s: "\<not> unat (4 + 4 + n) < 8" and b: "b = str_bytes ''*dmy'' @ be32 (n * 8) @ replicate (unat (4 + 4 + n) - 8) 0"
    using assms by (auto simp: TagStarDMY_Assemble_def Let_def split: if_splits)
  have eq: "unat (4 + 4 + n) = (8 + unat n) mod 2 ^ 32" by (simp add: unat_word_ariths)
  have "8 + unat n < 2 ^ 32"
  proof (rule ccontr)
    assume big: "\<not> 8 + unat n < 2 ^ 32"
    have "unat n < 2 ^ 32" using unsigned_less [of n] by simp
    then have "(8 + unat n) mod 2 ^ 32 < 8" using big by (auto simp: mod_if)
    then show False using s eq by simp
  qed
  then have "unat (4 + 4 + n) - 8 = unat n" using eq by simp
  then show ?thesis unfolding b by (simp add: tag_tlv_def)
qed

lemma write_taglength_forms [simp]:
  "length name = 4 \<Longrightarrow> write_taglength (name @ 0 # 0 # 0 # 0 # v) = tag_tlv name v"
  "length nm = 3 \<Longrightarrow> write_taglength (nm @ x # 0 # 0 # 0 # 0 # v) = tag_tlv (nm @ [x]) v"
  "length nn = 2 \<Longrightarrow> write_taglength (nn @ be16 y @ 0 # 0 # 0 # 0 # v) = tag_tlv (nn @ be16 y) v"
  using write_taglength_tlv [of name "[0, 0, 0, 0]" v] write_taglength_tlv [of "nm @ [x]" "[0, 0, 0, 0]" v]
    write_taglength_tlv [of "nn @ be16 y" "[0, 0, 0, 0]" v] by simp_all

lemma TagItem_tlv:
  assumes "tag_ok i" "TagItem_Assemble i = Inr (b, i')"
  shows "\<exists>name v. length name = 4 \<and> b = tag_tlv name v"
proof (cases i)
  case (StarPTR p)
  then have "b = tag_tlv (str_bytes ''*ptr'') (str_bytes p @ [0, 0, 0, 0])"
    using assms by (simp add: TagItem_Assemble_def TagStarPTR_Assemble_def tag_tlv_def tag_ok_def be32_def)
  then show ?thesis by (intro exI conjI) simp_all
next
  case (DETI d)
  then show ?thesis
    using assms by - (rule exI [of _ "str_bytes ''deti''"],
      auto simp: TagItem_Assemble_def TagDETI_Assemble_def Let_def split: if_splits)
next
  case (ESTn e)
  then show ?thesis
    using assms by - (rule exI [of _ "str_bytes ''est'' @ [est_id e]"],
      auto simp: TagItem_Assemble_def TagESTn_Assemble_def Let_def split: if_splits)
next
  case (DSTI d)
  then show ?thesis
    using assms by - (rule exI [of _ "str_bytes ''dsti''"],
      auto simp: TagItem_Assemble_def TagDSTI_Assemble_def Let_def)
next
  case (SSm s)
  then show ?thesis
    using assms by - (rule exI [of _ "str_bytes ''ss'' @ be16 (ss_id s)"],
      auto simp: TagItem_Assemble_def TagSSm_Assemble_def Let_def split: if_splits)
next
  case (StarDMY n)
  then obtain c where "TagStarDMY_Assemble n = Inr c" "b = c"
    using assms by (auto simp: TagItem_Assemble_def split: sum.splits)
  then show ?thesis using dmy_tlv [of n c] by (intro exI conjI) (simp_all)
next
  case (ODRVersion v)
  then have "b = tag_tlv (str_bytes ''ODRv'') (str_bytes (odrv_version v) @ be32 (odrv_uptime v))"
    using assms by (simp add: TagItem_Assemble_def TagODRVersion_Assemble_def tag_tlv_def Let_def)
  then show ?thesis by (intro exI conjI) simp_all
next
  case (ODRAudioLevels v)
  then have "b = tag_tlv (str_bytes ''ODRa'') (be16 (odra_left v) @ be16 (odra_right v))"
    using assms by (simp add: TagItem_Assemble_def TagODRAudioLevels_Assemble_def tag_tlv_def)
  then show ?thesis by (intro exI conjI) simp_all
qed

lemma TagItem_Assemble_ok: "tag_ok i \<Longrightarrow> TagItem_Assemble i = Inr (b, i') \<Longrightarrow> tag_ok i'"
  by (cases i) (auto simp: TagItem_Assemble_def tag_ok_def split: sum.splits prod.splits)

interpretation tags: tag_source tag_ok TagItem_Assemble tag_name tag_value
proof (unfold_locales, goal_cases)
  case (1 i b i')
  then show ?case using TagItem_tlv [OF 1] by (auto simp: tag_name_def tag_bytes_def tag_tlv_def)
next
  case (2 i b i')
  then show ?case using TagItem_tlv [OF 2] tlv_parts [of _ b] by (auto simp: tag_name_def tag_value_def tag_bytes_def)
next
  case (3 i b i')
  then show ?case by (rule TagItem_Assemble_ok)
qed

subsection \<open>Reading the header fields\<close>

lemma bit_below: "unat (w :: 'a::len word) < 2 ^ k \<Longrightarrow> bit w n \<Longrightarrow> n < k"
proof -
  assume "unat w < 2 ^ k" "bit w n"
  then have "take_bit k (unat w) = unat w" "bit (unat w) n" by (simp_all add: take_bit_nat_eq_self bit_unsigned_iff)
  then show "n < k" by (metis bit_take_bit_iff)
qed

lemma bit_bool_bit [simp]: "bit (bool_bit b) n \<longleftrightarrow> b \<and> n = 0"
  by (auto simp: bool_bit_def bit_1_iff)

lemma header16_bit:
  "bit (header16 l h a b c) n = (n < 16 \<and> (bit l n \<or> 8 \<le> n \<and> bit h (n - 8)
     \<or> n = 13 \<and> a \<or> n = 14 \<and> b \<or> n = 15 \<and> c))"
proof (cases "n < 16")
  case True
  have p: "bit (push_bit m x) n = (m \<le> n \<and> bit x (n - m))" for m and x :: u32
    using True by (auto simp: bit_push_bit_iff)
  have u: "bit (ucast x :: u32) k = bit x k" for x :: byte and k
    by (auto simp: bit_ucast_iff dest: bit_imp_le_length)
  have "bit (header16 l h a b c) n = bit (ucast l OR push_bit 8 (ucast h) OR push_bit 13 (bool_bit a)
     OR push_bit 14 (bool_bit b) OR push_bit 15 (bool_bit c) :: u32) n"
    using True by (simp add: header16_def bit_ucast_iff)
  then show ?thesis using True unfolding bit_or_iff p u bit_bool_bit by auto
next
  case False
  then show ?thesis by (auto dest: bit_imp_le_length)
qed

lemma header16_parts:
  assumes "unat h < 32"
  shows "take_bit 8 (header16 l h a b c) = ucast l" "take_bit 5 (drop_bit 8 (header16 l h a b c)) = ucast h"
    "bit (header16 l h a b c) 13 = a" "bit (header16 l h a b c) 14 = b" "bit (header16 l h a b c) 15 = c"
proof -
  have hb: "bit h n \<Longrightarrow> n < 5" for n using bit_below [of h 5 n] assms by simp
  have lb: "bit l n \<Longrightarrow> n < 8" for n using bit_imp_le_length [of l n] by simp
  show "bit (header16 l h a b c) 13 = a" "bit (header16 l h a b c) 14 = b" "bit (header16 l h a b c) 15 = c"
    using hb [of 5] hb [of 6] hb [of 7] lb [of 13] lb [of 14] lb [of 15] unfolding header16_bit by auto
  show "take_bit 8 (header16 l h a b c) = ucast l"
    by (rule bit_word_eqI) (auto simp: bit_take_bit_iff header16_bit bit_ucast_iff dest: lb hb)
  show "take_bit 5 (drop_bit 8 (header16 l h a b c)) = ucast h"
    by (rule bit_word_eqI) (auto simp: bit_take_bit_iff bit_drop_bit_eq header16_bit bit_ucast_iff dest: lb hb)
qed

subsection \<open>Properties\<close>

lemma pad_loop_length: "\<exists>k < 8. pad_loop packet = packet @ replicate k 0 \<and> length (pad_loop packet) mod 8 = 0"
proof (induction packet rule: pad_loop.induct)
  case (1 packet)
  show ?case
  proof (cases "length packet mod 8 > 0")
    case False
    then show ?thesis by (subst (1 2) pad_loop.simps) (auto intro: exI [of _ 0])
  next
    case True
    then obtain k where k: "pad_loop (packet @ [0]) = packet @ 0 # replicate k 0"
        "length (pad_loop (packet @ [0])) mod 8 = 0" "k < 8"
      using 1 by auto
    have eq: "pad_loop packet = pad_loop (packet @ [0])" using True by (subst pad_loop.simps) simp
    have "k \<noteq> 7"
    proof
      assume "k = 7"
      then have "length (pad_loop (packet @ [0])) = length packet + 8" using k(1) by simp
      then show False using k(2) True by simp
    qed
    then show ?thesis using k eq by (intro exI [of _ "Suc k"]) auto
  qed
qed

lemma tag_parse_short: "length bs < 8 \<Longrightarrow> tag_parse bs = Some []"
  by (subst tag_parse.simps) simp

lemma tag_packet_parse:
  assumes "TagPacket_Assemble p = Inr (bs, p')" "tp_raw_tagpacket p = []"
    and "\<forall>i \<in> set (tp_tag_items p). tag_ok i \<and> length (tag_value i) < 2 ^ 29"
    and "tp_alignment p < 2 ^ 29"
  shows "tag_parse bs = Some (map (\<lambda>i. (tag_name i, tag_value i)) (tp_tag_items p)
      @ (if tp_alignment p > 8 then [(str_bytes ''*dmy'', replicate (unat (tp_alignment p) - 8) 0)] else []))
    \<and> (tp_alignment p = 8 \<longrightarrow> length bs mod 8 = 0
        \<and> length bs < sum_list (map (\<lambda>i. 8 + length (tag_value i)) (tp_tag_items p)) + 8)"
proof -
  let ?nv = "map (\<lambda>i. (tag_name i, tag_value i)) (tp_tag_items p)"
  obtain packet items where a: "assemble_items TagItem_Assemble (tp_tag_items p) = Inr (packet, items)"
    "tag_padding (tp_alignment p) packet = Inr bs"
    using assms(1,2) by (auto simp: TagPacket_Assemble_def split: sum.splits)
  have parse: "tag_parse (packet @ rest) = map_option ((@) ?nv) (tag_parse rest)" for rest
    using tags.items_parse [OF a(1)] assms(3) by blast
  have len: "length packet = sum_list (map (\<lambda>i. 8 + length (tag_value i)) (tp_tag_items p))"
    using tags.items_length [OF a(1)] assms(3) by blast
  consider (none) "tp_alignment p = 0 \<or> tp_alignment p < 8" | (eight) "tp_alignment p = 8" | (dmy) "tp_alignment p > 8"
    by (metis linorder_cases)
  then show ?thesis
  proof cases
    case none
    then have "bs = packet" "\<not> tp_alignment p > 8" "tp_alignment p \<noteq> 8"
      using a(2) by (auto simp: tag_padding_def split: if_splits)
    then show ?thesis using parse [of "[]"] tag_parse_short [of "[]"] by simp
  next
    case eight
    then have bs: "bs = pad_loop packet" using a(2) by (simp add: tag_padding_def)
    obtain k where k: "k < 8" "bs = packet @ replicate k 0" "length bs mod 8 = 0"
      using pad_loop_length [of packet] bs by auto
    then show ?thesis using parse [of "replicate k 0"] tag_parse_short [of "replicate k 0"] eight len by simp
  next
    case dmy
    then obtain d where d: "TagStarDMY_Assemble (tp_alignment p - 8) = Inr d" "bs = packet @ d"
      using a(2) by (auto simp: tag_padding_def split: sum.splits if_splits)
    have u: "unat (tp_alignment p - 8) = unat (tp_alignment p) - 8"
      using dmy by (simp add: unat_sub_if' word_less_nat_alt)
    have "unat (tp_alignment p) < 2 ^ 29" using assms(4) by (simp add: word_less_nat_alt)
    then have "tag_parse d = Some [(str_bytes ''*dmy'', replicate (unat (tp_alignment p) - 8) 0)]"
      using tag_parse_tlv [of "str_bytes ''*dmy''" "replicate (unat (tp_alignment p) - 8) 0" "[]"]
        dmy_tlv [OF d(1)] tag_parse_short [of "[]"] u by simp
    then show ?thesis using parse [of d] d(2) dmy by auto
  qed
qed

text \<open>C12: a TAG packet can be read back. Whenever \<open>TagPacket::Assemble\<close> returns a packet built from
  items (each with a value of less than \<open>2^29\<close> bytes), splitting it by the TAG length fields gives
  the names and values of the items, in order, followed by the dummy item if the alignment is
  larger than 8; with alignment 8 the packet size is a multiple of 8 and at most 7 bytes are added.\<close>

theorem tag_packet_roundtrip:
  assumes "TagPacket_Assemble p = Inr (bs, p')" "tp_raw_tagpacket p = []"
    and "\<forall>i \<in> set (tp_tag_items p). tag_ok i \<and> length (tag_value i) < 2 ^ 29"
    and "tp_alignment p < 2 ^ 29"
  shows "tag_parse bs = Some (map (\<lambda>i. (tag_name i, tag_value i)) (tp_tag_items p)
      @ (if tp_alignment p > 8 then [(str_bytes ''*dmy'', replicate (unat (tp_alignment p) - 8) 0)] else []))
    \<and> (tp_alignment p = 8 \<longrightarrow> length bs mod 8 = 0
        \<and> length bs < sum_list (map (\<lambda>i. 8 + length (tag_value i)) (tp_tag_items p)) + 8)"
  using assms by (rule tag_packet_parse)

theorem tag_packet_roundtrip_witness:
  "\<exists>bs p'. TagPacket_Assemble ((TagPacket_init 8)\<lparr>tp_tag_items := [StarPTR ''DSTI'']\<rparr>) = Inr (bs, p')
    \<and> tag_parse bs = Some [(str_bytes ''*ptr'', str_bytes ''DSTI'' @ [0, 0, 0, 0])] \<and> length bs mod 8 = 0"
proof -
  let ?p = "(TagPacket_init 8)\<lparr>tp_tag_items := [StarPTR ''DSTI'']\<rparr>"
  have a: "TagPacket_Assemble ?p = Inr (pad_loop (TagStarPTR_Assemble ''DSTI''), ?p)"
    by (simp add: TagPacket_Assemble_def TagPacket_init_def TagItem_Assemble_def tag_padding_def)
  have v: "tag_name (StarPTR ''DSTI'') = str_bytes ''*ptr''"
    "tag_value (StarPTR ''DSTI'') = str_bytes ''DSTI'' @ [0, 0, 0, 0]"
    by (simp_all add: tag_name_def tag_value_def tag_bytes_def TagItem_Assemble_def TagStarPTR_Assemble_def)
  show ?thesis
    using tag_packet_roundtrip [OF a] a
    by (simp add: TagPacket_init_def tag_ok_def v)
qed

definition header_dlfc :: "u16 \<Rightarrow> nat" where
  "header_dlfc h = unat (take_bit 8 h) + 250 * unat (take_bit 5 (drop_bit 8 h))"

lemma dsti_header_fields:
  assumes "dsti_dlfc d < 5000"
  shows "header_dlfc (dsti_header d) = unat (dsti_dlfc d)" "bit (dsti_header d) 13 = dsti_rfadf d"
    "bit (dsti_header d) 14 = dsti_atstf d" "bit (dsti_header d) 15 = dsti_stihf d"
proof -
  let ?l = "ucast (dsti_dlfc d mod 250) :: byte" and ?h = "ucast (dsti_dlfc d div 250) :: byte"
  have u: "unat (dsti_dlfc d) < 5000" using assms by (simp add: word_less_nat_alt)
  have l: "unat ?l = unat (dsti_dlfc d) mod 250"
    by (simp add: unsigned_ucast_eq unat_mod_distrib take_bit_nat_eq_self)
  have h: "unat ?h = unat (dsti_dlfc d) div 250"
    using u by (simp add: unsigned_ucast_eq unat_div_distrib take_bit_nat_eq_self)
  have "unat (dsti_dlfc d) div 250 < 32" using u by linarith
  then have h32: "unat ?h < 32" using h by simp
  have eq: "dsti_header d = header16 ?l ?h (dsti_rfadf d) (dsti_atstf d) (dsti_stihf d)"
    by (simp only: dsti_header_def Let_def)
  note parts = header16_parts [OF h32, of ?l "dsti_rfadf d" "dsti_atstf d" "dsti_stihf d", folded eq]
  show "bit (dsti_header d) 13 = dsti_rfadf d" "bit (dsti_header d) 14 = dsti_atstf d"
    "bit (dsti_header d) 15 = dsti_stihf d" by (rule parts)+
  show "header_dlfc (dsti_header d) = unat (dsti_dlfc d)"
    unfolding header_dlfc_def parts(1,2) unat_ucast_byte l h by simp
qed

lemma dlfc_next_unat:
  assumes "dlfc < 5000"
  shows "unat (dlfc_next dlfc) = (unat dlfc + 1) mod 5000"
proof -
  have u: "unat dlfc < 5000" using assms by (simp add: word_less_nat_alt)
  have m: "(unat dlfc + 1) mod 5000 < 65536" by (rule order_less_trans [of _ 5000]) simp_all
  have "unat (ucast dlfc + 1 :: u32) = unat dlfc + 1"
    using u by (simp add: unat_word_ariths unsigned_ucast_eq take_bit_nat_eq_self)
  then have "unat ((ucast dlfc + 1 :: u32) mod 5000) = (unat dlfc + 1) mod 5000"
    by (simp only: unat_mod_distrib) simp
  then show ?thesis
    unfolding dlfc_next_def unsigned_ucast_eq using m by (simp add: take_bit_nat_eq_self)
qed

text \<open>The \<open>dsti\<close> item can be read back. For a frame counter below 5000 the value starts with the
  header, from which the counter and the three presence flags are recovered, followed by exactly
  the announced fields at their places; the counter then advances modulo 5000.\<close>

theorem dsti_roundtrip:
  assumes "TagDSTI_Assemble d = (b, d')" "dsti_dlfc d < 5000" "length (dsti_rfad d) = 9"
  shows "let v = drop 8 b; h = rd16 v; o1 = 2 + (if bit h 15 then 3 else 0);
             o2 = o1 + (if bit h 14 then 8 else 0)
    in take 4 b = str_bytes ''dsti'' \<and> header_dlfc h = unat (dsti_dlfc d)
    \<and> bit h 15 = dsti_stihf d \<and> bit h 14 = dsti_atstf d \<and> bit h 13 = dsti_rfadf d
    \<and> (bit h 15 \<longrightarrow> v ! 2 = dsti_stat d \<and> rd16 (drop 3 v) = dsti_spid d)
    \<and> (bit h 14 \<longrightarrow> v ! o1 = dsti_utco d \<and> rd32 (drop (o1 + 1) v) = dsti_seconds d
          \<and> rd24 (drop (o1 + 5) v) = dsti_tsta d AND mask 24)
    \<and> (bit h 13 \<longrightarrow> take 9 (drop o2 v) = dsti_rfad d)
    \<and> length v = o2 + (if bit h 13 then 9 else 0)
    \<and> unat (dsti_dlfc d') = (unat (dsti_dlfc d) + 1) mod 5000"
proof -
  define v where "v = drop 8 b"
  define h where "h = rd16 v"
  define o1 :: nat where "o1 = 2 + (if bit h 15 then 3 else 0)"
  define o2 where "o2 = o1 + (if bit h 14 then 8 else 0)"
  let ?sti = "if dsti_stihf d then dsti_stat d # be16 (dsti_spid d) else []"
  let ?atst = "if dsti_atstf d then dsti_utco d # be32 (dsti_seconds d) @ be24 (dsti_tsta d) else []"
  let ?rfad = "if dsti_rfadf d then dsti_rfad d else []"
  have b: "b = tag_tlv (str_bytes ''dsti'') (be16 (dsti_header d) @ ?sti @ ?atst @ ?rfad)"
    "d' = d\<lparr>dsti_dlfc := dlfc_next (dsti_dlfc d)\<rparr>"
    using assms(1) by (auto simp: TagDSTI_Assemble_def Let_def)
  have v: "v = be16 (dsti_header d) @ ?sti @ ?atst @ ?rfad" unfolding v_def b(1) by (simp add: tag_tlv_def)
  have h: "h = dsti_header d" unfolding h_def v by (simp only: be_simps)
  have hf: "bit h 13 = dsti_rfadf d" "bit h 14 = dsti_atstf d" "bit h 15 = dsti_stihf d"
    "header_dlfc h = unat (dsti_dlfc d)"
    unfolding h using dsti_header_fields [OF assms(2)] by blast+
  have at2: "drop 2 v = ?sti @ ?atst @ ?rfad" unfolding v by simp
  have at: "drop o1 v = ?atst @ ?rfad" unfolding v o1_def hf by simp
  have at3: "drop o2 v = ?rfad" unfolding v o1_def o2_def hf by simp
  have "take 4 b = str_bytes ''dsti''" unfolding b(1) by (simp add: tag_tlv_def)
  moreover have "v ! 2 = dsti_stat d \<and> rd16 (drop 3 v) = dsti_spid d" if "dsti_stihf d"
    using that unfolding v by (simp add: nth_append be_simps)
  moreover have "v ! o1 = dsti_utco d \<and> rd32 (drop (o1 + 1) v) = dsti_seconds d
          \<and> rd24 (drop (o1 + 5) v) = dsti_tsta d AND mask 24" if "dsti_atstf d"
  proof -
    have d: "drop o1 v = dsti_utco d # be32 (dsti_seconds d) @ be24 (dsti_tsta d) @ ?rfad" using at that by simp
    have "v ! o1 = drop o1 v ! 0" "drop (o1 + 1) v = drop 1 (drop o1 v)" "drop (o1 + 5) v = drop 5 (drop o1 v)"
      by (simp_all add: v o1_def hf nth_append add.commute that)
    then show ?thesis unfolding d by (simp add: be_simps)
  qed
  moreover have "length v = o2 + (if dsti_rfadf d then 9 else 0)" using assms(3) unfolding v o1_def o2_def hf by simp
  moreover have "unat (dsti_dlfc d') = (unat (dsti_dlfc d) + 1) mod 5000" using b(2) dlfc_next_unat [OF assms(2)] by simp
  ultimately show ?thesis
    using hf at3 assms(3) unfolding Let_def v_def [symmetric] h_def [symmetric] o1_def [symmetric] o2_def [symmetric]
    by auto
qed

theorem dsti_roundtrip_witness:
  "\<exists>b d'. TagDSTI_Assemble \<lparr>dsti_stihf = False, dsti_atstf = False, dsti_rfadf = False, dsti_dlfc = 4999,
      dsti_stat = 0, dsti_spid = 0, dsti_utco = 0, dsti_seconds = 0, dsti_tsta = 0xFFFFFF,
      dsti_rfad = replicate 9 0\<rparr> = (b, d')
    \<and> header_dlfc (rd16 (drop 8 b)) = 4999 \<and> unat (dsti_dlfc d') = 0"
proof -
  let ?d = "\<lparr>dsti_stihf = False, dsti_atstf = False, dsti_rfadf = False, dsti_dlfc = 4999,
      dsti_stat = 0, dsti_spid = 0, dsti_utco = 0, dsti_seconds = 0, dsti_tsta = 0xFFFFFF,
      dsti_rfad = replicate 9 0\<rparr> :: TagDSTI"
  obtain b d' where b: "TagDSTI_Assemble ?d = (b, d')" by (cases "TagDSTI_Assemble ?d")
  have "dsti_dlfc ?d < 5000" "length (dsti_rfad ?d) = 9" "unat (dsti_dlfc ?d) = 4999" by simp_all
  then show ?thesis using dsti_roundtrip [OF b] b by (auto simp: Let_def)
qed

text \<open>The \<open>ss\<close> item refuses exactly the field values that do not fit (and data shorter than
  announced); otherwise the header word gives every field back and the stream data follow it.\<close>

theorem ssm_roundtrip:
  "case TagSSm_Assemble s of
     Inl e \<Rightarrow> ss_rfa s > 0x1F \<or> ss_tid s > 7 \<or> ss_tidext s > 7 \<or> ss_stid s > 0xFFF
              \<or> length (ss_istd_data s) < ss_istd_length s
   | Inr b \<Rightarrow> (let v = drop 8 b; i = rd24 v in
        take 4 b = str_bytes ''ss'' @ be16 (ss_id s)
        \<and> drop_bit 19 i = ucast (ss_rfa s) \<and> take_bit 3 (drop_bit 16 i) = ucast (ss_tid s)
        \<and> take_bit 3 (drop_bit 13 i) = ucast (ss_tidext s) \<and> bit i 12 = ss_crcstf s
        \<and> take_bit 12 i = ucast (ss_stid s) \<and> drop 3 v = take (ss_istd_length s) (ss_istd_data s)
        \<and> ss_rfa s \<le> 0x1F \<and> ss_tid s \<le> 7 \<and> ss_tidext s \<le> 7 \<and> ss_stid s \<le> 0xFFF)"
proof (cases "TagSSm_Assemble s")
  case (Inl e)
  then show ?thesis by (auto simp: TagSSm_Assemble_def split: if_splits)
next
  case (Inr b)
  then have ok: "ss_rfa s \<le> 0x1F" "ss_tid s \<le> 7" "ss_tidext s \<le> 7" "ss_stid s \<le> 0xFFF"
    and b: "b = tag_tlv (str_bytes ''ss'' @ be16 (ss_id s)) (be24 (ss_istc s) @ take (ss_istd_length s) (ss_istd_data s))"
    by (auto simp: TagSSm_Assemble_def split: if_splits)
  have bits: "bit (ss_rfa s) n \<Longrightarrow> n < 5" "bit (ss_tid s) n \<Longrightarrow> n < 3" "bit (ss_tidext s) n \<Longrightarrow> n < 3"
    "bit (ss_stid s) n \<Longrightarrow> n < 12" for n
    using ok bit_below [of "ss_rfa s" 5 n] bit_below [of "ss_tid s" 3 n] bit_below [of "ss_tidext s" 3 n]
      bit_below [of "ss_stid s" 12 n] by (auto simp: word_le_nat_alt)
  have nbits: "5 \<le> n \<Longrightarrow> \<not> bit (ss_rfa s) n" "3 \<le> n \<Longrightarrow> \<not> bit (ss_tid s) n" "3 \<le> n \<Longrightarrow> \<not> bit (ss_tidext s) n"
    "12 \<le> n \<Longrightarrow> \<not> bit (ss_stid s) n" for n
    using bits [of n] by auto
  have ist: "bit (ss_istc s) n = (19 \<le> n \<and> bit (ss_rfa s) (n - 19) \<or> 16 \<le> n \<and> bit (ss_tid s) (n - 16)
      \<or> 13 \<le> n \<and> bit (ss_tidext s) (n - 13) \<or> n = 12 \<and> ss_crcstf s \<or> bit (ss_stid s) n)" for n
  proof (cases "n < 32")
    case True
    have p: "bit (push_bit m x) n = (m \<le> n \<and> bit x (n - m))" for m and x :: u32
      using True by (auto simp: bit_push_bit_iff)
    have u: "bit (ucast x :: u32) k = bit x k" "bit (ucast y :: u32) k = bit y k" for x :: byte and y :: u16 and k
      by (auto simp: bit_ucast_iff dest: bit_imp_le_length)
    show ?thesis unfolding ss_istc_def bit_or_iff p u bit_bool_bit by auto
  next
    case False
    then show ?thesis
      using bits(1) [of "n - 19"] bits(2) [of "n - 16"] bits(3) [of "n - 13"] bits(4) [of n] bit_imp_le_length [of "ss_istc s" n]
      by fastforce
  qed
  have lt: "n < 24" if "bit (ss_istc s) n" for n
    using that nbits(1) [of "n - 19"] nbits(2) [of "n - 16"] nbits(3) [of "n - 13"] nbits(4) [of n]
    unfolding ist by (cases "n < 24") auto
  have "rd24 (drop 8 b) = ss_istc s AND mask 24" unfolding b by (simp add: tag_tlv_def be_simps)
  also have "\<dots> = ss_istc s"
    unfolding take_bit_eq_mask [symmetric]
    by (rule bit_word_eqI) (auto simp: bit_take_bit_iff dest: lt)
  finally have i: "rd24 (drop 8 b) = ss_istc s" .
  have "drop_bit 19 (ss_istc s) = ucast (ss_rfa s)" "take_bit 3 (drop_bit 16 (ss_istc s)) = ucast (ss_tid s)"
    "take_bit 3 (drop_bit 13 (ss_istc s)) = ucast (ss_tidext s)" "take_bit 12 (ss_istc s) = ucast (ss_stid s)"
    by (rule bit_word_eqI, use bits in \<open>auto simp: bit_take_bit_iff bit_drop_bit_eq bit_ucast_iff ist nbits not_le add.commute\<close>; fail)+
  moreover have "bit (ss_istc s) 12 = ss_crcstf s" using bits(4) [of 12] by (auto simp: ist)
  moreover have "take 4 b = str_bytes ''ss'' @ be16 (ss_id s)" "drop 3 (drop 8 b) = take (ss_istd_length s) (ss_istd_data s)"
    unfolding b by (simp_all add: tag_tlv_def)
  ultimately show ?thesis using ok unfolding Inr sum.case Let_def i by blast
qed

text \<open>EDI time. After \<open>set_edi_time(t, offset)\<close>, for an offset between 32 and 287 s and a time from
  2000 on that fits, \<open>UTCO\<close> is the offset minus 32 and the seconds field is UTC since 2000 plus UTCO.\<close>

theorem edi_time:
  assumes "32 \<le> offset" "offset < 288" "posix_timestamp_1_jan_2000 \<le> t"
    and "t - posix_timestamp_1_jan_2000 + offset - 32 < 2 ^ 32"
  shows "uint (dsti_utco (TagDSTI_set_edi_time d t offset)) = offset - 32
    \<and> uint (dsti_seconds (TagDSTI_set_edi_time d t offset))
        = t - posix_timestamp_1_jan_2000 + uint (dsti_utco (TagDSTI_set_edi_time d t offset))"
proof -
  have u: "uint (word_of_int (offset - 32) :: byte) = offset - 32"
    unfolding uint_word_of_int_eq by (rule take_bit_int_eq_self) (use assms(1,2) in simp_all)
  have "uint (word_of_int (t - posix_timestamp_1_jan_2000 + (offset - 32)) :: u32)
      = t - posix_timestamp_1_jan_2000 + (offset - 32)"
    unfolding uint_word_of_int_eq by (rule take_bit_int_eq_self) (use assms in simp_all)
  then show ?thesis by (simp add: TagDSTI_set_edi_time_def u Let_def del: of_int_diff of_int_add)
qed

theorem edi_time_witness:
  "uint (dsti_seconds (TagDSTI_set_edi_time
     \<lparr>dsti_stihf = False, dsti_atstf = False, dsti_rfadf = False, dsti_dlfc = 0, dsti_stat = 0, dsti_spid = 0,
      dsti_utco = 0, dsti_seconds = 0, dsti_tsta = 0, dsti_rfad = []\<rparr> 1700000000 37)) = 753315205"
  using edi_time [of 37 1700000000 "\<lparr>dsti_stihf = False, dsti_atstf = False, dsti_rfadf = False, dsti_dlfc = 0,
      dsti_stat = 0, dsti_spid = 0, dsti_utco = 0, dsti_seconds = 0, dsti_tsta = 0, dsti_rfad = []\<rparr>"]
  by (simp add: posix_timestamp_1_jan_2000_def)

end
