(* ===== verification/CRC.thy ===== *)
theory CRC
  imports Prelude
begin

text \<open>
  Model of \<open>lib/crc.c\<close>: the three lookup tables as they stand in the source, the functions
  that generate such tables, and the table-driven \<open>crc8\<close>, \<open>crc16\<close> and \<open>crc32\<close>. The
  locale \<open>crc_table\<close> states what the table lookups rely on (the table holds the effect of
  eight shift-register steps); it is interpreted on each of the three tables, and gives the
  equivalence with the bit-serial shift register and the detection of short error bursts.
\<close>

unbundle bit_operations_syntax

subsection \<open>The tables of the source\<close>

definition crc8tab :: "byte list" where
  "crc8tab = [
     0x00, 0x07, 0x0e, 0x09, 0x1c, 0x1b, 0x12, 0x15, 0x38, 0x3f, 0x36, 0x31, 0x24, 0x23, 0x2a, 0x2d,
     0x70, 0x77, 0x7e, 0x79, 0x6c, 0x6b, 0x62, 0x65, 0x48, 0x4f, 0x46, 0x41, 0x54, 0x53, 0x5a, 0x5d,
     0xe0, 0xe7, 0xee, 0xe9, 0xfc, 0xfb, 0xf2, 0xf5, 0xd8, 0xdf, 0xd6, 0xd1, 0xc4, 0xc3, 0xca, 0xcd,
     0x90, 0x97, 0x9e, 0x99, 0x8c, 0x8b, 0x82, 0x85, 0xa8, 0xaf, 0xa6, 0xa1, 0xb4, 0xb3, 0xba, 0xbd,
     0xc7, 0xc0, 0xc9, 0xce, 0xdb, 0xdc, 0xd5, 0xd2, 0xff, 0xf8, 0xf1, 0xf6, 0xe3, 0xe4, 0xed, 0xea,
     0xb7, 0xb0, 0xb9, 0xbe, 0xab, 0xac, 0xa5, 0xa2, 0x8f, 0x88, 0x81, 0x86, 0x93, 0x94, 0x9d, 0x9a,
     0x27, 0x20, 0x29, 0x2e, 0x3b, 0x3c, 0x35, 0x32, 0x1f, 0x18, 0x11, 0x16, 0x03, 0x04, 0x0d, 0x0a,
     0x57, 0x50, 0x59, 0x5e, 0x4b, 0x4c, 0x45, 0x42, 0x6f, 0x68, 0x61, 0x66, 0x73, 0x74, 0x7d, 0x7a,
     0x89, 0x8e, 0x87, 0x80, 0x95, 0x92, 0x9b, 0x9c, 0xb1, 0xb6, 0xbf, 0xb8, 0xad, 0xaa, 0xa3, 0xa4,
     0xf9, 0xfe, 0xf7, 0xf0, 0xe5, 0xe2, 0xeb, 0xec, 0xc1, 0xc6, 0xcf, 0xc8, 0xdd, 0xda, 0xd3, 0xd4,
     0x69, 0x6e, 0x67, 0x60, 0x75, 0x72, 0x7b, 0x7c, 0x51, 0x56, 0x5f, 0x58, 0x4d, 0x4a, 0x43, 0x44,
     0x19, 0x1e, 0x17, 0x10, 0x05, 0x02, 0x0b, 0x0c, 0x21, 0x26, 0x2f, 0x28, 0x3d, 0x3a, 0x33, 0x34,
     0x4e, 0x49, 0x40, 0x47, 0x52, 0x55, 0x5c, 0x5b, 0x76, 0x71, 0x78, 0x7f, 0x6a, 0x6d, 0x64, 0x63,
     0x3e, 0x39, 0x30, 0x37, 0x22, 0x25, 0x2c, 0x2b, 0x06, 0x01, 0x08, 0x0f, 0x1a, 0x1d, 0x14, 0x13,
     0xae, 0xa9, 0xa0, 0xa7, 0xb2, 0xb5, 0xbc, 0xbb, 0x96, 0x91, 0x98, 0x9f, 0x8a, 0x8d, 0x84, 0x83,
     0xde, 0xd9, 0xd0, 0xd7, 0xc2, 0xc5, 0xcc, 0xcb, 0xe6, 0xe1, 0xe8, 0xef, 0xfa, 0xfd, 0xf4, 0xf3]"

definition crc16tab :: "u16 list" where
  "crc16tab = [
     0x0000, 0x1021, 0x2042, 0x3063, 0x4084, 0x50a5, 0x60c6, 0x70e7,
     0x8108, 0x9129, 0xa14a, 0xb16b, 0xc18c, 0xd1ad, 0xe1ce, 0xf1ef,
     0x1231, 0x0210, 0x3273, 0x2252, 0x52b5, 0x4294, 0x72f7, 0x62d6,
     0x9339, 0x8318, 0xb37b, 0xa35a, 0xd3bd, 0xc39c, 0xf3ff, 0xe3de,
     0x2462, 0x3443, 0x0420, 0x1401, 0x64e6, 0x74c7, 0x44a4, 0x5485,
     0xa56a, 0xb54b, 0x8528, 0x9509, 0xe5ee, 0xf5cf, 0xc5ac, 0xd58d,
     0x3653, 0x2672, 0x1611, 0x0630, 0x76d7, 0x66f6, 0x5695, 0x46b4,
     0xb75b, 0xa77a, 0x9719, 0x8738, 0xf7df, 0xe7fe, 0xd79d, 0xc7bc,
     0x48c4, 0x58e5, 0x6886, 0x78a7, 0x0840, 0x1861, 0x2802, 0x3823,
     0xc9cc, 0xd9ed, 0xe98e, 0xf9af, 0x8948, 0x9969, 0xa90a, 0xb92b,
     0x5af5, 0x4ad4, 0x7ab7, 0x6a96, 0x1a71, 0x0a50, 0x3a33, 0x2a12,
     0xdbfd, 0xcbdc, 0xfbbf, 0xeb9e, 0x9b79, 0x8b58, 0xbb3b, 0xab1a,
     0x6ca6, 0x7c87, 0x4ce4, 0x5cc5, 0x2c22, 0x3c03, 0x0c60, 0x1c41,
     0xedae, 0xfd8f, 0xcdec, 0xddcd, 0xad2a, 0xbd0b, 0x8d68, 0x9d49,
     0x7e97, 0x6eb6, 0x5ed5, 0x4ef4, 0x3e13, 0x2e32, 0x1e51, 0x0e70,
     0xff9f, 0xefbe, 0xdfdd, 0xcffc, 0xbf1b, 0xaf3a, 0x9f59, 0x8f78,
     0x9188, 0x81a9, 0xb1ca, 0xa1eb, 0xd10c, 0xc12d, 0xf14e, 0xe16f,
     0x1080, 0x00a1, 0x30c2, 0x20e3, 0x5004, 0x4025, 0x7046, 0x6067,
     0x83b9, 0x9398, 0xa3fb, 0xb3da, 0xc33d, 0xd31c, 0xe37f, 0xf35e,
     0x02b1, 0x1290, 0x22f3, 0x32d2, 0x4235, 0x5214, 0x6277, 0x7256,
     0xb5ea, 0xa5cb, 0x95a8, 0x8589, 0xf56e, 0xe54f, 0xd52c, 0xc50d,
     0x34e2, 0x24c3, 0x14a0, 0x0481, 0x7466, 0x6447, 0x5424, 0x4405,
     0xa7db, 0xb7fa, 0x8799, 0x97b8, 0xe75f, 0xf77e, 0xc71d, 0xd73c,
     0x26d3, 0x36f2, 0x0691, 0x16b0, 0x6657, 0x7676, 0x4615, 0x5634,
     0xd94c, 0xc96d, 0xf90e, 0xe92f, 0x99c8, 0x89e9, 0xb98a, 0xa9ab,
     0x5844, 0x4865, 0x7806, 0x6827, 0x18c0, 0x08e1, 0x3882, 0x28a3,
     0xcb7d, 0xdb5c, 0xeb3f, 0xfb1e, 0x8bf9, 0x9bd8, 0xabbb, 0xbb9a,
     0x4a75, 0x5a54, 0x6a37, 0x7a16, 0x0af1, 0x1ad0, 0x2ab3, 0x3a92,
     0xfd2e, 0xed0f, 0xdd6c, 0xcd4d, 0xbdaa, 0xad8b, 0x9de8, 0x8dc9,
     0x7c26, 0x6c07, 0x5c64, 0x4c45, 0x3ca2, 0x2c83, 0x1ce0, 0x0cc1,
     0xef1f, 0xff3e, 0xcf5d, 0xdf7c, 0xaf9b, 0xbfba, 0x8fd9, 0x9ff8,
     0x6e17, 0x7e36, 0x4e55, 0x5e74, 0x2e93, 0x3eb2, 0x0ed1, 0x1ef0]"

definition crc32tab :: "u32 list" where
  "crc32tab = [
     0x00000000, 0x04c11db7, 0x09823b6e, 0x0d4326d9, 0x130476dc, 0x17c56b6b, 0x1a864db2, 0x1e475005,
     0x2608edb8, 0x22c9f00f, 0x2f8ad6d6, 0x2b4bcb61, 0x350c9b64, 0x31cd86d3, 0x3c8ea00a, 0x384fbdbd,
     0x4c11db70, 0x48d0c6c7, 0x4593e01e, 0x4152fda9, 0x5f15adac, 0x5bd4b01b, 0x569796c2, 0x52568b75,
     0x6a1936c8, 0x6ed82b7f, 0x639b0da6, 0x675a1011, 0x791d4014, 0x7ddc5da3, 0x709f7b7a, 0x745e66cd,
     0x9823b6e0, 0x9ce2ab57, 0x91a18d8e, 0x95609039, 0x8b27c03c, 0x8fe6dd8b, 0x82a5fb52, 0x8664e6e5,
     0xbe2b5b58, 0xbaea46ef, 0xb7a96036, 0xb3687d81, 0xad2f2d84, 0xa9ee3033, 0xa4ad16ea, 0xa06c0b5d,
     0xd4326d90, 0xd0f37027, 0xddb056fe, 0xd9714b49, 0xc7361b4c, 0xc3f706fb, 0xceb42022, 0xca753d95,
     0xf23a8028, 0xf6fb9d9f, 0xfbb8bb46, 0xff79a6f1, 0xe13ef6f4, 0xe5ffeb43, 0xe8bccd9a, 0xec7dd02d,
     0x34867077, 0x30476dc0, 0x3d044b19, 0x39c556ae, 0x278206ab, 0x23431b1c, 0x2e003dc5, 0x2ac12072,
     0x128e9dcf, 0x164f8078, 0x1b0ca6a1, 0x1fcdbb16, 0x018aeb13, 0x054bf6a4, 0x0808d07d, 0x0cc9cdca,
     0x7897ab07, 0x7c56b6b0, 0x71159069, 0x75d48dde, 0x6b93dddb, 0x6f52c06c, 0x6211e6b5, 0x66d0fb02,
     0x5e9f46bf, 0x5a5e5b08, 0x571d7dd1, 0x53dc6066, 0x4d9b3063, 0x495a2dd4, 0x44190b0d, 0x40d816ba,
     0xaca5c697, 0xa864db20, 0xa527fdf9, 0xa1e6e04e, 0xbfa1b04b, 0xbb60adfc, 0xb6238b25, 0xb2e29692,
     0x8aad2b2f, 0x8e6c3698, 0x832f1041, 0x87ee0df6, 0x99a95df3, 0x9d684044, 0x902b669d, 0x94ea7b2a,
     0xe0b41de7, 0xe4750050, 0xe9362689, 0xedf73b3e, 0xf3b06b3b, 0xf771768c, 0xfa325055, 0xfef34de2,
     0xc6bcf05f, 0xc27dede8, 0xcf3ecb31, 0xcbffd686, 0xd5b88683, 0xd1799b34, 0xdc3abded, 0xd8fba05a,
     0x690ce0ee, 0x6dcdfd59, 0x608edb80, 0x644fc637, 0x7a089632, 0x7ec98b85, 0x738aad5c, 0x774bb0eb,
     0x4f040d56, 0x4bc510e1, 0x46863638, 0x42472b8f, 0x5c007b8a, 0x58c1663d, 0x558240e4, 0x51435d53,
     0x251d3b9e, 0x21dc2629, 0x2c9f00f0, 0x285e1d47, 0x36194d42, 0x32d850f5, 0x3f9b762c, 0x3b5a6b9b,
     0x0315d626, 0x07d4cb91, 0x0a97ed48, 0x0e56f0ff, 0x1011a0fa, 0x14d0bd4d, 0x19939b94, 0x1d528623,
     0xf12f560e, 0xf5ee4bb9, 0xf8ad6d60, 0xfc6c70d7, 0xe22b20d2, 0xe6ea3d65, 0xeba91bbc, 0xef68060b,
     0xd727bbb6, 0xd3e6a601, 0xdea580d8, 0xda649d6f, 0xc423cd6a, 0xc0e2d0dd, 0xcda1f604, 0xc960ebb3,
     0xbd3e8d7e, 0xb9ff90c9, 0xb4bcb610, 0xb07daba7, 0xae3afba2, 0xaafbe615, 0xa7b8c0cc, 0xa379dd7b,
     0x9b3660c6, 0x9ff77d71, 0x92b45ba8, 0x9675461f, 0x8832161a, 0x8cf30bad, 0x81b02d74, 0x857130c3,
     0x5d8a9099, 0x594b8d2e, 0x5408abf7, 0x50c9b640, 0x4e8ee645, 0x4a4ffbf2, 0x470cdd2b, 0x43cdc09c,
     0x7b827d21, 0x7f436096, 0x7200464f, 0x76c15bf8, 0x68860bfd, 0x6c47164a, 0x61043093, 0x65c52d24,
     0x119b4be9, 0x155a565e, 0x18197087, 0x1cd86d30, 0x029f3d35, 0x065e2082, 0x0b1d065b, 0x0fdc1bec,
     0x3793a651, 0x3352bbe6, 0x3e119d3f, 0x3ad08088, 0x2497d08d, 0x2056cd3a, 0x2d15ebe3, 0x29d4f654,
     0xc5a92679, 0xc1683bce, 0xcc2b1d17, 0xc8ea00a0, 0xd6ad50a5, 0xd26c4d12, 0xdf2f6bcb, 0xdbee767c,
     0xe3a1cbc1, 0xe760d676, 0xea23f0af, 0xeee2ed18, 0xf0a5bd1d, 0xf464a0aa, 0xf9278673, 0xfde69bc4,
     0x89b8fd09, 0x8d79e0be, 0x803ac667, 0x84fbdbd0, 0x9abc8bd5, 0x9e7d9662, 0x933eb0bb, 0x97ffad0c,
     0xafb010b1, 0xab710d06, 0xa6322bdf, 0xa2f33668, 0xbcb4666d, 0xb8757bda, 0xb5365d03, 0xb1f740b4]"

subsection \<open>Generating a table\<close>

text \<open>
  The inner loop of \<open>init_crc8tab\<close>, \<open>init_crc16tab\<close> and \<open>init_crc32tab\<close>, for
  \<open>j = 0..7\<close>: it is the same text in the three functions but for the width of \<open>crc\<close>.
\<close>

fun crc_bits :: "'a::len word \<Rightarrow> byte \<Rightarrow> nat list \<Rightarrow> 'a word \<Rightarrow> 'a word" where
  "crc_bits l_code nb [] crc = crc"
| "crc_bits l_code nb (j # js) crc =
     (let msb = ((nb AND drop_bit j 0x80 \<noteq> 0) \<noteq> bit crc (LENGTH('a) - 1));
          crc' = push_bit 1 crc
      in crc_bits l_code nb js (if msb then crc' XOR l_code else crc'))"

definition init_crc8tab :: "byte \<Rightarrow> byte \<Rightarrow> byte list" where
  "init_crc8tab l_code l_init =
     map (\<lambda>i. crc_bits l_code (of_nat i XOR 0xff) [0..<8] l_init) [0..<256]"

definition init_crc16tab :: "u16 \<Rightarrow> u16 \<Rightarrow> u16 list" where
  "init_crc16tab l_code l_init =
     map (\<lambda>i. crc_bits l_code (of_nat i XOR 0xff) [0..<8] l_init XOR 0xff00) [0..<256]"

definition init_crc32tab :: "u32 \<Rightarrow> u32 \<Rightarrow> u32 list" where
  "init_crc32tab l_code l_init =
     map (\<lambda>i. crc_bits l_code (of_nat i XOR 0xff) [0..<8] l_init XOR 0xffffff00) [0..<256]"

subsection \<open>The table-driven computations\<close>

fun crc8 :: "byte \<Rightarrow> bytes \<Rightarrow> byte" where
  "crc8 l_crc [] = l_crc"
| "crc8 l_crc (b # data) = crc8 (crc8tab ! unat (l_crc XOR b)) data"

fun crc16 :: "u16 \<Rightarrow> bytes \<Rightarrow> u16" where
  "crc16 l_crc [] = l_crc"
| "crc16 l_crc (b # data) =
     crc16 (push_bit 8 l_crc XOR crc16tab ! unat (drop_bit 8 l_crc XOR ucast b)) data"

fun crc32 :: "u32 \<Rightarrow> bytes \<Rightarrow> u32" where
  "crc32 l_crc [] = l_crc"
| "crc32 l_crc (b # data) =
     crc32 (push_bit 8 l_crc XOR
            crc32tab ! unat ((drop_bit 24 l_crc XOR ucast b) AND 0xff)) data"

subsection \<open>The bit-serial shift register\<close>

text \<open>The reference: one bit of a most-significant-bit-first CRC register, a whole byte, a message.\<close>

definition crc_shift :: "'a::len word \<Rightarrow> 'a word \<Rightarrow> 'a word" where
"crc_shift poly c = (if bit c (LENGTH('a)-1) then push_bit 1 c XOR poly else push_bit 1 c)"

text \<open>Every second table entry is a shift of an earlier one; \<open>doubled\<close> lists the next two.\<close>

fun doubled :: "'a::len word \<Rightarrow> 'a word list \<Rightarrow> 'a word list" where
"doubled poly [] = []" |
"doubled poly (t#ts) = crc_shift poly t # (crc_shift poly t XOR poly) # doubled poly ts"

lemma bit_crc_shift:
  fixes c :: "'a::len word"
  shows "bit (crc_shift p c) n \<longleftrightarrow>
    n < LENGTH('a) \<and> ((0 < n \<and> bit c (n - 1)) \<noteq> (bit c (LENGTH('a) - 1) \<and> bit p n))"
  unfolding crc_shift_def
  by (auto simp only: bit_push_bit_iff bit_xor_iff split: if_splits) (auto dest: bit_imp_le_length)

lemma crc_shift_xor: "crc_shift p (x XOR y) = crc_shift p x XOR crc_shift p y"
  by (rule bit_word_eqI) (auto simp: bit_crc_shift bit_simps)

lemma crc_shift_0 [simp]: "crc_shift p 0 = 0"
  by (simp add: crc_shift_def)

lemma funpow_crc_xor: "(crc_shift p ^^ n) (x XOR y) = (crc_shift p ^^ n) x XOR (crc_shift p ^^ n) y"
  by (induction n) (simp_all add: crc_shift_xor)

lemma crc_shift_inj:
  fixes p :: "'a::len word"
  assumes p: "bit p 0" and eq: "crc_shift p x = crc_shift p y" shows "x = y"
proof -
  have *: "bit (crc_shift p x) n = bit (crc_shift p y) n" for n
    using eq by simp
  have msb: "bit x (LENGTH('a) - 1) = bit y (LENGTH('a) - 1)"
    using * [of 0] p by (auto simp: bit_crc_shift)
  show ?thesis
  proof (rule bit_word_eqI)
    fix n assume "n < LENGTH('a)"
    then consider "n = LENGTH('a) - 1" | "Suc n < LENGTH('a)" by linarith
    then show "bit x n = bit y n"
      using * [of "Suc n"] msb by cases (auto simp: bit_crc_shift)
  qed
qed

lemma funpow_crc_inj:
  "bit p 0 \<Longrightarrow> (crc_shift p ^^ n) x = (crc_shift p ^^ n) y \<Longrightarrow> x = y"
  by (induction n) (auto dest: crc_shift_inj)

lemma funpow_crc_small:
  fixes c :: "'a::len word"
  assumes "\<And>i. LENGTH('a) - n \<le> i \<Longrightarrow> \<not> bit c i" "n \<le> LENGTH('a)"
  shows "(crc_shift p ^^ n) c = push_bit n c"
  using assms
proof (induction n)
  case 0 then show ?case by simp
next
  case (Suc n)
  have "(crc_shift p ^^ n) c = push_bit n c"
    using Suc.prems by (intro Suc.IH) auto
  moreover have "\<not> bit (push_bit n c) (LENGTH('a) - 1)"
    using Suc.prems(1) [of "LENGTH('a) - 1 - n"] Suc.prems(2) by (auto simp: bit_simps)
  ultimately show ?case
    by (simp only: funpow.simps o_apply) (simp add: crc_shift_def)
qed

lemma funpow_crc_one:
  "8 \<le> LENGTH('a) \<Longrightarrow> (crc_shift p ^^ 8) (push_bit (LENGTH('a) - 8) 1) = (p :: 'a::len word)"
proof -
  assume len: "8 \<le> LENGTH('a)"
  have "(crc_shift p ^^ 7) (push_bit (LENGTH('a) - 8) 1) = push_bit 7 (push_bit (LENGTH('a) - 8) (1 :: 'a word))"
    using len by (intro funpow_crc_small) (auto simp: bit_simps)
  also have "\<dots> = push_bit (LENGTH('a) - 1) 1"
  proof -
    have "7 + (LENGTH('a) - 8) = LENGTH('a) - 1" using len by simp
    then show ?thesis by (simp only: push_bit_push_bit)
  qed
  finally have "(crc_shift p ^^ Suc 7) (push_bit (LENGTH('a) - 8) 1) = crc_shift p (push_bit (LENGTH('a) - 1) 1)"
    by (simp only: funpow.simps o_apply)
  also have "\<dots> = p"
    by (rule bit_word_eqI) (auto simp: bit_crc_shift bit_simps)
  finally show ?thesis by simp
qed

lemma nth_doubled:
  "i < length ts \<Longrightarrow> doubled p ts ! (2 * i) = crc_shift p (ts ! i)"
  "i < length ts \<Longrightarrow> doubled p ts ! (2 * i + 1) = crc_shift p (ts ! i) XOR p"
  by (induction ts arbitrary: i, simp_all add: nth_Cons' , (case_tac i, simp_all)+)

lemma length_doubled [simp]: "length (doubled p ts) = 2 * length ts"
  by (induction ts) auto

definition crc_byte :: "'a::len word \<Rightarrow> 'a word \<Rightarrow> byte \<Rightarrow> 'a word" where
  "crc_byte poly c b = (crc_shift poly ^^ 8) (c XOR push_bit (LENGTH('a) - 8) (ucast b))"

definition crc_serial :: "'a::len word \<Rightarrow> 'a word \<Rightarrow> bytes \<Rightarrow> 'a word" where
  "crc_serial poly = foldl (crc_byte poly)"

subsection \<open>What a lookup table must hold\<close>

locale crc_table =
  fixes poly :: "'a::len word" and tab :: "'a word list"
  assumes wide: "8 \<le> LENGTH('a)"
    and poly_odd: "bit poly 0"
    and tab_doubles: "tab = 0 # poly # doubled poly (take 127 (drop 1 tab))"
begin

lemma length_tab: "length tab = 256"
proof -
  have "length tab = 2 + 2 * min 127 (length tab - 1)"
    by (subst tab_doubles) simp
  then show ?thesis by arith
qed

lemma tab_even: "i < 128 \<Longrightarrow> tab ! (2 * i) = crc_shift poly (tab ! i)"
proof (cases i)
  case 0
  then show ?thesis by (subst (1 2) tab_doubles) simp
next
  case (Suc j)
  assume "i < 128"
  then have "doubled poly (take 127 (drop 1 tab)) ! (2 * j) = crc_shift poly (tab ! i)"
    using Suc length_tab by (subst nth_doubled) auto
  then show ?thesis by (subst tab_doubles) (simp add: Suc)
qed

lemma tab_odd: "i < 128 \<Longrightarrow> tab ! (2 * i + 1) = crc_shift poly (tab ! i) XOR poly"
proof (cases i)
  case 0
  then show ?thesis by (subst (1 2) tab_doubles) simp
next
  case (Suc j)
  assume "i < 128"
  then have "doubled poly (take 127 (drop 1 tab)) ! (2 * j + 1) = crc_shift poly (tab ! i) XOR poly"
    using Suc length_tab by (subst nth_doubled) auto
  then show ?thesis by (subst tab_doubles) (simp add: Suc)
qed

lemma tab_nth: "i < 256 \<Longrightarrow> tab ! i = (crc_shift poly ^^ 8) (push_bit (LENGTH('a) - 8) (of_nat i))"
proof (induction i rule: less_induct)
  case (less i)
  let ?s = "LENGTH('a) - 8"
  show ?case
  proof (cases "i < 2")
    case True
    then have "i = 0 \<or> i = 1" by auto
    moreover have "tab ! 0 = 0" "tab ! 1 = poly" by (subst tab_doubles, simp)+
    moreover have "(crc_shift poly ^^ 8) 0 = 0" by (metis funpow_crc_xor xor_self_eq)
    ultimately show ?thesis using funpow_crc_one [OF wide, of poly] by auto
  next
    case False
    define j where "j = i div 2"
    have j: "j < i" "j < 128" "i = 2 * j \<or> i = 2 * j + 1"
      using False less.prems by (auto simp: j_def)
    have IH: "tab ! j = (crc_shift poly ^^ 8) (push_bit ?s (of_nat j))"
      using j less by simp
    have nb: "\<not> bit (push_bit ?s (of_nat j) :: 'a word) (LENGTH('a) - 1)"
    proof -
      have "\<not> bit (of_nat j :: 'a word) 7"
        using j(2) by (simp add: bit_of_nat_iff bit_iff_odd [where 'a = nat])
      then show ?thesis using wide by (simp add: bit_simps)
    qed
    have sh: "crc_shift poly (push_bit ?s (of_nat j)) = push_bit ?s (of_nat (2 * j))"
      using nb by (simp add: crc_shift_def push_bit_eq_mult mult.commute mult.left_commute)
    have ev: "crc_shift poly (tab ! j) = (crc_shift poly ^^ 8) (push_bit ?s (of_nat (2 * j)))"
      unfolding IH sh [symmetric] by (simp only: funpow_swap1)
    have od: "push_bit ?s (of_nat (2 * j + 1)) = push_bit ?s (of_nat (2 * j)) XOR push_bit ?s (1 :: 'a word)"
    proof -
      have "of_nat (2 * j + 1) = (of_nat (2 * j) :: 'a word) XOR 1"
      proof -
        have "even (of_nat (2 * j) :: 'a word)"
          by (simp only: of_nat_mult of_nat_numeral dvd_triv_left)
        then have "(of_nat (2 * j) :: 'a word) AND 1 = 0"
          by (simp only: and_one_eq even_iff_mod_2_eq_zero)
        then show ?thesis by (metis disjunctive_add_eq_xor of_nat_1 of_nat_add)
      qed
      then show ?thesis by (simp only: push_bit_xor)
    qed
    from j(3) show ?thesis
    proof
      assume "i = 2 * j"
      then show ?thesis using tab_even [OF j(2)] ev by (simp only:)
    next
      assume "i = 2 * j + 1"
      then show ?thesis using tab_odd [OF j(2)] ev
        by (simp only: od funpow_crc_xor funpow_crc_one [OF wide])
    qed
  qed
qed


definition lookup_step :: "'a word \<Rightarrow> byte \<Rightarrow> 'a word" where
  "lookup_step c b = push_bit 8 c XOR tab ! unat (drop_bit (LENGTH('a) - 8) c XOR ucast b)"

lemma lookup_step_serial: "lookup_step c b = crc_byte poly c b"
proof -
  let ?s = "LENGTH('a) - 8"
  define x where "x = drop_bit ?s c XOR (ucast b :: 'a word)"
  have "x = take_bit 8 x"
    unfolding x_def using wide by (intro bit_word_eqI) (auto simp: bit_simps dest: bit_imp_le_length)
  then have "unat x = take_bit 8 (unat x)"
    by (metis unsigned_take_bit_eq)
  then have "unat x < 256"
    using take_bit_nat_less_exp [of 8 "unat x"] by simp
  then have "tab ! unat x = (crc_shift poly ^^ 8) (push_bit ?s x)"
    using tab_nth [of "unat x"] by simp
  moreover have "push_bit 8 c = (crc_shift poly ^^ 8) (take_bit ?s c)"
  proof -
    have "(crc_shift poly ^^ 8) (take_bit ?s c) = push_bit 8 (take_bit ?s c)"
      using wide by (intro funpow_crc_small) (auto simp: bit_simps)
    also have "\<dots> = push_bit 8 c"
      by (rule bit_word_eqI) (auto simp: bit_simps)
    finally show ?thesis by simp
  qed
  moreover have "take_bit ?s c XOR push_bit ?s x = c XOR push_bit ?s (ucast b)"
    unfolding x_def by (rule bit_word_eqI) (auto simp: bit_simps)
  ultimately show ?thesis
    unfolding lookup_step_def crc_byte_def x_def [symmetric]
    by (simp only: funpow_crc_xor [symmetric])
qed

lemma lookup_fold: "foldl lookup_step c bs = crc_serial poly c bs"
  by (induction bs arbitrary: c) (simp_all add: crc_serial_def lookup_step_serial)

lemma serial_inj: "crc_serial poly c bs = crc_serial poly d bs \<Longrightarrow> c = d"
proof (induction bs arbitrary: c d)
  case Nil
  then show ?case by (simp add: crc_serial_def)
next
  case (Cons b bs)
  then have "crc_byte poly c b = crc_byte poly d b"
    by (simp add: crc_serial_def)
  then have "c XOR push_bit (LENGTH('a) - 8) (ucast b) = d XOR push_bit (LENGTH('a) - 8) (ucast b)"
    unfolding crc_byte_def by (rule funpow_crc_inj [OF poly_odd])
  then show ?case by (simp only: xor_right_cancel)
qed

end

subsection \<open>The three tables of the source\<close>

interpretation crc8: crc_table "0x07 :: byte" crc8tab
  by unfold_locales (simp_all add: crc8tab_def crc_shift_def)

interpretation crc16: crc_table "0x1021 :: u16" crc16tab
  by unfold_locales (simp_all add: crc16tab_def crc_shift_def)

interpretation crc32: crc_table "0x04c11db7 :: u32" crc32tab
  by unfold_locales (simp_all add: crc32tab_def crc_shift_def)

lemma crc8_lookup: "crc8 c bs = foldl crc8.lookup_step c bs"
proof (induction bs arbitrary: c)
  case (Cons b bs)
  have "push_bit 8 c = 0" by (rule bit_word_eqI) (simp add: bit_simps)
  with Cons show ?case by (simp add: crc8.lookup_step_def)
qed simp

lemma crc16_lookup: "crc16 c bs = foldl crc16.lookup_step c bs"
  by (induction bs arbitrary: c) (simp_all add: crc16.lookup_step_def)

lemma crc32_lookup: "crc32 c bs = foldl crc32.lookup_step c bs"
proof (induction bs arbitrary: c)
  case (Cons b bs)
  have "(drop_bit 24 c XOR ucast b) AND mask 8 = drop_bit 24 c XOR (ucast b :: u32)"
    by (rule bit_word_eqI) (auto simp: bit_simps dest: bit_imp_le_length)
  with Cons show ?case by (simp add: crc32.lookup_step_def mask_eq_exp_minus_1)
qed simp

lemma word16_of_bytes_inj:
  assumes "push_bit 8 (ucast a) OR ucast b = (push_bit 8 (ucast a') OR ucast b' :: u16)"
  shows "[a, b] = [a', b' :: byte]"
proof -
  have *: "bit (push_bit 8 (ucast a) OR (ucast b :: u16)) n
      = bit (push_bit 8 (ucast a') OR (ucast b' :: u16)) n" for n
    by (simp only: assms)
  have "b = b'"
  proof (rule bit_word_eqI)
    fix n assume "n < LENGTH(8)"
    then show "bit b n = bit b' n" using * [of n] by (auto simp: bit_simps)
  qed
  moreover have "a = a'"
  proof (rule bit_word_eqI)
    fix n assume "n < LENGTH(8)"
    then show "bit a n = bit a' n" using * [of "n + 8"] by (auto simp: bit_simps dest: bit_imp_le_length)
  qed
  ultimately show ?thesis by simp
qed

lemma crc16_inj: "crc16 c bs = crc16 d bs \<Longrightarrow> c = d"
  by (simp only: crc16_lookup crc16.lookup_fold) (rule crc16.serial_inj)

lemma crc16_append: "crc16 c (xs @ ys) = crc16 (crc16 c xs) ys"
  by (induction xs arbitrary: c) auto
lemma crc16_two_bytes:
  "crc16 c [a, b] = (crc_shift 0x1021 ^^ 16) (c XOR (push_bit 8 (ucast a) OR ucast b))"
proof -
  have b: "push_bit 8 (ucast b) = (crc_shift 0x1021 ^^ 8) (ucast b :: u16)"
    by (rule funpow_crc_small [symmetric]) (auto simp: bit_simps dest: bit_imp_le_length)
  have "crc16 c [a, b] = (crc_shift 0x1021 ^^ 8) ((crc_shift 0x1021 ^^ 8) (c XOR push_bit 8 (ucast a)) XOR push_bit 8 (ucast b))"
    by (simp only: crc16_lookup foldl.simps crc16.lookup_step_serial crc_byte_def) simp
  also have "\<dots> = (crc_shift 0x1021 ^^ (8 + 8)) ((c XOR push_bit 8 (ucast a)) XOR ucast b)"
    by (simp only: b funpow_crc_xor funpow_add o_apply)
  also have "(c XOR push_bit 8 (ucast a)) XOR ucast b = c XOR (push_bit 8 (ucast a) OR ucast b)"
    by (rule bit_word_eqI) (auto simp: bit_simps dest: bit_imp_le_length)
  finally show ?thesis by simp
qed

lemma funpow_Suc16: "(f ^^ 16) x = f (f (f (f (f (f (f (f (f (f (f (f (f (f (f (f x)))))))))))))))"
  by (simp add: numeral_eq_Suc)

lemma crc16_residue_of_two:
  "crc16 c (be16 (c XOR 0xffff)) = 0x1d0f"
proof -
  have w: "push_bit 8 (ucast (ucast (drop_bit 8 x) :: byte)) OR ucast (ucast x :: byte) = x" for x :: u16
    by (rule bit_word_eqI) (auto simp: bit_simps)
  have "crc16 c (be16 (c XOR 0xffff)) = (crc_shift 0x1021 ^^ 16) (c XOR (c XOR 0xffff))"
    unfolding be16_def crc16_two_bytes w by simp
  also have "c XOR (c XOR 0xffff) = 0xffff"
    by (simp flip: xor.assoc)
  also have "(crc_shift 0x1021 ^^ 16) 0xffff = (0x1d0f :: u16)"
    by (simp add: funpow_Suc16 crc_shift_def)
  finally show ?thesis .
qed
lemma bit_probe: "j < 8 \<Longrightarrow> (nb AND drop_bit j 0x80 \<noteq> 0) = bit nb (7 - j)" for nb :: byte
proof -
  assume "j < 8"
  then consider "j = 0" | "j = 1" | "j = 2" | "j = 3" | "j = 4" | "j = 5" | "j = 6" | "j = 7"
    by linarith
  then have "(drop_bit j 0x80 :: byte) = push_bit (7 - j) 1"
    by cases simp_all
  then have "nb AND drop_bit j 0x80 = (if bit nb (7 - j) then push_bit (7 - j) 1 else 0)"
    by (intro bit_word_eqI) (auto simp: bit_simps)
  then show ?thesis using \<open>j < 8\<close> by (auto simp: push_bit_eq_0_iff)
qed

lemma crc_bits_from:
  fixes c :: "'a::len word"
  assumes "8 \<le> LENGTH('a)" "n \<le> 8"
  shows "crc_bits p nb [8 - n..<8] c
    = (crc_shift p ^^ n) (c XOR push_bit (LENGTH('a) - n) (take_bit n (ucast nb)))"
  using assms(2)
proof (induction n arbitrary: c)
  case 0
  then show ?case by simp
next
  case (Suc n)
  let ?X = "c XOR push_bit (LENGTH('a) - Suc n) (take_bit (Suc n) (ucast nb))"
  define c' where "c' = (if bit nb n \<noteq> bit c (LENGTH('a) - 1) then push_bit 1 c XOR p else push_bit 1 c)"
  have msb: "bit ?X (LENGTH('a) - 1) = (bit nb n \<noteq> bit c (LENGTH('a) - 1))"
    using Suc.prems assms(1) by (auto simp: bit_simps)
  have sh: "crc_shift p ?X = c' XOR push_bit (LENGTH('a) - n) (take_bit n (ucast nb))"
  proof -
    have "push_bit 1 ?X = push_bit 1 c XOR push_bit (LENGTH('a) - n) (take_bit n (ucast nb))"
    proof -
      have "1 + (LENGTH('a) - Suc n) = LENGTH('a) - n" using Suc.prems assms(1) by simp
      moreover have "push_bit (LENGTH('a) - n) (take_bit (Suc n) x)
        = push_bit (LENGTH('a) - n) (take_bit n x)" for x :: "'a word"
        using Suc.prems assms(1) by (intro bit_word_eqI) (auto simp: bit_simps)
      ultimately show ?thesis by (simp only: push_bit_xor push_bit_push_bit)
    qed
    then show ?thesis unfolding crc_shift_def msb c'_def
      by (simp only: xor.assoc xor.commute xor.left_commute if_distrib [of "\<lambda>x. x XOR _"] split: if_split) simp
  qed
  have up: "[8 - Suc n..<8] = (7 - n) # [8 - n..<8]"
  proof -
    have "8 - Suc n = 7 - n" "Suc (7 - n) = 8 - n" "7 - n < 8" using Suc.prems by simp_all
    then show ?thesis by (simp only: upt_conv_Cons)
  qed
  have "crc_bits p nb [8 - Suc n..<8] c = crc_bits p nb [8 - n..<8] c'"
    using Suc.prems by (simp only: up crc_bits.simps Let_def c'_def bit_probe) (simp add: bit_probe)
  also have "\<dots> = (crc_shift p ^^ n) (crc_shift p ?X)"
    using Suc by (simp add: sh)
  finally show ?case by (simp only: funpow_Suc_right o_apply)
qed

lemma crc_bits_serial:
  fixes c :: "'a::len word"
  assumes "8 \<le> LENGTH('a)"
  shows "crc_bits p nb [0..<8] c = crc_byte p c nb"
proof -
  have "take_bit 8 (ucast nb :: 'a word) = ucast nb"
    by (rule bit_word_eqI) (auto simp: bit_simps dest: bit_imp_le_length)
  then show ?thesis using crc_bits_from [OF assms, of 8 p nb c] by (simp add: crc_byte_def)
qed

text \<open>With an all-ones start value, the complemented index and the final mask cancel.\<close>

lemma crc_bits_complement:
  fixes p :: "'a::len word"
  assumes "8 \<le> LENGTH('a)"
    and "ones = - 1" and "low = push_bit 8 (mask (LENGTH('a) - 8))"
  shows "crc_bits p (nb XOR 0xff) [0..<8] ones XOR low = crc_byte p 0 nb"
proof -
  let ?s = "LENGTH('a) - 8"
  have ff: "(0xff :: byte) = mask 8" by (simp add: mask_eq_exp_minus_1)
  have "(- 1 :: 'a word) XOR push_bit ?s (ucast (nb XOR 0xff))
      = (0 XOR push_bit ?s (ucast nb)) XOR mask ?s"
    unfolding ff using assms(1) by (intro bit_word_eqI) (auto simp: bit_simps dest: bit_imp_le_length)
  moreover have "(crc_shift p ^^ 8) (mask ?s) = push_bit 8 (mask ?s :: 'a word)"
    using assms(1) by (intro funpow_crc_small) (auto simp: bit_simps)
  ultimately show ?thesis
    unfolding crc_bits_serial [OF assms(1)] crc_byte_def assms(2,3)
    by (simp only: funpow_crc_xor xor.assoc xor_self_eq xor.right_neutral)
qed

lemma table_eqI:
  assumes "length tab = 256" "\<And>i. i < 256 \<Longrightarrow> f i = tab ! i"
  shows "map f [0..<256] = tab"
  using assms by (intro nth_equalityI) auto

lemma init_crc8tab_eq: "init_crc8tab 0x07 0xff = crc8tab"
  unfolding init_crc8tab_def
proof (rule table_eqI [OF crc8.length_tab])
  fix i :: nat
  assume i: "i < 256"
  show "crc_bits 7 (of_nat i XOR 255) [0..<8] 255 = crc8tab ! i"
    using crc_bits_complement [of "0xff :: byte" 0 7 "of_nat i"] crc8.tab_nth [OF i]
    by (simp add: crc_byte_def)
qed

lemma init_crc16tab_eq: "init_crc16tab 0x1021 0xffff = crc16tab"
  unfolding init_crc16tab_def
proof (rule table_eqI [OF crc16.length_tab])
  fix i :: nat
  assume i: "i < 256"
  have u: "(ucast (of_nat i :: byte) :: u16) = of_nat i"
    using i by (simp add: unsigned_of_nat take_bit_nat_eq_self)
  show "crc_bits 0x1021 (of_nat i XOR 255) [0..<8] 0xffff XOR 0xff00 = crc16tab ! i"
    using crc_bits_complement [of "0xffff :: u16" "0xff00" "0x1021" "of_nat i"] crc16.tab_nth [OF i]
    by (simp add: crc_byte_def mask_eq_exp_minus_1 u)
qed

lemma init_crc32tab_eq: "init_crc32tab 0x04c11db7 0xffffffff = crc32tab"
  unfolding init_crc32tab_def
proof (rule table_eqI [OF crc32.length_tab])
  fix i :: nat
  assume i: "i < 256"
  have u: "(ucast (of_nat i :: byte) :: u32) = of_nat i"
    using i by (simp add: unsigned_of_nat take_bit_nat_eq_self)
  show "crc_bits 0x04c11db7 (of_nat i XOR 255) [0..<8] 0xffffffff XOR 0xffffff00 = crc32tab ! i"
    using crc_bits_complement [of "0xffffffff :: u32" "0xffffff00" "0x04c11db7" "of_nat i"] crc32.tab_nth [OF i]
    by (simp add: crc_byte_def mask_eq_exp_minus_1 u)
qed

subsection \<open>Properties\<close>

text \<open>The three literal tables of \<open>crc.c\<close> are exactly what the table generators compute
  for the polynomials 0x07, 0x1021 and 0x04c11db7 with an all-ones start value.\<close>

theorem crc_tables_generated:
  "init_crc8tab 0x07 0xff = crc8tab \<and> init_crc16tab 0x1021 0xffff = crc16tab
   \<and> init_crc32tab 0x04c11db7 0xffffffff = crc32tab"
  using init_crc8tab_eq init_crc16tab_eq init_crc32tab_eq by blast

text \<open>C26: on every message and start value the table-driven functions compute the bit-serial
  shift-register CRC of their polynomial.\<close>

theorem crc_table_driven_serial:
  "crc8 a data = crc_serial 0x07 a data \<and> crc16 b data = crc_serial 0x1021 b data
   \<and> crc32 c data = crc_serial 0x04c11db7 c data"
  by (simp add: crc8_lookup crc16_lookup crc32_lookup
      crc8.lookup_fold crc16.lookup_fold crc32.lookup_fold)

text \<open>A receiver that runs \<open>crc16\<close> over a message followed by its complemented CRC (as the AF
  and PFT headers carry it) always gets the residue 0x1d0f.\<close>

theorem crc16_residue:
  "crc16 0xffff (data @ be16 (crc16 0xffff data XOR 0xffff)) = 0x1d0f"
  by (simp only: crc16_append crc16_residue_of_two)

lemma crc16_burst:
  assumes "[a, b] \<noteq> [a', b']"
  shows "crc16 c (pre @ [a, b] @ post) \<noteq> crc16 c (pre @ [a', b'] @ post)"
proof
  let ?w = "\<lambda>x y. push_bit 8 (ucast x) OR (ucast y :: u16)"
  assume "crc16 c (pre @ [a, b] @ post) = crc16 c (pre @ [a', b'] @ post)"
  then have "crc16 (crc16 c pre) [a, b] = crc16 (crc16 c pre) [a', b']"
    by (metis crc16_append crc16_inj)
  then have "?w a b = ?w a' b'"
    unfolding crc16_two_bytes
    by (metis funpow_crc_inj crc16.poly_odd xor.commute xor_right_cancel)
  then show False using assms word16_of_bytes_inj by blast
qed

text \<open>Any corruption confined to two adjacent bytes changes the CRC, so every error burst of
  up to nine bits, and every burst within two bytes, is detected.\<close>

theorem crc16_detects_burst:
  assumes "[a, b] \<noteq> [a', b']"
  shows "crc16 c (pre @ [a, b] @ post) \<noteq> crc16 c (pre @ [a', b'] @ post)"
  using assms by (rule crc16_burst)

theorem crc16_detects_burst_witness:
  "crc16 0 ([7] @ [1, 2] @ [9]) \<noteq> crc16 0 ([7] @ [1, 3] @ [9])"
  by (rule crc16_detects_burst) simp

end
