(* ===== verification/AFPacket.thy ===== *)
theory AFPacket
  imports TagItems CRC
begin

text \<open>
  Model of \<open>lib/edioutput/AFPacket.h\<close> and \<open>lib/edioutput/AFPacket.cpp\<close>: the AF layer, which puts a
  header with a 16-bit sequence number before a TAG packet and a CRC behind it. The verbose prints
  are left out. A receiver, \<open>af_parse\<close>, states what the packets mean.
\<close>

unbundle bit_operations_syntax

definition AFHEADER_PT_TAG :: byte where
  "AFHEADER_PT_TAG = of_char (CHR ''T'')"

definition AFHEADER_VERSION :: byte where
  "AFHEADER_VERSION = 0x10"

definition m_have_crc :: bool where
  "m_have_crc = True"

record AFPacketiser =
  af_seq :: u16

definition AFPacketiser_init :: AFPacketiser where
  "AFPacketiser_init = \<lparr>af_seq = 0\<rparr>"

definition af_header :: "u16 \<Rightarrow> nat \<Rightarrow> bytes" where
  "af_header seq taglength =
     str_bytes ''AF'' @ be32 (of_nat taglength) @ be16 seq
     @ [(if m_have_crc then 0x80 else 0) OR AFHEADER_VERSION, AFHEADER_PT_TAG]"

text \<open>
  The TAG packet is passed by value but points to its items, so their changes (frame counters)
  remain: the packet is returned too.
\<close>

definition AFPacketiser_Assemble ::
  "AFPacketiser \<Rightarrow> TagPacket \<Rightarrow> exn + bytes \<times> AFPacketiser \<times> TagPacket" where
  "AFPacketiser_Assemble a tag_packet =
     (case TagPacket_Assemble tag_packet of
        Inl e \<Rightarrow> Inl e
      | Inr (payload, tag_packet') \<Rightarrow>
          (let packet = af_header (af_seq a) (length payload) @ payload;
               crc = crc16 0xffff packet XOR 0xffff
           in Inr (packet @ be16 crc, a\<lparr>af_seq := af_seq a + 1\<rparr>, tag_packet')))"

definition OverrideSeq :: "AFPacketiser \<Rightarrow> u16 \<Rightarrow> AFPacketiser" where
  "OverrideSeq a seq = a\<lparr>af_seq := seq\<rparr>"

subsection \<open>A receiver\<close>

text \<open>Sync word, length, CRC, version and payload type are checked; the result is the sequence number
  and the payload.\<close>

definition af_parse :: "bytes \<Rightarrow> (u16 \<times> bytes) option" where
  "af_parse bs =
     (if length bs < 12 \<or> take 2 bs \<noteq> str_bytes ''AF'' \<or> length bs \<noteq> unat (rd32 (drop 2 bs)) + 12
        \<or> crc16 0xffff bs \<noteq> 0x1d0f \<or> bs ! 8 \<noteq> 0x90 \<or> bs ! 9 \<noteq> of_char (CHR ''T'') then None
      else Some (rd16 (drop 6 bs), take (length bs - 12) (drop 10 bs)))"

lemma af_header_length [simp]: "length (af_header seq n) = 10"
  by (simp add: af_header_def)

lemma af_parse_assembled:
  assumes "length payload < 2 ^ 32"
    and "packet = af_header seq (length payload) @ payload"
  shows "af_parse (packet @ be16 (crc16 0xffff packet XOR 0xffff)) = Some (seq, payload)"
proof -
  let ?b = "packet @ be16 (crc16 0xffff packet XOR 0xffff)"
  have n: "unat (of_nat (length payload) :: u32) = length payload" using assms(1) by (simp add: unat_of_nat_id)
  have h: "?b = str_bytes ''AF'' @ be32 (of_nat (length payload)) @ be16 seq @ [0x90, of_char (CHR ''T'')] @ payload
      @ be16 (crc16 0xffff packet XOR 0xffff)"
    unfolding assms(2) af_header_def by (simp add: m_have_crc_def AFHEADER_VERSION_def AFHEADER_PT_TAG_def)
  have "length ?b = length payload + 12" unfolding assms(2) by simp
  moreover have "take 2 ?b = str_bytes ''AF''" unfolding h by simp
  moreover have "drop 2 ?b = be32 (of_nat (length payload)) @ be16 seq @ [0x90, of_char (CHR ''T'')] @ payload
      @ be16 (crc16 0xffff packet XOR 0xffff)" unfolding h by simp
  then have "unat (rd32 (drop 2 ?b)) = length payload" by (simp only: be_simps n)
  moreover have "drop 6 ?b = be16 seq @ [0x90, of_char (CHR ''T'')] @ payload @ be16 (crc16 0xffff packet XOR 0xffff)"
    unfolding h by simp
  then have "rd16 (drop 6 ?b) = seq" by (simp only: be_simps)
  moreover have "?b ! 8 = 0x90" "?b ! 9 = of_char (CHR ''T'')" unfolding h by (simp_all add: nth_append)
  moreover have "take (length payload) (drop 10 ?b) = payload" unfolding h by simp
  moreover have "crc16 0xffff ?b = 0x1d0f" by (simp only: crc16_append crc16_residue_of_two)
  ultimately show ?thesis unfolding af_parse_def by (simp del: length_append)
qed

text \<open>The packets of a sequence of TAG packets, as \<open>Sender::write\<close> produces them.\<close>

fun af_run :: "AFPacketiser \<Rightarrow> TagPacket list \<Rightarrow> exn + bytes list \<times> AFPacketiser" where
  "af_run a [] = Inr ([], a)"
| "af_run a (p # ps) =
     (case AFPacketiser_Assemble a p of
        Inl e \<Rightarrow> Inl e
      | Inr (b, a1, _) \<Rightarrow> (case af_run a1 ps of Inl e \<Rightarrow> Inl e | Inr (bs, a2) \<Rightarrow> Inr (b # bs, a2)))"

lemma AFPacketiser_AssembleD:
  assumes "AFPacketiser_Assemble a p = Inr (b, a', p')"
  obtains payload where "TagPacket_Assemble p = Inr (payload, p')" "a' = a\<lparr>af_seq := af_seq a + 1\<rparr>"
    "length b = length payload + 12" "crc16 0xffff b = 0x1d0f"
    "length payload < 2 ^ 32 \<Longrightarrow> af_parse b = Some (af_seq a, payload)"
proof -
  obtain payload where p: "TagPacket_Assemble p = Inr (payload, p')" "a' = a\<lparr>af_seq := af_seq a + 1\<rparr>"
    and b: "b = (let packet = af_header (af_seq a) (length payload) @ payload
                 in packet @ be16 (crc16 0xffff packet XOR 0xffff))"
    using assms by (auto simp: AFPacketiser_Assemble_def Let_def split: sum.splits)
  show thesis
    by (rule that [OF p]) (use af_parse_assembled [OF _ refl, of payload "af_seq a"] in
        \<open>simp_all add: b Let_def crc16_append crc16_residue_of_two del: append_assoc\<close>)
qed

lemma AFPacketiser_Assemble_ok:
  assumes "TagPacket_Assemble p = Inr (payload, p')"
  obtains b a' where "AFPacketiser_Assemble a p = Inr (b, a', p')" "length b = length payload + 12"
    "length payload < 2 ^ 32 \<Longrightarrow> af_parse b = Some (af_seq a, payload)"
proof -
  obtain b a' where b: "AFPacketiser_Assemble a p = Inr (b, a', p')"
    using assms by (simp add: AFPacketiser_Assemble_def Let_def)
  then show thesis using AFPacketiser_AssembleD [OF b] assms that by (metis Pair_inject sum.inject(2))
qed

text \<open>C11: a stream of AF packets can be read back: the receiver accepts every packet, with sequence
  numbers that count up from the packetiser's one modulo 65536, and recovers each TAG packet.\<close>

theorem af_stream_roundtrip:
  assumes "af_run a ps = Inr (bs, a')"
    and "\<forall>p payload p'. p \<in> set ps \<longrightarrow> TagPacket_Assemble p = Inr (payload, p') \<longrightarrow> length payload < 2 ^ 32"
  shows "length bs = length ps \<and> af_seq a' = af_seq a + of_nat (length ps)
    \<and> (\<forall>i < length ps. \<exists>payload p'. TagPacket_Assemble (ps ! i) = Inr (payload, p')
         \<and> af_parse (bs ! i) = Some (af_seq a + of_nat i, payload) \<and> length (bs ! i) = length payload + 12)"
  using assms
proof (induction ps arbitrary: a bs)
  case (Cons p ps)
  obtain b a1 p1 cs where s: "AFPacketiser_Assemble a p = Inr (b, a1, p1)" "af_run a1 ps = Inr (cs, a')" "bs = b # cs"
    using Cons.prems(1) by (auto split: sum.splits)
  obtain payload where p: "TagPacket_Assemble p = Inr (payload, p1)" "a1 = a\<lparr>af_seq := af_seq a + 1\<rparr>"
    "length b = length payload + 12" "length payload < 2 ^ 32 \<Longrightarrow> af_parse b = Some (af_seq a, payload)"
    using AFPacketiser_AssembleD [OF s(1)] by blast
  then have b: "af_parse b = Some (af_seq a, payload)" using Cons.prems(2) by auto
  have IH: "length cs = length ps \<and> af_seq a' = af_seq a1 + of_nat (length ps)
    \<and> (\<forall>i < length ps. \<exists>payload p'. TagPacket_Assemble (ps ! i) = Inr (payload, p')
         \<and> af_parse (cs ! i) = Some (af_seq a1 + of_nat i, payload) \<and> length (cs ! i) = length payload + 12)"
    by (rule Cons.IH [OF s(2)]) (use Cons.prems(2) in auto)
  show ?case using IH b p(1-3) by (auto simp: s(3) nth_Cons ac_simps split: nat.split)
qed simp

theorem af_stream_roundtrip_witness:
  "\<exists>bs a'. af_run AFPacketiser_init
      [(TagPacket_init 8)\<lparr>tp_tag_items := [StarPTR ''DSTI'']\<rparr>, (TagPacket_init 0)\<lparr>tp_raw_tagpacket := [1, 2, 3]\<rparr>] = Inr (bs, a')
    \<and> af_parse (bs ! 1) = Some (1, [1, 2, 3]) \<and> length (bs ! 0) = 28"
proof -
  let ?p = "(TagPacket_init 8)\<lparr>tp_tag_items := [StarPTR ''DSTI'']\<rparr>"
  let ?q = "(TagPacket_init 0)\<lparr>tp_raw_tagpacket := [1, 2, 3]\<rparr>"
  have q: "TagPacket_Assemble ?q = Inr ([1, 2, 3], ?q)" by (simp add: TagPacket_Assemble_def TagPacket_init_def)
  have p: "TagPacket_Assemble ?p = Inr (TagStarPTR_Assemble ''DSTI'', ?p)"
    by (simp add: TagPacket_Assemble_def TagPacket_init_def TagItem_Assemble_def tag_padding_def
        TagStarPTR_Assemble_def str_bytes_def pad_loop.simps)
  have l: "length (TagStarPTR_Assemble ''DSTI'') = 16" by (simp add: TagStarPTR_Assemble_def str_bytes_def)
  obtain bs a' where r: "af_run AFPacketiser_init [?p, ?q] = Inr (bs, a')"
    by (simp add: AFPacketiser_Assemble_def p q Let_def)
  have "length (bs ! 0) = 28 \<and> af_parse (bs ! 1) = Some (1, [1, 2, 3])"
  proof -
    have "\<forall>p payload p'. p \<in> set [?p, ?q] \<longrightarrow> TagPacket_Assemble p = Inr (payload, p') \<longrightarrow> length payload < 2 ^ 32"
      using p q l by auto
    from af_stream_roundtrip [OF r this] have "\<forall>i < 2. \<exists>payload p'. TagPacket_Assemble ([?p, ?q] ! i) = Inr (payload, p')
         \<and> af_parse (bs ! i) = Some (of_nat i, payload) \<and> length (bs ! i) = length payload + 12"
      by (simp add: AFPacketiser_init_def)
    then show ?thesis using p q l by (auto simp: less_2_cases_iff all_conj_distrib)
  qed
  then show ?thesis using r by blast
qed

text \<open>C27: a receiver of AF packets refuses every packet in which two adjacent bytes were corrupted.\<close>

theorem af_corruption_rejected:
  assumes "AFPacketiser_Assemble a p = Inr (b, a', p')" "i + 1 < length b" "[b ! i, b ! (i + 1)] \<noteq> [x, y]"
  shows "af_parse (b[i := x, i + 1 := y]) = None"
proof -
  have split: "xs = take i xs @ [xs ! i, xs ! (i + 1)] @ drop (i + 2) xs" if "i + 1 < length xs" for xs :: bytes
    using that by (metis Cons_eq_appendI Cons_nth_drop_Suc Suc_eq_plus1 add_2_eq_Suc' append_Nil append_take_drop_id Suc_lessD)
  let ?b = "b[i := x, i + 1 := y]"
  have "?b = take i b @ [x, y] @ drop (i + 2) b"
    using split [of ?b] assms(2) by (simp add: take_update_cancel drop_update_cancel)
  moreover have "crc16 0xffff b = 0x1d0f" using AFPacketiser_AssembleD [OF assms(1)] by metis
  ultimately have "crc16 0xffff ?b \<noteq> 0x1d0f"
    using crc16_burst [OF assms(3), where c = "0xffff" and pre = "take i b" and post = "drop (i + 2) b"] split [OF assms(2)] by metis
  then show ?thesis by (simp add: af_parse_def)
qed

theorem af_corruption_rejected_witness:
  "\<exists>b a' p'. AFPacketiser_Assemble AFPacketiser_init ((TagPacket_init 0)\<lparr>tp_raw_tagpacket := [1, 2, 3]\<rparr>) = Inr (b, a', p')
    \<and> af_parse (b[10 := 9, 11 := 9]) = None"
proof -
  let ?q = "(TagPacket_init 0)\<lparr>tp_raw_tagpacket := [1, 2, 3]\<rparr>"
  obtain b a' p' where b: "AFPacketiser_Assemble AFPacketiser_init ?q = Inr (b, a', p')"
    "b = af_header 0 3 @ [1, 2, 3] @ be16 (crc16 0xffff (af_header 0 3 @ [1, 2, 3]) XOR 0xffff)"
    by (simp add: AFPacketiser_Assemble_def TagPacket_Assemble_def TagPacket_init_def Let_def AFPacketiser_init_def
        flip: numeral_3_eq_3)
  have "af_parse (b[10 := 9, 10 + 1 := 9]) = None"
    by (rule af_corruption_rejected [OF b(1)]) (simp_all add: b(2) nth_append)
  then show ?thesis using b(1) by auto
qed

end
