(* ===== verification/ReedSolomon.thy ===== *)
theory ReedSolomon
  imports Prelude
begin

text \<open>
  Model of the Reed-Solomon codec: \<open>lib/fec/\<close> (\<open>rs-common.h\<close>, \<open>init_rs.h\<close>, \<open>encode_rs.h\<close>,
  \<open>decode_rs.h\<close>, with the \<open>_char\<close> wrappers) and \<open>lib/ReedSolomon.cpp\<close>. A symbol \<open>data_t\<close> is a
  byte, a C \<open>int\<close> is an \<open>int\<close> (no value gets near its bounds), an array is a list. Memory that
  \<open>malloc\<close> returns is taken to be zeroed: every entry is written before it is read. A failing
  \<open>malloc\<close> is not modelled. The search for \<open>iprim\<close> may run forever and is in the option monad of
  \<^theory_text>\<open>partial_function\<close>, where \<open>None\<close> is a search that never ends.
\<close>

unbundle bit_operations_syntax

subsection \<open>The control block\<close>

record rs =
  rs_mm :: int
  rs_nn :: int
  rs_alpha_to :: bytes
  rs_index_of :: bytes
  rs_genpoly :: bytes
  rs_nroots :: int
  rs_fcr :: int
  rs_prim :: int
  rs_iprim :: int
  rs_pad :: int

definition rs_wf :: "rs \<Rightarrow> bool" where
  "rs_wf rs \<longleftrightarrow> 1 \<le> rs_mm rs \<and> rs_nn rs = 2 ^ nat (rs_mm rs) - 1"

lemma fold_bits_le:
  assumes "0 \<le> (y :: int)" "1 \<le> m"
  shows "drop_bit m y + (y AND (2 ^ m - 1)) \<le> y" "0 \<le> drop_bit m y + (y AND (2 ^ m - 1))"
proof -
  have a: "y AND (2 ^ m - 1) = y mod 2 ^ m" by (simp add: take_bit_eq_mod [symmetric] take_bit_eq_mask mask_eq_exp_minus_1)
  have d: "drop_bit m y = y div 2 ^ m" by (rule drop_bit_eq_div)
  have "y div 2 ^ m \<le> y div 2 ^ m * 2 ^ m" 
    using mult_left_mono [of 1 "2 ^ m" "y div 2 ^ m"] assms(1) by (simp add: pos_imp_zdiv_nonneg_iff)
  then show "drop_bit m y + (y AND (2 ^ m - 1)) \<le> y"
    unfolding a d using div_mult_mod_eq [of y "2 ^ m"] by linarith
  show "0 \<le> drop_bit m y + (y AND (2 ^ m - 1))" unfolding a d using assms(1) by (simp add: pos_imp_zdiv_nonneg_iff)
qed

text \<open>
  The loop of \<open>modnn\<close>. It is only run on a control block built by \<open>init_rs\<close>, where \<open>nn\<close> is
  \<open>2^mm - 1\<close>; elsewhere it might not end, and the definition leaves \<open>x\<close> alone.
\<close>

function modnn :: "rs \<Rightarrow> int \<Rightarrow> int" where
  "modnn rs x =
     (if rs_wf rs \<and> x \<ge> rs_nn rs
      then (let y = x - rs_nn rs in modnn rs (drop_bit (nat (rs_mm rs)) y + (y AND rs_nn rs)))
      else x)"
  by pat_completeness auto
termination
proof (relation "measure (\<lambda>(rs, x). nat x)", goal_cases)
  case 1
  show ?case by simp
next
  case (2 rs x y)
  then have m: "1 \<le> nat (rs_mm rs)" "rs_nn rs = 2 ^ nat (rs_mm rs) - 1" "0 \<le> y" "rs_nn rs \<le> x"
    by (auto simp: rs_wf_def)
  have "(1 :: int) < 2 ^ nat (rs_mm rs)" using m(1) by simp
  then have "y < x" "0 < x" using m 2(2) by linarith+
  then show ?case using fold_bits_le(1) [OF m(3,1)] m(2) by simp
qed

declare modnn.simps [simp del]

lemma modnn_mod:
  assumes "rs_wf rs" "0 \<le> x"
  shows "modnn rs x = x mod rs_nn rs"
  using assms
proof (induction rs x rule: modnn.induct)
  case (1 rs x)
  have m: "1 \<le> nat (rs_mm rs)" "rs_nn rs = 2 ^ nat (rs_mm rs) - 1" using 1(2) by (auto simp: rs_wf_def)
  show ?case
  proof (cases "rs_nn rs \<le> x")
    case False
    then show ?thesis using 1(3) by (subst modnn.simps) simp
  next
    case True
    let ?y = "x - rs_nn rs" and ?p = "2 ^ nat (rs_mm rs) :: int"
    have a: "?y AND rs_nn rs = ?y mod ?p"
      unfolding m(2) by (simp add: take_bit_eq_mod [symmetric] take_bit_eq_mask mask_eq_exp_minus_1)
    have "modnn rs x = modnn rs (drop_bit (nat (rs_mm rs)) ?y + (?y AND rs_nn rs))"
      using True 1(2) by (subst modnn.simps) (simp add: Let_def)
    also have "\<dots> = (drop_bit (nat (rs_mm rs)) ?y + (?y AND rs_nn rs)) mod rs_nn rs"
      using 1(1) [of ?y] True 1(2) fold_bits_le(2) [of ?y] m True by simp
    also have "drop_bit (nat (rs_mm rs)) ?y + (?y AND rs_nn rs) = ?y - ?y div ?p * rs_nn rs"
    proof -
      have "q + r = z - q * (p - 1)" if "q * p + r = z" for p q r z :: int using that by (simp add: algebra_simps)
      from this [OF div_mult_mod_eq [of ?y ?p]] show ?thesis unfolding a drop_bit_eq_div by (simp only: m(2))
    qed
    also have "(?y - ?y div ?p * rs_nn rs) mod rs_nn rs = x mod rs_nn rs"
      by (metis minus_mod_self2 mod_mult_self4 uminus_add_conv_diff mult_minus_left diff_conv_add_uminus mod_mult_self1)
    finally show ?thesis .
  qed
qed

subsection \<open>Building the control block\<close>

text \<open>One step of the shift register that runs through the powers of the primitive element.\<close>

definition sr_step :: "int \<Rightarrow> int \<Rightarrow> int \<Rightarrow> int" where
  "sr_step symsize gfpoly sr =
     (let sr1 = push_bit 1 sr;
          sr2 = (if sr1 AND (2 ^ nat symsize) \<noteq> 0 then sr1 XOR gfpoly else sr1)
      in sr2 AND (2 ^ nat symsize - 1))"

definition table_step :: "int \<Rightarrow> int \<Rightarrow> int \<times> bytes \<times> bytes \<Rightarrow> nat \<Rightarrow> int \<times> bytes \<times> bytes" where
  "table_step symsize gfpoly st i =
     (case st of (sr, index_of, alpha_to) \<Rightarrow>
        (sr_step symsize gfpoly sr, index_of[nat sr := of_nat i], alpha_to[i := word_of_int sr]))"

definition rs_tables :: "int \<Rightarrow> int \<Rightarrow> int \<times> bytes \<times> bytes" where
  "rs_tables symsize gfpoly =
     (let nn = 2 ^ nat symsize - 1;
          zero = replicate (2 ^ nat symsize) 0
      in foldl (table_step symsize gfpoly) (1, zero[0 := of_nat nn], zero) [0..<nn])"

text \<open>\<open>for(iprim=1;(iprim % prim) != 0;iprim += nn)\<close>\<close>

partial_function (option) iprim_loop :: "int \<Rightarrow> int \<Rightarrow> int \<Rightarrow> int option" where
  "iprim_loop prim nn iprim =
     (if crem iprim prim \<noteq> 0 then iprim_loop prim nn (iprim + nn) else Some iprim)"

text \<open>Multiplication of the generator polynomial by one more root, in polynomial form.\<close>

definition genpoly_inner :: "rs \<Rightarrow> int \<Rightarrow> bytes \<Rightarrow> nat \<Rightarrow> bytes" where
  "genpoly_inner rs root g j =
     (if g ! j \<noteq> 0
      then g[j := g ! (j - 1) XOR rs_alpha_to rs ! nat (modnn rs (int (unat (rs_index_of rs ! unat (g ! j))) + root))]
      else g[j := g ! (j - 1)])"

definition genpoly_step :: "rs \<Rightarrow> bytes \<times> int \<Rightarrow> nat \<Rightarrow> bytes \<times> int" where
  "genpoly_step rs st i =
     (case st of (g, root) \<Rightarrow>
        (let g1 = foldl (genpoly_inner rs root) (g[i + 1 := 1]) (rev [1..<i + 1])
         in (g1[0 := rs_alpha_to rs ! nat (modnn rs (int (unat (rs_index_of rs ! unat (g1 ! 0))) + root))],
             root + rs_prim rs)))"

definition rs_poly_genpoly :: "rs \<Rightarrow> bytes" where
  "rs_poly_genpoly rs =
     fst (foldl (genpoly_step rs) ((replicate (nat (rs_nroots rs) + 1) 0)[0 := 1], rs_fcr rs * rs_prim rs)
            [0..<nat (rs_nroots rs)])"

text \<open>\<open>init_rs_char\<close>: \<open>Some None\<close> is a null pointer.\<close>

definition init_rs_char :: "int \<Rightarrow> int \<Rightarrow> int \<Rightarrow> int \<Rightarrow> int \<Rightarrow> int \<Rightarrow> rs option option" where
  "init_rs_char symsize gfpoly fcr prim nroots pad =
     (if symsize < 0 \<or> symsize > 8 then Some None
      else if fcr < 0 \<or> fcr \<ge> 2 ^ nat symsize then Some None
      else if prim \<le> 0 \<or> prim \<ge> 2 ^ nat symsize then Some None
      else if nroots < 0 \<or> nroots \<ge> 2 ^ nat symsize then Some None
      else if pad < 0 \<or> pad \<ge> 2 ^ nat symsize - 1 - nroots then Some None
      else
        (case rs_tables symsize gfpoly of (sr, index_of, alpha_to) \<Rightarrow>
           if sr \<noteq> 1 then Some None
           else
             (case iprim_loop prim (2 ^ nat symsize - 1) 1 of
                None \<Rightarrow> None
              | Some iprim \<Rightarrow>
                  (let rs = \<lparr>rs_mm = symsize, rs_nn = 2 ^ nat symsize - 1, rs_alpha_to = alpha_to,
                             rs_index_of = index_of, rs_genpoly = [], rs_nroots = nroots, rs_fcr = fcr,
                             rs_prim = prim, rs_iprim = iprim div prim, rs_pad = pad\<rparr>
                   in Some (Some (rs\<lparr>rs_genpoly :=
                        map (\<lambda>g. index_of ! unat g) (rs_poly_genpoly rs)\<rparr>))))))"

subsection \<open>Encoding\<close>

definition encode_step :: "rs \<Rightarrow> bytes \<Rightarrow> byte \<Rightarrow> bytes" where
  "encode_step rs parity d =
     (let feedback = int (unat (rs_index_of rs ! unat (d XOR parity ! 0)));
          n = nat (rs_nroots rs);
          term = (\<lambda>k. rs_alpha_to rs ! nat (modnn rs (feedback + int (unat (rs_genpoly rs ! k)))));
          parity1 = (if feedback \<noteq> rs_nn rs
                     then map (\<lambda>j. if j = 0 then parity ! 0 else parity ! j XOR term (n - j)) [0..<n]
                     else parity)
      in tl parity1 @ [if feedback \<noteq> rs_nn rs then term 0 else 0])"

definition encode_rs_char :: "rs \<Rightarrow> bytes \<Rightarrow> exn + bytes" where
  "encode_rs_char rs data =
     (let k = nat (rs_nn rs - rs_nroots rs - rs_pad rs)
      in if length data < k \<or> (0 < k \<and> rs_nroots rs < 1) then Inl OutOfBounds
         else Inr (foldl (encode_step rs) (replicate (nat (rs_nroots rs)) 0) (take k data)))"

subsection \<open>Decoding\<close>

definition gf_log :: "rs \<Rightarrow> byte \<Rightarrow> byte" where
  "gf_log rs v = rs_index_of rs ! unat v"

definition gf_exp :: "rs \<Rightarrow> int \<Rightarrow> byte" where
  "gf_exp rs x = rs_alpha_to rs ! nat (modnn rs x)"

abbreviation is_A0 :: "rs \<Rightarrow> byte \<Rightarrow> bool" where
  "is_A0 rs x \<equiv> int (unat x) = rs_nn rs"

definition syndrome_step :: "rs \<Rightarrow> nat \<Rightarrow> byte \<Rightarrow> byte \<Rightarrow> byte" where
  "syndrome_step rs i s d =
     (if s = 0 then d
      else d XOR gf_exp rs (int (unat (gf_log rs s)) + (rs_fcr rs + int i) * rs_prim rs))"

definition syndrome :: "rs \<Rightarrow> bytes \<Rightarrow> nat \<Rightarrow> byte" where
  "syndrome rs data i =
     foldl (syndrome_step rs i) (data ! 0) (tl (take (nat (rs_nn rs - rs_pad rs)) data))"

text \<open>The erasure locator polynomial.\<close>

definition eras_inner :: "rs \<Rightarrow> byte \<Rightarrow> bytes \<Rightarrow> nat \<Rightarrow> bytes" where
  "eras_inner rs u lambda j =
     (let tmp = gf_log rs (lambda ! (j - 1))
      in if is_A0 rs tmp then lambda
         else lambda[j := lambda ! j XOR gf_exp rs (int (unat u) + int (unat tmp))])"

definition eras_lambda :: "rs \<Rightarrow> int list \<Rightarrow> bytes" where
  "eras_lambda rs eras_pos =
     (let l0 = (replicate (nat (rs_nroots rs) + 1) 0)[0 := 1]
      in if eras_pos = [] then l0
         else foldl (\<lambda>l i. foldl (eras_inner rs
                        (word_of_int (modnn rs (rs_prim rs * (rs_nn rs - 1 - eras_pos ! i)))))
                      l (rev [1..<i + 2]))
                (l0[1 := gf_exp rs (rs_prim rs * (rs_nn rs - 1 - eras_pos ! 0))])
                [1..<length eras_pos])"

text \<open>Step \<open>r\<close> of the Berlekamp-Massey algorithm; \<open>s\<close> and \<open>b\<close> are in index form.\<close>

definition discrepancy :: "rs \<Rightarrow> bytes \<Rightarrow> bytes \<Rightarrow> nat \<Rightarrow> byte" where
  "discrepancy rs lambda s r =
     foldl (\<lambda>d i. if lambda ! i \<noteq> 0 \<and> \<not> is_A0 rs (s ! (r - i - 1))
                  then d XOR gf_exp rs (int (unat (gf_log rs (lambda ! i))) + int (unat (s ! (r - i - 1))))
                  else d) 0 [0..<r]"

definition bm_step :: "rs \<Rightarrow> bytes \<Rightarrow> nat \<Rightarrow> bytes \<times> bytes \<times> nat \<Rightarrow> nat \<Rightarrow> bytes \<times> bytes \<times> nat" where
  "bm_step rs s no_eras st r =
     (case st of (lambda, b, el) \<Rightarrow>
        (let n = nat (rs_nroots rs);
             discr = gf_log rs (discrepancy rs lambda s r);
             shifted = word_of_int (rs_nn rs) # take n b
         in if is_A0 rs discr then (lambda, shifted, el)
            else
              (let t = lambda ! 0 # map (\<lambda>i. if is_A0 rs (b ! i) then lambda ! (i + 1)
                     else lambda ! (i + 1) XOR gf_exp rs (int (unat discr) + int (unat (b ! i)))) [0..<n]
               in if 2 * el + 1 \<le> r + no_eras
                  then (t, map (\<lambda>l. if l = 0 then word_of_int (rs_nn rs)
                               else word_of_int (modnn rs (int (unat (gf_log rs l)) - int (unat discr) + rs_nn rs)))
                             (take (n + 1) lambda), r + no_eras - el)
                  else (t, shifted, el))))"

text \<open>The search for the roots of the locator: for each \<open>i\<close> in turn, until \<open>deg\<close> roots are found.\<close>

definition chien_inner :: "rs \<Rightarrow> bytes \<times> byte \<Rightarrow> nat \<Rightarrow> bytes \<times> byte" where
  "chien_inner rs st j =
     (case st of (reg, q) \<Rightarrow>
        if is_A0 rs (reg ! j) then st
        else (let x = word_of_int (modnn rs (int (unat (reg ! j)) + int j))
              in (reg[j := x], q XOR rs_alpha_to rs ! unat x)))"

fun chien :: "rs \<Rightarrow> nat \<Rightarrow> nat list \<Rightarrow> int \<Rightarrow> bytes \<Rightarrow> (byte \<times> byte) list \<Rightarrow> (byte \<times> byte) list" where
  "chien rs deg [] k reg found = found"
| "chien rs deg (i # is) k reg found =
     (let (reg', q) = foldl (chien_inner rs) (reg, 1) (rev [1..<deg + 1]);
          k' = modnn rs (k + rs_iprim rs);
          found' = found @ [(of_nat i, word_of_int k)]
      in if q \<noteq> 0 then chien rs deg is k' reg' found
         else if length found' = deg then found'
         else chien rs deg is k' reg' found')"

definition omega_coeff :: "rs \<Rightarrow> bytes \<Rightarrow> bytes \<Rightarrow> nat \<Rightarrow> byte" where
  "omega_coeff rs s lambda i =
     gf_log rs (foldl (\<lambda>t j. if \<not> is_A0 rs (s ! (i - j)) \<and> \<not> is_A0 rs (lambda ! j)
                 then t XOR gf_exp rs (int (unat (s ! (i - j))) + int (unat (lambda ! j))) else t)
               0 (rev [0..<i + 1]))"

text \<open>The value of the error at one location, and its application to the data.\<close>

definition eval_even :: "rs \<Rightarrow> bytes \<Rightarrow> int \<Rightarrow> nat list \<Rightarrow> (nat \<Rightarrow> nat) \<Rightarrow> byte" where
  "eval_even rs p root is pos =
     foldl (\<lambda>v i. if is_A0 rs (p ! pos i) then v
                  else v XOR gf_exp rs (int (unat (p ! pos i)) + int i * root)) 0 is"

definition apply_error :: "rs \<Rightarrow> bytes \<Rightarrow> bytes \<Rightarrow> nat \<Rightarrow> byte \<times> byte \<Rightarrow> bytes \<Rightarrow> bytes" where
  "apply_error rs lambda omega deg_lambda e data =
     (case e of (root, loc) \<Rightarrow>
        (let r = int (unat root);
             num1 = eval_even rs omega r (rev [0..<deg_lambda]) id;
             num2 = gf_exp rs (r * (rs_fcr rs - 1) + rs_nn rs);
             top = min deg_lambda (nat (rs_nroots rs) - 1);
             den = eval_even rs lambda r (rev (filter even [0..<top + 1])) Suc;
             l = int (unat loc)
         in if num1 \<noteq> 0 \<and> l \<ge> rs_pad rs
            then data[nat (l - rs_pad rs) := data ! nat (l - rs_pad rs) XOR
                   gf_exp rs (int (unat (gf_log rs num1)) + int (unat (gf_log rs num2)) + rs_nn rs
                              - int (unat (gf_log rs den)))]
            else data))"

text \<open>
  \<open>decode_rs_char(p, data, eras_pos, no_eras)\<close>: the return value, the corrected block and the
  contents of \<open>eras_pos\<close>, which is not null exactly when \<open>eras\<close> is \<open>Some\<close>.
\<close>

definition decode_rs_char :: "rs \<Rightarrow> bytes \<Rightarrow> int list option \<Rightarrow> nat \<Rightarrow> exn + int \<times> bytes \<times> int list option" where
  "decode_rs_char rs data eras no_eras =
     (let n = nat (rs_nroots rs);
          pos = (case eras of None \<Rightarrow> [] | Some e \<Rightarrow> take no_eras e)
      in if length data < nat (rs_nn rs - rs_pad rs) \<or> length pos < no_eras \<or> n < no_eras then Inl OutOfBounds
         else
           (let syn = map (syndrome rs data) [0..<n]
            in if list_all (\<lambda>v. v = 0) syn then Inr (0, data, eras)
               else
                 (let s = map (gf_log rs) syn;
                      lambda0 = eras_lambda rs pos;
                      (lambda1, b, el) = foldl (bm_step rs s no_eras)
                        (lambda0, map (gf_log rs) lambda0, no_eras) [no_eras + 1..<n + 1];
                      lambda = map (gf_log rs) lambda1;
                      deg_lambda = foldl (\<lambda>d i. if is_A0 rs (lambda ! i) then d else i) 0 [0..<n + 1];
                      found = chien rs deg_lambda [1..<nat (rs_nn rs) + 1] (rs_iprim rs - 1) lambda []
                  in if deg_lambda \<noteq> length found then Inr (-1, data, eras)
                     else
                       (let omega = map (omega_coeff rs s lambda) [0..<deg_lambda];
                            data' = foldr (apply_error rs lambda omega deg_lambda) found data
                        in Inr (int (length found), data',
                                map_option (\<lambda>e. map (int \<circ> unat \<circ> snd) found @ drop (length found) e) eras)))))"

subsection \<open>The class\<close>

record ReedSolomon =
  m_N :: int
  m_K :: int
  rsData :: rs
  rs_reverse :: bool

definition SYMSIZE :: int where "SYMSIZE = 8"

definition ReedSolomon_init ::
  "int \<Rightarrow> int \<Rightarrow> bool \<Rightarrow> int \<Rightarrow> int \<Rightarrow> int \<Rightarrow> (exn + ReedSolomon) option" where
  "ReedSolomon_init N K reverse gfpoly firstRoot primElem =
     (case init_rs_char SYMSIZE gfpoly firstRoot primElem (N - K) (2 ^ nat SYMSIZE - 1 - N) of
        None \<Rightarrow> None
      | Some None \<Rightarrow> Some (Inl InvalidArgument)
      | Some (Some rs) \<Rightarrow> Some (Inr \<lparr>m_N = N, m_K = K, rsData = rs, rs_reverse = reverse\<rparr>))"

definition setReverse :: "ReedSolomon \<Rightarrow> bool \<Rightarrow> ReedSolomon" where
  "setReverse r state = r\<lparr>rs_reverse := state\<rparr>"

text \<open>\<open>encode(data, fec, size)\<close>: the return value and the new contents of \<open>data\<close> and \<open>fec\<close>.\<close>

definition rs_encode :: "ReedSolomon \<Rightarrow> bytes \<Rightarrow> bytes \<Rightarrow> exn + int \<times> bytes \<times> bytes" where
  "rs_encode r data fec =
     (let k = nat (m_K r); n = nat (m_N r)
      in if rs_reverse r then
           (if length data < k \<or> length fec < n - k then Inl OutOfBounds
            else (case decode_rs_char (rsData r) (take k data @ take (n - k) fec) None 0 of
                    Inl e \<Rightarrow> Inl e
                  | Inr (ret, buffer, _) \<Rightarrow>
                      if ret \<noteq> 0 \<and> ret \<noteq> -1
                      then Inr (ret, take k buffer @ drop k data, drop k buffer @ drop (n - k) fec)
                      else Inr (ret, data, fec)))
         else (case encode_rs_char (rsData r) data of
                 Inl e \<Rightarrow> Inl e
               | Inr parity \<Rightarrow> if length fec < length parity then Inl OutOfBounds
                              else Inr (0, data, parity @ drop (length parity) fec)))"

text \<open>\<open>encode(data, size)\<close>: in place, the parity behind the data.\<close>

definition rs_encode_in_place :: "ReedSolomon \<Rightarrow> bytes \<Rightarrow> exn + int \<times> bytes" where
  "rs_encode_in_place r data =
     (let k = nat (m_K r)
      in if rs_reverse r then
           (case decode_rs_char (rsData r) data None 0 of
              Inl e \<Rightarrow> Inl e | Inr (ret, data', _) \<Rightarrow> Inr (ret, data'))
         else (case encode_rs_char (rsData r) data of
                 Inl e \<Rightarrow> Inl e
               | Inr parity \<Rightarrow>
                   if length data < k + length parity then Inl OutOfBounds
                   else Inr (0, take k data @ parity @ drop (k + length parity) data)))"

end
