(* ===== verification/RSCode.thy ===== *)
theory RSCode
  imports ReedSolomon
begin

text \<open>
  The algebra of the Reed-Solomon codec of theory \<open>ReedSolomon\<close>: the look-up tables of
  \<open>init_rs.h\<close> are the powers of a primitive element of the field with 256 elements, the generator
  polynomial has the roots the code is named after, the encoder's register holds the remainder of
  the data, and a polynomial with few terms has few roots. Multiplication by the primitive element
  is the bit operation \<open>xt\<close>; everything is stated with powers of this linear map, so no
  multiplication of field elements is needed.
\<close>

unbundle bit_operations_syntax

subsection \<open>The field\<close>

text \<open>Multiplication by the primitive element of the field with polynomial \<open>0x11d\<close>.\<close>

definition xt :: "byte \<Rightarrow> byte" where
  "xt x = (if bit x 7 then push_bit 1 x XOR 0x1d else push_bit 1 x)"

definition gf_powers :: bytes where
  "gf_powers = [1, 2, 4, 8, 16, 32, 64, 128, 29, 58, 116, 232, 205, 135, 19, 38, 76, 152, 45, 90,
   180, 117, 234, 201, 143, 3, 6, 12, 24, 48, 96, 192, 157, 39, 78, 156, 37, 74, 148, 53,
   106, 212, 181, 119, 238, 193, 159, 35, 70, 140, 5, 10, 20, 40, 80, 160, 93, 186, 105, 210,
   185, 111, 222, 161, 95, 190, 97, 194, 153, 47, 94, 188, 101, 202, 137, 15, 30, 60, 120, 240,
   253, 231, 211, 187, 107, 214, 177, 127, 254, 225, 223, 163, 91, 182, 113, 226, 217, 175, 67, 134,
   17, 34, 68, 136, 13, 26, 52, 104, 208, 189, 103, 206, 129, 31, 62, 124, 248, 237, 199, 147,
   59, 118, 236, 197, 151, 51, 102, 204, 133, 23, 46, 92, 184, 109, 218, 169, 79, 158, 33, 66,
   132, 21, 42, 84, 168, 77, 154, 41, 82, 164, 85, 170, 73, 146, 57, 114, 228, 213, 183, 115,
   230, 209, 191, 99, 198, 145, 63, 126, 252, 229, 215, 179, 123, 246, 241, 255, 227, 219, 171, 75,
   150, 49, 98, 196, 149, 55, 110, 220, 165, 87, 174, 65, 130, 25, 50, 100, 200, 141, 7, 14,
   28, 56, 112, 224, 221, 167, 83, 166, 81, 162, 89, 178, 121, 242, 249, 239, 195, 155, 43, 86,
   172, 69, 138, 9, 18, 36, 72, 144, 61, 122, 244, 245, 247, 243, 251, 235, 203, 139, 11, 22,
   44, 88, 176, 125, 250, 233, 207, 131, 27, 54, 108, 216, 173, 71, 142]"

lemma xt_xor: "xt (a XOR b) = xt a XOR xt b"
  unfolding xt_def by (auto simp: bit_xor_iff push_bit_xor ac_simps xor.left_commute)

lemma xt_0 [simp]: "xt 0 = 0"
  by (simp add: xt_def)

lemma xt_eq_0 [simp]: "xt a = 0 \<longleftrightarrow> a = 0"
proof
  assume z: "xt a = 0"
  have "bit (xt a) 0 = bit a 7" by (auto simp: xt_def bit_simps bit_0 even_xor_iff)
  then have b7: "\<not> bit a 7" using z by simp
  then have p: "push_bit 1 a = 0" using z by (simp only: xt_def if_False)
  show "a = 0"
  proof (rule bit_word_eqI)
    fix n assume "n < LENGTH(8)"
    then have "n = 7 \<or> n < 7" by auto
    moreover have "bit (push_bit 1 a) (Suc n) = (n < 7 \<and> bit a n)"
      by (auto simp: bit_push_bit_iff simp del: push_bit_Suc)
    ultimately show "bit a n = bit 0 n" using b7 p by auto
  qed
qed simp

lemma xt_inj: "xt a = xt b \<longleftrightarrow> a = b"
proof -
  have "xt a = xt b \<longleftrightarrow> xt (a XOR b) = 0" by (simp only: xt_xor) (metis xor_right_cancel xor_self_eq xor.assoc xor.left_neutral)
  also have "\<dots> \<longleftrightarrow> a = b" by (simp only: xt_eq_0) (metis xor_right_cancel xor_self_eq)
  finally show ?thesis .
qed

lemma xor_around: "(a XOR y) XOR a = (y :: 'a::len word)"
  by (auto simp: bit_eq_iff bit_xor_iff)

lemma xor_zero_iff: "a XOR b = 0 \<longleftrightarrow> a = (b :: 'a::len word)"
  by (auto simp: bit_eq_iff bit_xor_iff)

lemma xtn_xor: "(xt ^^ n) (a XOR b) = (xt ^^ n) a XOR (xt ^^ n) b"
  by (induction n) (simp_all add: xt_xor)

lemma xtn_0 [simp]: "(xt ^^ n) 0 = 0"
  by (induction n) simp_all

lemma xtn_inj: "(xt ^^ n) a = (xt ^^ n) b \<longleftrightarrow> a = b"
  by (induction n) (simp_all add: xt_inj)

lemma xtn_add: "(xt ^^ m) ((xt ^^ n) a) = (xt ^^ (m + n)) a"
  by (simp add: funpow_add)

lemma gf_powers_step: "map xt (butlast gf_powers) = tl gf_powers" "length gf_powers = 255"
  "gf_powers ! 0 = 1" "xt (last gf_powers) = 1" "1 \<notin> set (tl gf_powers)"
  by (simp_all add: gf_powers_def xt_def bit_0)

text \<open>The \<open>n\<close>-th power of the primitive element.\<close>

definition pw :: "nat \<Rightarrow> byte" where
  "pw n = (xt ^^ n) 1"

lemma pw_list: "n < 255 \<Longrightarrow> gf_powers ! n = pw n"
proof (induction n)
  case 0
  then show ?case using gf_powers_step(3) by (simp add: pw_def)
next
  case (Suc n)
  have "gf_powers ! Suc n = tl gf_powers ! n" using Suc.prems gf_powers_step(2) by (simp add: nth_tl)
  also have "\<dots> = xt (gf_powers ! n)"
    using Suc.prems gf_powers_step(2) unfolding gf_powers_step(1) [symmetric] by (simp add: nth_butlast)
  finally show ?case using Suc by (simp add: pw_def)
qed

lemma pw_255: "pw 255 = 1"
proof -
  have "last gf_powers = pw 254" using pw_list [of 254] gf_powers_step(2) by (subst last_conv_nth) auto
  moreover have "pw 255 = xt (pw 254)" unfolding pw_def by (simp add: numeral_eq_Suc)
  ultimately show ?thesis using gf_powers_step(4) by simp
qed

lemma pw_neq_1: "0 < n \<Longrightarrow> n < 255 \<Longrightarrow> pw n \<noteq> 1"
proof -
  assume n: "0 < n" "n < 255"
  then have "pw n = tl gf_powers ! (n - 1)" using pw_list [of n] gf_powers_step(2) by (simp add: nth_tl)
  moreover have "n - 1 < length (tl gf_powers)" using n gf_powers_step(2) by simp
  ultimately show ?thesis using gf_powers_step(5) nth_mem by metis
qed

lemma pw_inj: "inj_on pw {..<255}"
proof (rule linorder_inj_onI')
  fix i j :: nat assume ij: "i \<in> {..<255}" "j \<in> {..<255}" "i < j"
  have "pw j = (xt ^^ i) (pw (j - i))" unfolding pw_def using ij by (simp add: xtn_add)
  moreover have "pw (j - i) \<noteq> 1" using ij by (intro pw_neq_1) auto
  ultimately show "pw i \<noteq> pw j" unfolding pw_def using xtn_inj by metis
qed

lemma pw_nonzero [simp]: "pw n \<noteq> 0"
  unfolding pw_def using xtn_inj [of n 1 0] by simp

lemma pw_surj: "v \<noteq> 0 \<Longrightarrow> \<exists>n < 255. pw n = v"
proof -
  assume v: "v \<noteq> 0"
  have "card (pw ` {..<255}) = 255" using card_image [OF pw_inj] by simp
  moreover have "card (UNIV - {0 :: byte}) = 255" by (simp add: card_Diff_singleton card_word)
  moreover have "pw ` {..<255} \<subseteq> UNIV - {0}" by auto
  ultimately have "pw ` {..<255} = UNIV - {0}" by (intro card_subset_eq) auto
  then have "v \<in> pw ` {..<255}" using v by simp
  then show ?thesis by auto
qed

lemma pw_period: "pw (n + 255) = pw n"
  unfolding pw_def funpow_add using pw_255 by (simp add: pw_def)

lemma pw_mod: "pw (n mod 255) = pw n"
proof (induction n rule: less_induct)
  case (less n)
  then show ?case using pw_period [of "n - 255"] by (cases "n < 255") (auto simp: le_mod_geq)
qed


subsection \<open>The tables\<close>

lemma sr_step_xt:
  assumes "0 \<le> sr" "sr < 256"
  shows "word_of_int (sr_step 8 0x11d sr) = xt (word_of_int sr)" "0 \<le> sr_step 8 0x11d sr" "sr_step 8 0x11d sr < 256"
proof -
  have m: "x AND 255 = take_bit 8 (x :: int)" for x by (simp add: take_bit_eq_mask mask_eq_exp_minus_1)
  have "(push_bit 1 sr AND 2 ^ 8 \<noteq> 0) = bit (push_bit 1 sr) 8" by (simp only: and_exp_eq_0_iff_not_bit not_not)
  then have p: "(push_bit 1 sr AND 256 \<noteq> 0) = bit sr 7"
    by (simp only: bit_push_bit_iff) simp
  have word285: "(285 :: byte) = 29" by simp
  have e: "sr_step 8 0x11d sr = take_bit 8 (if bit sr 7 then push_bit 1 sr XOR 0x11d else push_bit 1 sr)"
    using p by (simp add: sr_step_def m Let_def)
  show "0 \<le> sr_step 8 0x11d sr" "sr_step 8 0x11d sr < 256"
    unfolding e by simp (rule order_less_le_trans [OF take_bit_int_less_exp], simp)
  show "word_of_int (sr_step 8 0x11d sr) = xt (word_of_int sr)"
    unfolding e xt_def
    by (simp add: of_int_take_bit of_int_xor_eq bit_simps take_bit_word_eq_self) (simp only: word285 simp_thms)
qed


lemma table_steps:
  assumes "n \<le> 255"
  shows "\<exists>io al. foldl (table_step 8 0x11d) (1, (replicate 256 0)[0 := 255], replicate 256 0) [0..<n]
      = (uint (pw n), io, al) \<and> length io = 256 \<and> length al = 256 \<and> io ! 0 = 255 \<and> al ! 255 = 0
      \<and> (\<forall>k < n. al ! k = pw k \<and> io ! unat (pw k) = of_nat k)"
  using assms
proof (induction n)
  case 0
  then show ?case by (simp add: pw_def)
next
  case (Suc n)
  then obtain io al where IH: "foldl (table_step 8 0x11d) (1, (replicate 256 0)[0 := 255], replicate 256 0) [0..<n]
      = (uint (pw n), io, al)" "length io = 256" "length al = 256" "io ! 0 = 255" "al ! 255 = 0"
      "\<And>k. k < n \<Longrightarrow> al ! k = pw k \<and> io ! unat (pw k) = of_nat k"
    by auto
  have lt: "uint (pw n) < 256" using uint_lt2p [of "pw n"] by simp
  have sr: "sr_step 8 0x11d (uint (pw n)) = uint (pw (Suc n))"
  proof -
    have "word_of_int (sr_step 8 0x11d (uint (pw n))) = pw (Suc n)"
      using sr_step_xt(1) [of "uint (pw n)"] lt by (simp add: pw_def)
    moreover have "uint (word_of_int s :: byte) = s" if "0 \<le> s" "s < 256" for s
      using that by (simp add: uint_word_of_int_eq take_bit_int_eq_self)
    ultimately show ?thesis
      using sr_step_xt(2,3) [of "uint (pw n)"] lt by (metis unsigned_greater_eq)
  qed
  have nat: "nat (uint (pw k)) = unat (pw k)" for k by simp
  have b: "unat (pw k) < 256" for k using unsigned_less [of "pw k"] by simp
  have ne: "unat (pw k) \<noteq> unat (pw n)" if "k < n" for k
    using inj_onD [OF pw_inj, of k n] that Suc.prems by (auto simp: word_unat_eq_iff [symmetric])
  have nz: "unat (pw n) \<noteq> 0" by (simp add: unat_eq_0)
  have "foldl (table_step 8 0x11d) (1, (replicate 256 0)[0 := 255], replicate 256 0) [0..<Suc n]
      = (uint (pw (Suc n)), io[unat (pw n) := of_nat n], al[n := pw n])"
    by (simp add: IH(1) table_step_def sr nat)
  moreover have "(al[n := pw n]) ! k = pw k \<and> (io[unat (pw n) := of_nat n]) ! unat (pw k) = of_nat k"
    if "k < Suc n" for k
    using that IH(2,3) IH(6) [of k] ne [of k] b [of n] Suc.prems by (cases "k = n") (auto simp: less_Suc_eq)
  ultimately show ?case using IH nz Suc.prems by auto
qed

text \<open>A control block over this field.\<close>

definition gf256 :: "rs \<Rightarrow> bool" where
  "gf256 rs \<longleftrightarrow> rs_mm rs = 8 \<and> rs_nn rs = 255
     \<and> rs_tables 8 0x11d = (1, rs_index_of rs, rs_alpha_to rs)"

lemma rs_tables_gf:
  obtains io al where "rs_tables 8 0x11d = (1, io, al)" "io ! 0 = 255" "al ! 255 = 0" "length al = 256"
    "\<And>k. k < 255 \<Longrightarrow> al ! k = pw k" "\<And>k. k < 255 \<Longrightarrow> io ! unat (pw k) = of_nat k"
proof -
  have "rs_tables 8 0x11d = foldl (table_step 8 0x11d) (1, (replicate 256 0)[0 := 255], replicate 256 0) [0..<255]"
    by (simp add: rs_tables_def Let_def)
  then show ?thesis using table_steps [of 255] that pw_255 by auto
qed

lemma gf256_tables:
  assumes "gf256 rs"
  shows "gf_log rs 0 = 255" "k < 255 \<Longrightarrow> gf_log rs (pw k) = of_nat k" "k < 255 \<Longrightarrow> rs_alpha_to rs ! k = pw k"
    "rs_wf rs" "rs_nn rs = 255"
  using assms rs_tables_gf by (auto simp: gf256_def gf_log_def rs_wf_def)

lemma gf_exp_pw: "gf256 rs \<Longrightarrow> gf_exp rs (int n) = pw n"
proof -
  assume g: "gf256 rs"
  have "modnn rs (int n) = int (n mod 255)"
    using modnn_mod [OF gf256_tables(4) [OF g], of "int n"] gf256_tables(5) [OF g] by (simp add: zmod_int)
  then show ?thesis using gf256_tables(3) [OF g, of "n mod 255"] pw_mod by (simp add: gf_exp_def)
qed

text \<open>The multiplication by table look-up is multiplication by a power of the primitive element.\<close>

lemma table_mul:
  assumes "gf256 rs" "v \<noteq> 0"
  shows "gf_exp rs (int (unat (gf_log rs v)) + int e) = (xt ^^ e) v" "gf_log rs v \<noteq> 255"
    "pw (unat (gf_log rs v)) = v"
proof -
  obtain k where k: "k < 255" "pw k = v" using pw_surj [OF assms(2)] by blast
  have log: "gf_log rs v = of_nat k" "unat (of_nat k :: byte) = k"
    using gf256_tables(2) [OF assms(1) k(1)] k by (auto simp: unat_of_nat_id)
  show "pw (unat (gf_log rs v)) = v" using log k by simp
  have "unat (gf_log rs v) \<noteq> unat (255 :: byte)" using log k(1) by simp
  then show "gf_log rs v \<noteq> 255" by auto
  have "gf_exp rs (int (unat (gf_log rs v)) + int e) = pw (e + k)"
    using gf_exp_pw [OF assms(1), of "e + k"] log by (simp add: add.commute)
  then show "gf_exp rs (int (unat (gf_log rs v)) + int e) = (xt ^^ e) v"
    using k by (simp add: pw_def funpow_add)
qed


subsection \<open>Polynomials\<close>

text \<open>The value at the \<open>r\<close>-th power of the primitive element of the polynomial with the given
  coefficients, lowest first, and of the one with the given coefficients, highest first.\<close>

fun peval :: "nat \<Rightarrow> bytes \<Rightarrow> byte" where
  "peval r [] = 0"
| "peval r (g # gs) = g XOR (xt ^^ r) (peval r gs)"

definition horner :: "nat \<Rightarrow> byte \<Rightarrow> bytes \<Rightarrow> byte" where
  "horner r = foldl (\<lambda>s d. d XOR (xt ^^ r) s)"

lemma horner_simps [simp]:
  "horner r s [] = s" "horner r s (d # ds) = horner r (d XOR (xt ^^ r) s) ds"
  "horner r s (ds @ es) = horner r (horner r s ds) es"
  by (simp_all add: horner_def)

lemma horner_start: "horner r (s XOR t) ds = (xt ^^ (r * length ds)) s XOR horner r t ds"
proof (induction ds arbitrary: s t)
  case (Cons d ds)
  have "d XOR (xt ^^ r) (s XOR t) = (xt ^^ r) s XOR (d XOR (xt ^^ r) t)"
    by (simp add: xtn_xor ac_simps xor.left_commute)
  then show ?case using Cons.IH [of "(xt ^^ r) s"] by (simp add: xtn_add algebra_simps)
qed simp

lemma horner_from: "horner r s ds = (xt ^^ (r * length ds)) s XOR horner r 0 ds"
  using horner_start [of r s 0 ds] by simp

lemma horner_xor:
  assumes "length a = length b"
  shows "horner r (s XOR t) (map2 (XOR) a b) = horner r s a XOR horner r t b"
  using assms
proof (induction a b arbitrary: s t rule: list_induct2)
  case (Cons x xs y ys)
  have "(x XOR y) XOR (xt ^^ r) (s XOR t) = (x XOR (xt ^^ r) s) XOR (y XOR (xt ^^ r) t)"
    by (simp add: xtn_xor ac_simps xor.left_commute)
  then show ?case using Cons.IH by simp
qed simp

lemma horner_map: "horner r ((xt ^^ k) s) (map (xt ^^ k) ds) = (xt ^^ k) (horner r s ds)"
proof (induction ds arbitrary: s)
  case (Cons d ds)
  have "(xt ^^ k) d XOR (xt ^^ r) ((xt ^^ k) s) = (xt ^^ k) (d XOR (xt ^^ r) s)"
    by (simp add: xtn_xor xtn_add add.commute)
  then show ?case using Cons.IH by simp
qed simp

lemma horner_zeros: "horner r 0 (replicate n 0) = 0"
  by (induction n) simp_all

lemma horner_rev: "horner r 0 (rev g) = peval r g"
  by (induction g) (simp_all)

subsection \<open>The generator polynomial\<close>

definition gen_mul :: "nat \<Rightarrow> bytes \<Rightarrow> bytes" where
  "gen_mul root h = map2 (XOR) (0 # h) (map (xt ^^ root) h @ [0])"

lemma peval_gen_mul: "peval r (gen_mul root h) = (xt ^^ root) (peval r h) XOR (xt ^^ r) (peval r h)"
proof -
  have "peval r (gen_mul root h) = horner r 0 (map2 (XOR) (rev (0 # h)) (rev (map (xt ^^ root) h @ [0])))"
    unfolding gen_mul_def horner_rev [symmetric] by (subst zip_rev) (simp_all add: rev_map)
  also have "\<dots> = horner r 0 (rev (0 # h)) XOR horner r 0 (rev (map (xt ^^ root) h @ [0]))"
    using horner_xor [of "rev (0 # h)" "rev (map (xt ^^ root) h @ [0])" r 0 0] by simp
  also have "horner r 0 (rev (0 # h)) = (xt ^^ r) (peval r h)" by (simp only: horner_rev peval.simps xor.left_neutral)
  also have "horner r 0 (rev (map (xt ^^ root) h @ [0])) = (xt ^^ root) (peval r h)"
    using horner_map [of r root 0 "rev h"] by (simp add: rev_map horner_rev)
  finally show ?thesis by (simp add: ac_simps)
qed

lemma gen_mul_length [simp]: "length (gen_mul root h) = Suc (length h)"
  by (simp add: gen_mul_def)

lemma gen_mul_ends:
  assumes "h \<noteq> []"
  shows "gen_mul root h ! 0 = (xt ^^ root) (h ! 0)" "last (gen_mul root h) = last h"
proof -
  show "gen_mul root h ! 0 = (xt ^^ root) (h ! 0)" using assms by (cases h) (simp_all add: gen_mul_def)
  obtain h' x where "h = h' @ [x]" using assms by (metis rev_exhaust)
  then show "last (gen_mul root h) = last h" by (simp add: gen_mul_def last_map last_zip)
qed

lemma table_mul_root:
  assumes "gf256 rs" "v \<noteq> 0" "0 \<le> root"
  shows "rs_alpha_to rs ! nat (modnn rs (int (unat (rs_index_of rs ! unat v)) + root)) = (xt ^^ nat root) v"
  using table_mul(1) [OF assms(1,2), of "nat root"] assms(3) by (simp add: gf_exp_def gf_log_def)

lemma genpoly_inner_xt:
  "gf256 rs \<Longrightarrow> 0 \<le> root \<Longrightarrow> genpoly_inner rs root g j = g[j := g ! (j - 1) XOR (xt ^^ nat root) (g ! j)]"
  using table_mul_root [of rs "g ! j" root] by (simp add: genpoly_inner_def)

lemma genpoly_inner_fold:
  assumes "gf256 rs" "0 \<le> root" "i < length g"
  shows "length (foldl (genpoly_inner rs root) g (rev [1..<i + 1])) = length g
    \<and> (\<forall>j < length g. foldl (genpoly_inner rs root) g (rev [1..<i + 1]) ! j =
      (if 1 \<le> j \<and> j \<le> i then g ! (j - 1) XOR (xt ^^ nat root) (g ! j) else g ! j))"
  using assms(3)
proof (induction i arbitrary: g)
  case (Suc i)
  let ?g = "g[Suc i := g ! i XOR (xt ^^ nat root) (g ! Suc i)]"
  have f: "foldl (genpoly_inner rs root) g (rev [1..<Suc i + 1])
      = foldl (genpoly_inner rs root) ?g (rev [1..<i + 1])"
    by (simp add: genpoly_inner_xt [OF assms(1,2)])
  have IH: "length (foldl (genpoly_inner rs root) ?g (rev [1..<i + 1])) = length g"
    "\<And>j. j < length g \<Longrightarrow> foldl (genpoly_inner rs root) ?g (rev [1..<i + 1]) ! j =
      (if 1 \<le> j \<and> j \<le> i then ?g ! (j - 1) XOR (xt ^^ nat root) (?g ! j) else ?g ! j)"
    using Suc(1) [of ?g] Suc(2) by (simp_all del: upt_Suc)
  have "(if 1 \<le> j \<and> j \<le> i then ?g ! (j - 1) XOR (xt ^^ nat root) (?g ! j) else ?g ! j)
      = (if 1 \<le> j \<and> j \<le> Suc i then g ! (j - 1) XOR (xt ^^ nat root) (g ! j) else g ! j)"
    if "j < length g" for j
    using that by (cases "j = Suc i") (auto simp: nth_list_update)
  then show ?case unfolding f using IH by (simp del: upt_Suc)
qed simp_all

lemma genpoly_step_gen_mul:
  assumes rs: "gf256 rs" "0 \<le> root" "0 \<le> rs_prim rs"
    and g: "take (i + 1) g = h" "length h = i + 1" "i + 1 < length g" "last h = 1" "h ! 0 \<noteq> 0"
  shows "\<exists>g'. genpoly_step rs (g, root) i = (g', root + rs_prim rs) \<and> length g' = length g
    \<and> take (i + 2) g' = gen_mul (nat root) h"
proof -
  let ?g = "g[i + 1 := 1]" and ?g1 = "foldl (genpoly_inner rs root) (g[i + 1 := 1]) (rev [1..<i + 1])"
  let ?g' = "?g1[0 := (xt ^^ nat root) (h ! 0)]"
  have h: "h ! j = g ! j" if "j \<le> i" for j using g(1) that by auto
  have len: "length ?g1 = length g" using genpoly_inner_fold [OF rs(1,2), of i ?g] g(3) by simp
  have nth: "?g1 ! j = (if 1 \<le> j \<and> j \<le> i then h ! (j - 1) XOR (xt ^^ nat root) (h ! j) else ?g ! j)"
    if "j \<le> i + 1" for j
    using genpoly_inner_fold [OF rs(1,2), of i ?g] g(3) that h by (auto simp: nth_list_update)
  have "?g1 ! 0 = h ! 0" using nth [of 0] h [of 0] by simp
  then have step: "genpoly_step rs (g, root) i = (?g', root + rs_prim rs)"
    using table_mul_root [OF rs(1) g(5) rs(2)] by (simp add: genpoly_step_def Let_def)
  have "take (i + 2) ?g' = gen_mul (nat root) h"
  proof (rule nth_equalityI)
    show "length (take (i + 2) ?g') = length (gen_mul (nat root) h)" using len g by simp
    fix j assume "j < length (take (i + 2) ?g')"
    then have j: "j \<le> i + 1" "j < length ?g1" using len g by auto
    have m: "gen_mul (nat root) h ! j = (0 # h) ! j XOR (map (xt ^^ nat root) h @ [0]) ! j"
      using j g(2) by (simp add: gen_mul_def)
    have last: "h ! i = 1" using g(2,4) by (metis Suc_eq_plus1 diff_Suc_1 last_conv_nth list.size(3) nat.distinct(1))
    show "take (i + 2) ?g' ! j = gen_mul (nat root) h ! j"
      unfolding m using j nth [OF j(1)] last g(2,3) h
      by (auto simp: nth_Cons' nth_append nth_list_update)
  qed
  then show ?thesis using step len by simp
qed

text \<open>The roots of the generator polynomial, as exponents of the primitive element.\<close>

definition rs_root :: "rs \<Rightarrow> nat \<Rightarrow> nat" where
  "rs_root rs i = nat ((rs_fcr rs + int i) * rs_prim rs)"

definition gen_poly :: "rs \<Rightarrow> nat \<Rightarrow> bytes" where
  "gen_poly rs n = foldl (\<lambda>h i. gen_mul (rs_root rs i) h) [1] [0..<n]"

lemma gen_poly_simps [simp]:
  "gen_poly rs 0 = [1]" "gen_poly rs (Suc n) = gen_mul (rs_root rs n) (gen_poly rs n)"
  by (simp_all add: gen_poly_def)

lemma gen_poly_shape:
  "length (gen_poly rs n) = n + 1" "last (gen_poly rs n) = 1" "gen_poly rs n ! 0 \<noteq> 0"
proof (induction n)
  case (Suc n)
  have ne: "gen_poly rs n \<noteq> []" using Suc(1) by auto
  {
    case 1 show ?case using Suc by simp
  next
    case 2 show ?case using Suc gen_mul_ends(2) [OF ne] by simp
  next
    case 3
    have "(xt ^^ rs_root rs n) (gen_poly rs n ! 0) \<noteq> 0"
      using Suc(3) xtn_inj [of "rs_root rs n" "gen_poly rs n ! 0" 0] by simp
    then show ?case using gen_mul_ends(1) [OF ne] by simp
  }
qed simp_all

lemma gen_poly_roots: "k < n \<Longrightarrow> peval (rs_root rs k) (gen_poly rs n) = 0"
  by (induction n) (auto simp: peval_gen_mul less_Suc_eq)

lemma rs_poly_genpoly_eq:
  assumes "gf256 rs" "0 \<le> rs_fcr rs" "0 \<le> rs_prim rs"
  shows "rs_poly_genpoly rs = gen_poly rs (nat (rs_nroots rs))"
proof -
  let ?n = "nat (rs_nroots rs)" and ?st = "((replicate (nat (rs_nroots rs) + 1) 0)[0 := 1], rs_fcr rs * rs_prim rs)"
  have "\<exists>g. foldl (genpoly_step rs) ?st [0..<m] = (g, (rs_fcr rs + int m) * rs_prim rs)
      \<and> length g = ?n + 1 \<and> take (m + 1) g = gen_poly rs m" if "m \<le> ?n" for m
    using that
  proof (induction m)
    case (Suc m)
    then obtain g where g: "foldl (genpoly_step rs) ?st [0..<m] = (g, (rs_fcr rs + int m) * rs_prim rs)"
      "length g = ?n + 1" "take (m + 1) g = gen_poly rs m" by auto
    obtain g' where "genpoly_step rs (g, (rs_fcr rs + int m) * rs_prim rs) m
        = (g', (rs_fcr rs + int m) * rs_prim rs + rs_prim rs)" "length g' = length g"
        "take (m + 2) g' = gen_mul (rs_root rs m) (gen_poly rs m)"
      using genpoly_step_gen_mul [OF assms(1) _ assms(3) g(3) gen_poly_shape(1)
          _ gen_poly_shape(2,3), of "(rs_fcr rs + int m) * rs_prim rs"] Suc.prems g(2) assms(2,3)
      by (auto simp: rs_root_def)
    then show ?case using g by (simp add: algebra_simps)
  qed simp
  from this [of ?n] show ?thesis by (auto simp: rs_poly_genpoly_def)
qed

subsection \<open>The encoder\<close>

text \<open>A control block as \<open>init_rs\<close> builds it over this field, whose generator has no zero
  coefficient (the encoder has no case for one).\<close>

definition rs_ok :: "rs \<Rightarrow> bool" where
  "rs_ok rs \<longleftrightarrow> gf256 rs \<and> 0 \<le> rs_fcr rs \<and> 0 < rs_prim rs \<and> 1 \<le> rs_nroots rs
     \<and> 0 \<le> rs_pad rs \<and> rs_pad rs + rs_nroots rs < 255
     \<and> rs_genpoly rs = map (gf_log rs) (gen_poly rs (nat (rs_nroots rs)))
     \<and> 0 \<notin> set (gen_poly rs (nat (rs_nroots rs)))"

definition feedback_mul :: "rs \<Rightarrow> byte \<Rightarrow> byte \<Rightarrow> byte" where
  "feedback_mul rs f v = (if f = 0 then 0 else (xt ^^ unat (gf_log rs f)) v)"

lemma feedback_mul_0 [simp]: "map (feedback_mul rs 0) vs = replicate (length vs) 0"
  by (induction vs) (simp_all add: feedback_mul_def)

lemma encode_step_poly:
  assumes ok: "rs_ok rs" and n: "n = nat (rs_nroots rs)" "length p = n"
  shows "encode_step rs p d = map2 (XOR) (tl p @ [0])
    (map (feedback_mul rs (d XOR p ! 0)) (rev (butlast (gen_poly rs n))))"
proof -
  let ?f = "d XOR p ! 0" and ?G = "gen_poly rs n"
  have g: "gf256 rs" "1 \<le> n" using ok n by (auto simp: rs_ok_def)
  have len: "length ?G = n + 1" by (rule gen_poly_shape)
  show ?thesis
  proof (cases "?f = 0")
    case True
    have "gf_log rs 0 = 255" "rs_nn rs = 255" using gf256_tables(1,5) [OF g(1)] by auto
    then have "encode_step rs p d = tl p @ [0]"
      using True by (simp add: encode_step_def gf_log_def Let_def)
    also have "\<dots> = map2 (XOR) (tl p @ [0]) (replicate n 0)"
      by (rule nth_equalityI) (use n g(2) in \<open>auto simp: nth_append\<close>)
    also have "replicate n 0 = map (feedback_mul rs ?f) (rev (butlast ?G))"
      using True len by simp
    finally show ?thesis .
  next
    case False
    let ?e = "int (unat (rs_index_of rs ! unat ?f))"
    have e: "?e \<noteq> rs_nn rs"
    proof -
      have "gf_log rs ?f \<noteq> 255" using table_mul(2) [OF g(1) False] .
      then have "unat (gf_log rs ?f) \<noteq> unat (255 :: byte)" by (simp only: word_unat_eq_iff [symmetric] not_False_eq_True)
      moreover have "unat (255 :: byte) = 255" by simp
      ultimately have "int (unat (gf_log rs ?f)) \<noteq> 255" by linarith
      then show ?thesis unfolding gf256_tables(5) [OF g(1)] gf_log_def .
    qed
    have mul: "rs_alpha_to rs ! nat (modnn rs (?e + int (unat (rs_genpoly rs ! k)))) = feedback_mul rs ?f (?G ! k)"
      if "k \<le> n" for k
    proof -
      have nz: "?G ! k \<noteq> 0" using ok that len n(1) by (metis rs_ok_def Suc_eq_plus1 less_Suc_eq_le nth_mem)
      have "rs_genpoly rs ! k = gf_log rs (?G ! k)" using ok that len n(1) by (simp add: rs_ok_def)
      then show ?thesis
        using table_mul(1) [OF g(1) nz, of "unat (gf_log rs ?f)"] False
        by (simp add: gf_exp_def gf_log_def feedback_mul_def add.commute)
    qed
    have "encode_step rs p d = tl (map (\<lambda>j. if j = 0 then p ! 0 else p ! j XOR feedback_mul rs ?f (?G ! (n - j))) [0..<n])
        @ [feedback_mul rs ?f (?G ! 0)]"
      unfolding encode_step_def Let_def n(1) [symmetric]
      using e mul by (simp only: if_True not_False_eq_True simp_thms diff_le_self le0 cong: map_cong)
    also have "\<dots> = map2 (XOR) (tl p @ [0]) (map (feedback_mul rs ?f) (rev (butlast ?G)))"
    proof (rule nth_equalityI)
      fix j assume "j < length (tl (map (\<lambda>j. if j = 0 then p ! 0 else p ! j XOR feedback_mul rs ?f (?G ! (n - j))) [0..<n])
        @ [feedback_mul rs ?f (?G ! 0)])"
      then have j: "j < n" using g(2) by simp
      show "(tl (map (\<lambda>j. if j = 0 then p ! 0 else p ! j XOR feedback_mul rs ?f (?G ! (n - j))) [0..<n])
        @ [feedback_mul rs ?f (?G ! 0)]) ! j = map2 (XOR) (tl p @ [0]) (map (feedback_mul rs ?f) (rev (butlast ?G))) ! j"
        using j g(2) n(2) len
        by (cases "j = n - 1") (auto simp: nth_append nth_tl rev_nth nth_butlast)
    qed (use g(2) n(2) len in auto)
    finally show ?thesis .
  qed
qed

lemma encode_step_length:
  "rs_ok rs \<Longrightarrow> length p = nat (rs_nroots rs) \<Longrightarrow> length (encode_step rs p d) = nat (rs_nroots rs)"
  using encode_step_poly [of rs _ p d, OF _ refl] by (auto simp: gen_poly_shape rs_ok_def)

lemma horner_tl: "p \<noteq> [] \<Longrightarrow> horner r 0 p = (xt ^^ (r * (length p - 1))) (p ! 0) XOR horner r 0 (tl p)"
  by (cases p) (simp_all, rule horner_from)

text \<open>Feeding one symbol: the register holds the remainder, evaluated at every root of the generator.\<close>

lemma encode_step_horner:
  assumes ok: "rs_ok rs" and n: "n = nat (rs_nroots rs)" "length p = n" and root: "peval r (gen_poly rs n) = 0"
  shows "horner r 0 (encode_step rs p d) = (xt ^^ r) (horner r 0 p) XOR (xt ^^ (r * n)) d"
proof -
  let ?f = "d XOR p ! 0" and ?G = "gen_poly rs n"
  have g: "gf256 rs" "1 \<le> n" using ok n by (auto simp: rs_ok_def)
  have "?G = butlast ?G @ [1]"
    using gen_poly_shape(1,2) [of rs n] by (metis append_butlast_last_id list.size(3) add_is_0 zero_neq_one)
  then have "rev ?G = 1 # rev (butlast ?G)" by (metis rev.simps(2) rev_append rev_rev_ident append_Cons append_Nil rev_singleton_conv)
  then have "horner r 0 (1 # rev (butlast ?G)) = 0" using root horner_rev [of r ?G] by metis
  then have "(xt ^^ (r * n)) 1 XOR horner r 0 (rev (butlast ?G)) = 0"
    using horner_from [of r 1 "rev (butlast ?G)"] gen_poly_shape(1) [of rs n] by simp
  then have G: "horner r 0 (rev (butlast ?G)) = (xt ^^ (r * n)) 1" by (metis xor_right_cancel xor_self_eq)
  have fb: "horner r 0 (map (feedback_mul rs ?f) (rev (butlast ?G))) = (xt ^^ (r * n)) ?f"
  proof (cases "?f = 0")
    case True
    then show ?thesis using horner_zeros [of r n] gen_poly_shape(1) [of rs n] by simp
  next
    case False
    let ?k = "unat (gf_log rs ?f)"
    have "horner r 0 (map (feedback_mul rs ?f) (rev (butlast ?G))) = (xt ^^ ?k) ((xt ^^ (r * n)) 1)"
      using horner_map [of r ?k 0 "rev (butlast ?G)"] G False by (simp add: feedback_mul_def fun_eq_iff cong: map_cong)
    also have "\<dots> = (xt ^^ (r * n)) (pw ?k)" by (simp add: pw_def xtn_add add.commute)
    finally show ?thesis using table_mul(3) [OF g(1) False] by simp
  qed
  have p: "horner r 0 p = (xt ^^ (r * (n - 1))) (p ! 0) XOR horner r 0 (tl p)"
    using horner_tl [of p r] n(2) g(2) by (metis One_nat_def le_zero_eq list.size(3) nat.distinct(1))
  have rn: "r + r * (n - 1) = r * n" using g(2) by (cases n) auto
  have "horner r 0 (encode_step rs p d) = horner r 0 (tl p @ [0]) XOR (xt ^^ (r * n)) ?f"
    unfolding encode_step_poly [OF ok n] fb [symmetric]
    using horner_xor [of "tl p @ [0]" "map (feedback_mul rs ?f) (rev (butlast ?G))" r 0 0] n g(2) gen_poly_shape(1) [of rs n]
    by simp
  also have "horner r 0 (tl p @ [0]) = (xt ^^ r) (horner r 0 (tl p))" by simp
  also have "\<dots> = (xt ^^ r) (horner r 0 p) XOR (xt ^^ (r * n)) (p ! 0)"
    unfolding p xtn_xor xtn_add rn by (simp only: xor_around)
  finally show ?thesis by (simp add: xtn_xor ac_simps xor.left_commute)
qed


lemma encode_horner:
  assumes ok: "rs_ok rs" and n: "n = nat (rs_nroots rs)" "length p = n" and root: "peval r (gen_poly rs n) = 0"
  shows "length (foldl (encode_step rs) p ds) = n \<and> horner r 0 (foldl (encode_step rs) p ds)
    = (xt ^^ (r * length ds)) (horner r 0 p) XOR (xt ^^ (r * n)) (horner r 0 ds)"
  using n(2)
proof (induction ds arbitrary: p)
  case (Cons d ds)
  have "horner r 0 (foldl (encode_step rs) (encode_step rs p d) ds)
      = (xt ^^ (r * length ds)) ((xt ^^ r) (horner r 0 p) XOR (xt ^^ (r * n)) d) XOR (xt ^^ (r * n)) (horner r 0 ds)"
    using Cons.IH [of "encode_step rs p d"] encode_step_length [OF ok] encode_step_horner [OF ok n(1) Cons.prems root]
      n(1) Cons.prems by simp
  also have "\<dots> = (xt ^^ (r * length (d # ds))) (horner r 0 p)
      XOR (xt ^^ (r * n)) ((xt ^^ (r * length ds)) d XOR horner r 0 ds)"
    by (simp add: xtn_xor xtn_add algebra_simps ac_simps)
  also have "(xt ^^ (r * length ds)) d XOR horner r 0 ds = horner r 0 (d # ds)"
    using horner_from [of r d ds] by simp
  finally show ?case
    using Cons.IH [of "encode_step rs p d"] encode_step_length [OF ok] n(1) Cons.prems by simp
qed simp

lemma syndrome_horner:
  assumes "gf256 rs" "0 \<le> rs_fcr rs" "0 \<le> rs_prim rs" "data \<noteq> []" "length data = nat (rs_nn rs - rs_pad rs)"
  shows "syndrome rs data i = horner (rs_root rs i) 0 data"
proof -
  let ?e = "(rs_fcr rs + int i) * rs_prim rs"
  have "?e = int (nat ?e)" using assms(2,3) by simp
  then have "syndrome_step rs i s d = d XOR (xt ^^ rs_root rs i) s" for s d
    using table_mul(1) [OF assms(1), of s "nat ?e"] by (simp add: syndrome_step_def rs_root_def)
  then have "syndrome_step rs i = (\<lambda>s d. d XOR (xt ^^ rs_root rs i) s)" by (simp add: fun_eq_iff)
  then have "syndrome rs data i = horner (rs_root rs i) (data ! 0) (tl data)"
    using assms(5) by (simp add: syndrome_def horner_def)
  also have "\<dots> = horner (rs_root rs i) 0 data" using assms(4) by (cases data) simp_all
  finally show ?thesis .
qed

text \<open>What the encoder appends makes all syndromes vanish.\<close>

lemma encode_zero_syndromes:
  assumes ok: "rs_ok rs" and len: "length data = nat (255 - rs_nroots rs - rs_pad rs)"
  shows "\<exists>parity. encode_rs_char rs data = Inr parity \<and> length parity = nat (rs_nroots rs)
    \<and> (\<forall>i < nat (rs_nroots rs). syndrome rs (data @ parity) i = 0)"
proof -
  let ?n = "nat (rs_nroots rs)"
  let ?p = "foldl (encode_step rs) (replicate ?n 0) data"
  have g: "gf256 rs" "rs_nn rs = 255" "1 \<le> ?n" "0 \<le> rs_fcr rs" "0 \<le> rs_prim rs"
    "0 \<le> rs_pad rs" "rs_pad rs + rs_nroots rs < 255" "1 \<le> rs_nroots rs"
    using ok by (auto simp: rs_ok_def gf256_def)
  have e: "encode_rs_char rs data = Inr ?p" using g len by (simp add: encode_rs_char_def Let_def)
  have roots: "length ?p = ?n \<and> horner (rs_root rs i) 0 ?p = (xt ^^ (rs_root rs i * ?n)) (horner (rs_root rs i) 0 data)"
    if "i < ?n" for i
    using encode_horner [OF ok refl _ gen_poly_roots [OF that], of "replicate ?n 0" data] horner_zeros
    by simp
  then have pl: "length ?p = ?n" using g(3) by (metis One_nat_def Suc_le_eq)
  have "syndrome rs (data @ ?p) i = 0" if "i < ?n" for i
  proof -
    have "length (data @ ?p) = nat (rs_nn rs - rs_pad rs)" using len pl g by simp
    moreover have "data @ ?p \<noteq> []" using pl g(3) by auto
    ultimately have "syndrome rs (data @ ?p) i = horner (rs_root rs i) 0 (data @ ?p)"
      using syndrome_horner [OF g(1,4,5)] by blast
    also have "\<dots> = (xt ^^ (rs_root rs i * ?n)) (horner (rs_root rs i) 0 data) XOR horner (rs_root rs i) 0 ?p"
      using horner_from [of "rs_root rs i" "horner (rs_root rs i) 0 data" ?p] pl by simp
    finally show ?thesis using roots [OF that] by simp
  qed
  then show ?thesis using e pl by blast
qed

subsection \<open>Distance\<close>

definition xsum :: "(nat \<Rightarrow> byte) \<Rightarrow> nat list \<Rightarrow> byte" where
  "xsum f ks = foldr (\<lambda>k a. f k XOR a) ks 0"

lemma xsum_simps [simp]: "xsum f [] = 0" "xsum f (k # ks) = f k XOR xsum f ks"
  by (simp_all add: xsum_def)

lemma xsum_xor: "xsum (\<lambda>k. f k XOR g k) ks = xsum f ks XOR xsum g ks"
  by (induction ks) (simp_all add: ac_simps xor.left_commute)

lemma xsum_xtn: "xsum (\<lambda>k. (xt ^^ n) (f k)) ks = (xt ^^ n) (xsum f ks)"
  by (induction ks) (simp_all add: xtn_xor)

lemma xsum_filter: "(\<And>k. k \<in> set ks \<Longrightarrow> \<not> P k \<Longrightarrow> f k = 0) \<Longrightarrow> xsum f (filter P ks) = xsum f ks"
  by (induction ks) auto

lemma xsum_zero: "(\<And>k. k \<in> set ks \<Longrightarrow> f k = 0) \<Longrightarrow> xsum f ks = 0"
  by (induction ks) auto

lemma xsum_cong: "(\<And>k. k \<in> set ks \<Longrightarrow> f k = g k) \<Longrightarrow> xsum f ks = xsum g ks"
  by (induction ks) auto

lemma xtn_eq_imp_zero:
  assumes "(xt ^^ m) v = (xt ^^ n) v" "m mod 255 \<noteq> n mod 255"
  shows "v = 0"
proof (rule ccontr)
  assume "v \<noteq> 0"
  then obtain k where "pw k = v" using pw_surj by blast
  then have "pw (m + k) = pw (n + k)" using assms(1) unfolding pw_def xtn_add [symmetric] by simp
  then have "pw ((m + k) mod 255) = pw ((n + k) mod 255)" by (simp add: pw_mod)
  then have "(m + k) mod 255 = (n + k) mod 255" using inj_onD [OF pw_inj] by simp
  then have "int (m + k) mod 255 = int (n + k) mod 255" by (metis of_nat_numeral zmod_int)
  then have "int m mod 255 = int n mod 255"
    using mod_diff_cong [of "int (m + k)" 255 "int (n + k)" "int k" "int k"] by simp
  then show False using assms(2) by (metis of_nat_eq_iff of_nat_numeral zmod_int)
qed

text \<open>Few unknowns, as many consecutive powers: only the zero solution.\<close>

lemma vandermonde:
  assumes "distinct (map (\<lambda>k. x k mod 255) ks)"
    and "\<And>j. j < length ks \<Longrightarrow> xsum (\<lambda>k. (xt ^^ (x k * j)) (g k)) ks = 0"
  shows "\<forall>k \<in> set ks. g k = 0"
  using assms
proof (induction ks arbitrary: g)
  case (Cons k0 ks)
  let ?g = "\<lambda>k. (xt ^^ x k) (g k) XOR (xt ^^ x k0) (g k)"
  have "xsum (\<lambda>k. (xt ^^ (x k * j)) (?g k)) ks = 0" if "j < length ks" for j
  proof -
    let ?S = "\<lambda>j. xsum (\<lambda>k. (xt ^^ (x k * j)) (g k)) ks"
    have s: "(xt ^^ (x k0 * j)) (g k0) XOR ?S j = 0" "(xt ^^ (x k0 * Suc j)) (g k0) XOR ?S (Suc j) = 0"
      using Cons.prems(2) [of j] Cons.prems(2) [of "Suc j"] that by auto
    have "xsum (\<lambda>k. (xt ^^ (x k * j)) (?g k)) ks = ?S (Suc j) XOR (xt ^^ x k0) (?S j)"
      unfolding xsum_xtn [symmetric] xsum_xor [symmetric] by (simp add: xtn_xor xtn_add algebra_simps)
    also have "?S (Suc j) = (xt ^^ (x k0 * Suc j)) (g k0)" using s(2) by (simp only: xor_zero_iff)
    also have "?S j = (xt ^^ (x k0 * j)) (g k0)" using s(1) by (simp only: xor_zero_iff)
    finally show ?thesis by (simp add: xtn_add)
  qed
  then have "\<forall>k \<in> set ks. ?g k = 0" using Cons.IH [of ?g] Cons.prems(1) by simp
  then have "\<forall>k \<in> set ks. (xt ^^ x k) (g k) = (xt ^^ x k0) (g k)" by (simp only: xor_zero_iff)
  moreover have "x k mod 255 \<noteq> x k0 mod 255" if "k \<in> set ks" for k
  proof
    assume "x k mod 255 = x k0 mod 255"
    then have "x k0 mod 255 \<in> (\<lambda>k. x k mod 255) ` set ks" using that by (metis (mono_tags) image_eqI)
    then show False using Cons.prems(1) by simp
  qed
  ultimately have z: "\<forall>k \<in> set ks. g k = 0" using xtn_eq_imp_zero by blast
  then have "xsum (\<lambda>k. (xt ^^ (x k * 0)) (g k)) ks = 0" by (intro xsum_zero) simp
  then show ?case using Cons.prems(2) [of 0] z by simp
qed simp


lemma horner_xsum: "horner r 0 ds = xsum (\<lambda>i. (xt ^^ (r * (length ds - 1 - i))) (ds ! i)) [0..<length ds]"
proof (induction ds)
  case (Cons d ds)
  have "horner r 0 (d # ds) = (xt ^^ (r * length ds)) d XOR horner r 0 ds"
    using horner_from [of r d ds] by simp
  also have "\<dots> = xsum (\<lambda>i. (xt ^^ (r * (length (d # ds) - 1 - i))) ((d # ds) ! i)) (0 # map Suc [0..<length ds])"
    unfolding Cons.IH by (simp add: xsum_def foldr_map comp_def)
  also have "0 # map Suc [0..<length ds] = [0..<length (d # ds)]" 
    by (simp add: map_Suc_upt upt_conv_Cons del: upt_Suc)
  finally show ?case .
qed (simp add: horner_def)

lemma mult_mod_inj:
  assumes "coprime p (255 :: nat)" "a < 255" "b < 255" "(p * a) mod 255 = (p * b) mod 255"
  shows "a = b"
proof -
  have "255 dvd int p * (int a - int b)"
    using assms(4) by (metis mod_eq_dvd_iff of_nat_mult of_nat_numeral right_diff_distrib zmod_int)
  moreover have "coprime (255 :: int) (int p)"
    using assms(1) by (metis coprime_commute coprime_int_iff of_nat_numeral)
  ultimately have "255 dvd int a - int b" by (simp add: coprime_dvd_mult_right_iff)
  then obtain k where k: "int a - int b = 255 * k" by (auto simp: dvd_def)
  then have "k < 1" "-1 < k" using assms(2,3) by linarith+
  then show ?thesis using k by simp
qed

text \<open>A non-zero word with at most \<open>n\<close> non-zero symbols does not vanish at \<open>n\<close> consecutive roots.\<close>

lemma min_distance:
  assumes "coprime p (255 :: nat)" "length ds \<le> 255" "length (filter (\<lambda>d. d \<noteq> 0) ds) \<le> n"
    and "\<And>j. j < n \<Longrightarrow> horner ((f + j) * p) 0 ds = 0"
  shows "\<forall>d \<in> set ds. d = 0"
proof -
  let ?L = "length ds" and ?P = "\<lambda>i. ds ! i \<noteq> 0"
  let ?ks = "filter ?P [0..<?L]" and ?x = "\<lambda>i. p * (?L - 1 - i)"
  let ?g = "\<lambda>i. (xt ^^ (f * p * (?L - 1 - i))) (ds ! i)"
  have "filter (\<lambda>d. d \<noteq> 0) ds = map ((!) ds) ?ks"
    using filter_map [of "\<lambda>d. d \<noteq> 0" "(!) ds" "[0..<?L]"] by (simp add: map_nth comp_def)
  then have few: "length ?ks \<le> n" using assms(3) by simp
  have "\<forall>k \<in> set ?ks. ?g k = 0"
  proof (rule vandermonde)
    have "inj_on (\<lambda>i. ?x i mod 255) (set ?ks)"
    proof (rule inj_onI)
      fix i j assume ij: "i \<in> set ?ks" "j \<in> set ?ks" "?x i mod 255 = ?x j mod 255"
      have "?L - 1 - i < 255" "?L - 1 - j < 255" using ij(1,2) assms(2) by auto
      then have "?L - 1 - i = ?L - 1 - j" using mult_mod_inj [OF assms(1) _ _ ij(3)] by simp
      then show "i = j" using ij by auto
    qed
    then show "distinct (map (\<lambda>k. ?x k mod 255) ?ks)" by (simp add: distinct_map)
    fix j assume "j < length ?ks"
    then have "horner ((f + j) * p) 0 ds = 0" using assms(4) few by simp
    moreover have "xsum (\<lambda>i. (xt ^^ (?x i * j)) (?g i)) ?ks = xsum (\<lambda>i. (xt ^^ (?x i * j)) (?g i)) [0..<?L]"
      by (rule xsum_filter) simp
    moreover have "\<dots> = horner ((f + j) * p) 0 ds"
      unfolding horner_xsum by (rule xsum_cong) (simp add: xtn_add algebra_simps)
    ultimately show "xsum (\<lambda>k. (xt ^^ (?x k * j)) (?g k)) ?ks = 0" by simp
  qed
  then have "?ks = []" using xtn_inj [where b = 0] by (force simp: filter_empty_conv)
  then show ?thesis by (auto simp: filter_empty_conv in_set_conv_nth)
qed

subsection \<open>The search for the root of one\<close>

lemma iprim_loop_result:
  assumes "iprim_loop prim nn x = Some y"
  shows "crem y prim = 0 \<and> (\<exists>m. y = x + nn * int m)"
proof (rule iprim_loop.raw_induct [where P = "\<lambda>prim nn x y. crem y prim = 0 \<and> (\<exists>m. y = x + nn * int m)", OF _ assms], goal_cases)
  case (1 loop prim nn x y)
  show ?case
  proof (cases "crem x prim = 0")
    case True
    then show ?thesis using 1(2) by (auto intro: exI [of _ 0])
  next
    case False
    then obtain m where "crem y prim = 0" "y = x + nn + nn * int m" 
      using 1(1) [of prim nn "x + nn" y] 1(2) by auto
    then show ?thesis by (intro conjI exI [of _ "Suc m"]) (simp_all add: algebra_simps)
  qed
qed

lemma iprim_loop_steps:
  assumes "crem (x + nn * int m) prim = 0"
  shows "\<exists>y. iprim_loop prim nn x = Some y"
  using assms
proof (induction m arbitrary: x)
  case 0
  then show ?case by (subst iprim_loop.simps) simp
next
  case (Suc m)
  then have "\<exists>y. iprim_loop prim nn (x + nn) = Some y" by (simp add: algebra_simps)
  then show ?case by (subst iprim_loop.simps) simp
qed

lemma crem_dvd: "0 \<le> x \<Longrightarrow> 0 < p \<Longrightarrow> crem x p = 0 \<longleftrightarrow> p dvd x"
  by (simp add: crem_nonneg dvd_eq_mod_eq_0)

lemma iprim_loop_coprime:
  assumes "0 < prim"
  shows "(\<exists>y. iprim_loop prim 255 1 = Some y) \<longleftrightarrow> coprime prim 255"
proof
  assume "\<exists>y. iprim_loop prim 255 1 = Some y"
  then obtain y m where y: "crem y prim = 0" "y = 1 + 255 * int m" using iprim_loop_result by blast
  then have d: "prim dvd 1 + 255 * int m" using crem_dvd [of y prim] assms by simp
  show "coprime prim 255"
  proof (rule coprimeI)
    fix c assume "c dvd prim" "c dvd 255"
    then have "c dvd 1 + 255 * int m" "c dvd 255 * int m" using d by (auto intro: dvd_trans)
    then show "is_unit c" using dvd_add_left_iff by blast
  qed
next
  assume c: "coprime prim 255"
  then obtain u v where uv: "u * prim + v * 255 = 1" using bezout_int [of prim 255] by auto
  define m where "m = nat ((- v) mod prim)"
  have m: "int m = (- v) mod prim" using assms by (simp add: m_def)
  have "(1 + 255 * int m) mod prim = (1 + 255 * (- v)) mod prim"
    unfolding m by (metis mod_add_right_eq mod_mult_right_eq)
  also have "1 + 255 * (- v) = u * prim" using uv by simp
  finally have "prim dvd 1 + 255 * int m" by (simp add: mod_0_imp_dvd)
  then have "crem (1 + 255 * int m) prim = 0" using crem_dvd assms by simp
  then show "\<exists>y. iprim_loop prim 255 1 = Some y" by (rule iprim_loop_steps)
qed


subsection \<open>Properties\<close>

lemma init_rs_char_cases:
  assumes "init_rs_char 8 0x11d fcr prim nroots pad = Some (Some rs)"
  shows "gf256 rs \<and> rs_nroots rs = nroots \<and> rs_pad rs = pad \<and> rs_fcr rs = fcr \<and> rs_prim rs = prim
    \<and> 0 \<le> fcr \<and> 0 < prim \<and> 0 \<le> nroots \<and> 0 \<le> pad \<and> pad + nroots < 255 \<and> coprime prim 255
    \<and> rs_genpoly rs = map (gf_log rs) (gen_poly rs (nat nroots))"
proof -
  obtain io al where tab: "rs_tables 8 0x11d = (1, io, al)" by (rule rs_tables_gf)
  let ?r = "\<lambda>ip. \<lparr>rs_mm = 8, rs_nn = 255, rs_alpha_to = al, rs_index_of = io, rs_genpoly = [],
        rs_nroots = nroots, rs_fcr = fcr, rs_prim = prim, rs_iprim = ip div prim, rs_pad = pad\<rparr>"
  obtain ip where ip: "rs = (?r ip)\<lparr>rs_genpoly := map (\<lambda>g. io ! unat g) (rs_poly_genpoly (?r ip))\<rparr>"
    "0 \<le> fcr" "0 < prim" "0 \<le> pad" "pad < 255 - nroots" "0 \<le> nroots" "iprim_loop prim 255 1 = Some ip"
    using assms(1) tab by (auto simp: init_rs_char_def Let_def split: if_splits option.splits)
  have g: "gf256 (?r ip)" "gf256 rs" using tab ip by (simp_all add: gf256_def)
  have "rs_poly_genpoly (?r ip) = gen_poly (?r ip) (nat nroots)" using rs_poly_genpoly_eq [OF g(1)] ip by simp
  moreover have "gen_poly (?r ip) = gen_poly rs" using ip by (simp add: gen_poly_def rs_root_def fun_eq_iff)
  moreover have "gf_log rs = (\<lambda>g. io ! unat g)" using ip by (simp add: gf_log_def fun_eq_iff)
  ultimately have "rs_genpoly rs = map (gf_log rs) (gen_poly rs (nat nroots))" using ip(1) by simp
  moreover have "coprime prim 255" using iprim_loop_coprime [OF ip(3)] ip(7) by blast
  ultimately show ?thesis using g ip by simp
qed

text \<open>The generator has no zero coefficient: it is a codeword of least weight.\<close>

lemma rs_root_nat: "0 \<le> rs_fcr rs \<Longrightarrow> 0 \<le> rs_prim rs \<Longrightarrow>
    rs_root rs j = (nat (rs_fcr rs) + j) * nat (rs_prim rs)"
  by (simp add: rs_root_def nat_mult_distrib nat_add_distrib)

lemma coprime_nat: "0 < p \<Longrightarrow> coprime p 255 \<Longrightarrow> coprime (nat p) 255"
  by (metis coprime_int_iff int_nat_eq less_imp_le of_nat_numeral)

lemma gen_poly_nonzero:
  assumes "0 \<le> rs_fcr rs" "0 < rs_prim rs" "coprime (rs_prim rs) 255" "n < 255"
  shows "0 \<notin> set (gen_poly rs n)"
proof
  assume z: "0 \<in> set (gen_poly rs n)"
  let ?ds = "rev (gen_poly rs n)"
  have len: "length ?ds = n + 1" by (simp add: gen_poly_shape)
  have "length (filter (\<lambda>d. d \<noteq> 0) ?ds) < length ?ds"
    using z by (intro length_filter_less [of 0]) auto
  then have "length (filter (\<lambda>d. d \<noteq> 0) ?ds) \<le> n" using len by simp
  moreover have "horner ((nat (rs_fcr rs) + j) * nat (rs_prim rs)) 0 ?ds = 0" if "j < n" for j
    using gen_poly_roots [OF that, of rs] rs_root_nat [of rs j] assms by (simp add: horner_rev)
  ultimately have "\<forall>d \<in> set ?ds. d = 0"
    using min_distance [OF coprime_nat [OF assms(2,3)], of ?ds n "nat (rs_fcr rs)"] len assms(4) by simp
  moreover have "1 \<in> set ?ds" using gen_poly_shape(2) [of rs n] len
    by (metis last_in_set length_0_conv length_rev set_rev Suc_eq_plus1 nat.distinct(1))
  ultimately show False by auto
qed

lemma init_rs_ok:
  assumes "init_rs_char 8 0x11d fcr prim nroots pad = Some (Some rs)" "1 \<le> nroots"
  shows "rs_ok rs"
proof -
  note i = init_rs_char_cases [OF assms(1)]
  then have "nat nroots < 255" by linarith
  then show ?thesis using i assms(2) gen_poly_nonzero [of rs "nat nroots"] by (simp add: rs_ok_def)
qed

text \<open>C17: encoded blocks are codewords. For every code that \<open>init_rs_char\<close> builds over the field with
  polynomial \<open>0x11d\<close>, and every data block of the code's length, the encoder returns \<open>nroots\<close>
  parity symbols, and the decoder, run on data and parity (with any erasure positions), finds no
  error, returns 0 and changes nothing.\<close>

theorem encode_decode_clean:
  assumes "init_rs_char 8 0x11d fcr prim nroots pad = Some (Some rs)" "1 \<le> nroots"
    and "length data = nat (255 - nroots - pad)"
    and "case eras of None \<Rightarrow> no_eras = 0 | Some e \<Rightarrow> no_eras \<le> length e" "no_eras \<le> nat nroots"
  shows "\<exists>parity. encode_rs_char rs data = Inr parity \<and> length parity = nat nroots
    \<and> decode_rs_char rs (data @ parity) eras no_eras = Inr (0, data @ parity, eras)"
proof -
  note i = init_rs_char_cases [OF assms(1)]
  have nn: "rs_nn rs = 255" using i by (simp add: gf256_def)
  obtain parity where p: "encode_rs_char rs data = Inr parity" "length parity = nat nroots"
    "\<And>k. k < nat nroots \<Longrightarrow> syndrome rs (data @ parity) k = 0"
    using encode_zero_syndromes [OF init_rs_ok [OF assms(1,2)], of data] assms(3) i by auto
  have "list_all (\<lambda>v. v = 0) (map (syndrome rs (data @ parity)) [0..<nat nroots])"
    using p(3) by (simp add: list_all_iff)
  moreover have "\<not> length (data @ parity) < nat (rs_nn rs - rs_pad rs)"
    using assms(2,3) p(2) i nn by simp
  moreover have "\<not> length (case eras of None \<Rightarrow> [] | Some e \<Rightarrow> take no_eras e) < no_eras"
    using assms(4) by (auto split: option.splits)
  ultimately have "decode_rs_char rs (data @ parity) eras no_eras = Inr (0, data @ parity, eras)"
    using assms(5) i by (simp add: decode_rs_char_def Let_def)
  then show ?thesis using p by blast
qed

lemma init_rs_char_8:
  "init_rs_char 8 0x11d fcr prim nroots pad =
    (if 0 \<le> fcr \<and> fcr < 256 \<and> 0 < prim \<and> prim < 256 \<and> 0 \<le> nroots \<and> 0 \<le> pad \<and> pad + nroots < 255
     then (if coprime prim 255 then init_rs_char 8 0x11d fcr prim nroots pad else None) else Some None)
   \<and> (0 \<le> fcr \<and> fcr < 256 \<and> 0 < prim \<and> prim < 256 \<and> 0 \<le> nroots \<and> 0 \<le> pad \<and> pad + nroots < 255
      \<and> coprime prim 255 \<longrightarrow> (\<exists>rs. init_rs_char 8 0x11d fcr prim nroots pad = Some (Some rs)))"
proof -
  obtain io al where "rs_tables 8 0x11d = (1, io, al)" by (rule rs_tables_gf)
  then show ?thesis
    using iprim_loop_coprime [of prim]
    by (auto simp: init_rs_char_def Let_def not_less not_le split: option.splits)
qed


theorem encode_decode_clean_witness:
  "\<exists>rs parity. init_rs_char 8 0x11d 0 1 48 0 = Some (Some rs)
    \<and> encode_rs_char rs (replicate 207 7) = Inr parity \<and> length parity = 48
    \<and> decode_rs_char rs (replicate 207 7 @ parity) None 0 = Inr (0, replicate 207 7 @ parity, None)"
proof -
  obtain rs where "init_rs_char 8 0x11d 0 1 48 0 = Some (Some rs)" using init_rs_char_8 [of 0 1 48 0] by auto
  then show ?thesis using encode_decode_clean [of 0 1 48 0 rs "replicate 207 7" 0 None] by auto
qed

text \<open>Two codewords that differ in at most \<open>nroots\<close> places are the same.\<close>

lemma codewords_apart:
  assumes "init_rs_char 8 0x11d fcr prim nroots pad = Some (Some rs)" "1 \<le> nroots"
    and "length c = nat (255 - pad)" "length block = length c"
    and "\<And>k. k < nat nroots \<Longrightarrow> syndrome rs c k = 0" "\<And>k. k < nat nroots \<Longrightarrow> syndrome rs block k = 0"
    and "card {i. i < length block \<and> block ! i \<noteq> c ! i} \<le> nat nroots"
  shows "block = c"
proof -
  note i = init_rs_char_cases [OF assms(1)]
  have g: "gf256 rs" "0 \<le> rs_fcr rs" "0 \<le> rs_prim rs" "0 < rs_prim rs" "rs_nn rs = 255"
    "coprime (rs_prim rs) 255"
    using i by (auto simp: gf256_def)
  let ?e = "map2 (XOR) block c"
  have len: "length c = nat (rs_nn rs - rs_pad rs)" "length c \<le> 255" "c \<noteq> []" "block \<noteq> []"
    using assms(2-4) g(5) i by auto
  have zero: "horner ((nat (rs_fcr rs) + k) * nat (rs_prim rs)) 0 ?e = 0" if "k < nat nroots" for k
    using horner_xor [OF assms(4), of "rs_root rs k" 0 0] rs_root_nat [OF g(2,3), of k] that
      syndrome_horner [OF g(1-3) len(3,1), of k] syndrome_horner [OF g(1-3) len(4), of k]
      assms(4-6) len(1) by simp
  have few: "length (filter (\<lambda>d. d \<noteq> 0) ?e) \<le> nat nroots"
  proof -
    have "length (filter (\<lambda>d. d \<noteq> 0) ?e) = card {i. i < length ?e \<and> ?e ! i \<noteq> 0}"
      by (rule length_filter_conv_card)
    also have "{i. i < length ?e \<and> ?e ! i \<noteq> 0} = {i. i < length block \<and> block ! i \<noteq> c ! i}"
      using assms(4) by (auto simp: xor_zero_iff)
    finally show ?thesis using assms(7) by simp
  qed
  have "length ?e \<le> 255" using len(2) assms(4) by simp
  from min_distance [OF coprime_nat [OF g(4) g(6)] this few zero] have "\<forall>d \<in> set ?e. d = 0" .
  then have "\<forall>i < length block. block ! i = c ! i"
    using assms(4) by (metis (no_types, lifting) length_map length_zip min.idem nth_map nth_mem nth_zip old.prod.case xor_zero_iff)
  then show ?thesis using assms(4) by (simp add: list_eq_iff_nth_eq)
qed

text \<open>C18: the code has distance \<open>nroots + 1\<close>. If between 1 and \<open>nroots\<close> symbols of an encoded block
  are changed, in any way, the decoder computes a non-zero syndrome: no such corruption passes for
  a valid block.\<close>

theorem corrupted_block_detected:
  assumes "init_rs_char 8 0x11d fcr prim nroots pad = Some (Some rs)" "1 \<le> nroots"
    and "length data = nat (255 - nroots - pad)" "encode_rs_char rs data = Inr parity"
    and "length block = length (data @ parity)" "block \<noteq> data @ parity"
    and "card {i. i < length block \<and> block ! i \<noteq> (data @ parity) ! i} \<le> nat nroots"
  shows "\<exists>k < nat nroots. syndrome rs block k \<noteq> 0"
proof (rule ccontr)
  assume "\<not> ?thesis"
  then have zero: "syndrome rs block k = 0" if "k < nat nroots" for k using that by blast
  note i = init_rs_char_cases [OF assms(1)]
  have p: "length parity = nat nroots" "\<And>k. k < nat nroots \<Longrightarrow> syndrome rs (data @ parity) k = 0"
    using encode_zero_syndromes [OF init_rs_ok [OF assms(1,2)], of data] assms(3,4) i by (auto simp: gf256_def)
  have "nat (255 - nroots - pad) + nat nroots = nat (255 - pad)" using assms(2) i by linarith
  then have "length (data @ parity) = nat (255 - pad)" using assms(3) p(1) by simp
  then show False using codewords_apart [OF assms(1,2) _ assms(5) p(2) zero assms(7)] assms(6) by blast
qed

theorem corrupted_block_detected_witness:
  "\<exists>rs parity. init_rs_char 8 0x11d 0 1 48 0 = Some (Some rs)
    \<and> encode_rs_char rs (replicate 207 7) = Inr parity
    \<and> (\<exists>k < 48. syndrome rs ((replicate 207 7 @ parity)[3 := 9]) k \<noteq> 0)"
proof -
  obtain rs where rs: "init_rs_char 8 0x11d 0 1 48 0 = Some (Some rs)" using init_rs_char_8 [of 0 1 48 0] by auto
  obtain parity where p: "encode_rs_char rs (replicate 207 7) = Inr parity" "length parity = 48"
    using encode_zero_syndromes [OF init_rs_ok [OF rs], of "replicate 207 7"] init_rs_char_cases [OF rs] by auto
  let ?c = "replicate 207 7 @ parity"
  have "{i. i < length (?c[3 := 9]) \<and> ?c[3 := 9] ! i \<noteq> ?c ! i} = {3}"
  proof -
    have "?c[3 := 9] ! i \<noteq> ?c ! i \<longleftrightarrow> i = 3" if "i < length ?c" for i
      using that by (cases "i = 3") (simp_all add: nth_append p(2))
    moreover have "length ?c = 255" "length (?c[3 := 9]) = 255" by (simp_all add: p(2))
    moreover have "?c ! 3 = 7" by (simp add: nth_append)
    ultimately show ?thesis by (simp only: set_eq_iff mem_Collect_eq singleton_iff) auto
  qed
  moreover have "?c[3 := 9] ! 3 \<noteq> ?c ! 3" by (simp add: nth_append p(2))
  then have "?c[3 := 9] \<noteq> ?c" by (rule contrapos_nn) (simp only:)
  ultimately have "\<exists>k < nat 48. syndrome rs (?c[3 := 9]) k \<noteq> 0"
    using corrupted_block_detected [OF rs _ _ p(1), of "?c[3 := 9]"] by simp
  then show ?thesis using rs p by auto
qed

end
