(* ===== verification/PFT.thy ===== *)
theory PFT
  imports AFPacket RSCode
begin

text \<open>
  Model of \<open>lib/edioutput/PFT.h\<close> and \<open>lib/edioutput/PFT.cpp\<close>: protection of an AF packet by a
  shortened Reed-Solomon code, fragmentation with or without it, and the PF header. Sizes are
  natural numbers, the header fields words of their width. An exception leaves the object as it was
  at the throw, so operations return the result (or exception) and the object. The
  warning of the constructor and the verbose prints are left out.
\<close>

unbundle bit_operations_syntax

definition PARITYBYTES :: nat where
  "PARITYBYTES = 48"

record PFT =
  pft_k :: u32
  pft_m :: u32
  pft_pseq :: u16
  pft_num_chunks :: nat

text \<open>Constant members: the transport header is always deactivated.\<close>

definition m_transport_header :: bool where "m_transport_header = False"
definition m_addr_source :: u16 where "m_addr_source = 0"
definition m_dest_port :: u32 where "m_dest_port = 0"

text \<open>\<open>PFT(conf)\<close>, from the \<open>chunk_len\<close> and \<open>fec\<close> members of the configuration.\<close>

definition PFT_init :: "u32 \<Rightarrow> u32 \<Rightarrow> exn + PFT" where
  "PFT_init chunk_len fec =
     (if chunk_len > 207 then Inl OutOfRange
      else Inr \<lparr>pft_k = chunk_len, pft_m = fec, pft_pseq = 0, pft_num_chunks = 0\<rparr>)"

subsection \<open>Protection\<close>

text \<open>The loop over the padded packet: each chunk is copied into a buffer of 207 zeros, encoded, cut
  back to its length and stored with its parity. With \<open>chunk_len\<close> zero the index would not move.\<close>

function protect_loop :: "ReedSolomon \<Rightarrow> nat \<Rightarrow> bytes \<Rightarrow> exn + bytes" where
  "protect_loop rs_encoder chunk_len af_packet =
     (if af_packet = [] then Inr []
      else if chunk_len = 0 then Inl NoReturn
      else if length af_packet < chunk_len \<or> chunk_len > 207 then Inl OutOfBounds
      else
        (let chunk = take chunk_len af_packet @ replicate (207 - chunk_len) 0
         in case rs_encode rs_encoder chunk (replicate PARITYBYTES 0) of
              Inl e \<Rightarrow> Inl e
            | Inr (_, chunk', protection) \<Rightarrow>
                (case protect_loop rs_encoder chunk_len (drop chunk_len af_packet) of
                   Inl e \<Rightarrow> Inl e
                 | Inr rs_block \<Rightarrow> Inr (take chunk_len chunk' @ protection @ rs_block))))"
  by pat_completeness auto
termination
  by (relation "measure (\<lambda>(_, _, af). length af)") auto

declare protect_loop.simps [simp del]

definition Protect :: "PFT \<Rightarrow> bytes \<Rightarrow> (exn + bytes) \<times> PFT" where
  "Protect p af_packet =
     (if pft_k p = 0 then (Inl DivByZero, p)
      else
        (let p' = p\<lparr>pft_num_chunks := CEIL_DIV (length af_packet) (unat (pft_k p))\<rparr>;
             chunk_len = CEIL_DIV (length af_packet) (pft_num_chunks p')
         in if pft_num_chunks p' = 0 then (Inl DivByZero, p')
            else if chunk_len > 207 then (Inl RuntimeError, p')
            else
              (let zero_pad = pft_num_chunks p' * chunk_len - length af_packet
               in case ReedSolomon_init 255 207 False 0x11d 1 1 of
                    None \<Rightarrow> (Inl NoReturn, p')
                  | Some (Inl e) \<Rightarrow> (Inl e, p')
                  | Some (Inr rs_encoder) \<Rightarrow>
                      (protect_loop rs_encoder chunk_len (af_packet @ replicate zero_pad 0), p'))))"

subsection \<open>Fragmentation\<close>

text \<open>Fragment \<open>i\<close> gets the bytes \<open>i\<close>, \<open>i + n\<close>, \<open>i + 2 n\<close> and so on of the block, filled up with zeros.\<close>

definition interleave :: "bytes \<Rightarrow> nat \<Rightarrow> nat \<Rightarrow> bytes list" where
  "interleave rs_block num_fragments fragment_size =
     map (\<lambda>i. map (\<lambda>j. let ix = j * num_fragments + i
                       in if ix < length rs_block then rs_block ! ix else 0) [0..<fragment_size])
         [0..<num_fragments]"

definition fragment_plain :: "bytes \<Rightarrow> nat \<Rightarrow> nat \<Rightarrow> bytes list" where
  "fragment_plain af_packet num_fragments fragment_size =
     map (\<lambda>i. map (\<lambda>ix. af_packet ! ix)
                (takeWhile (\<lambda>ix. ix < length af_packet) (map (\<lambda>j. i * fragment_size + j) [0..<fragment_size])))
         [0..<num_fragments]"

definition ProtectAndFragment :: "PFT \<Rightarrow> bytes \<Rightarrow> (exn + bytes list) \<times> PFT" where
  "ProtectAndFragment p af_packet =
     (if pft_m p > 0 then
        (case Protect p af_packet of
           (Inl e, p') \<Rightarrow> (Inl e, p')
         | (Inr rs_block, p') \<Rightarrow>
             (let d = unat (pft_m p' + 1);
                  max_payload_size = pft_num_chunks p' * PARITYBYTES div d;
                  num_fragments = CEIL_DIV (length rs_block) max_payload_size;
                  fragment_size = CEIL_DIV (length rs_block) num_fragments
              in if d = 0 \<or> max_payload_size = 0 \<or> num_fragments = 0 then (Inl DivByZero, p')
                 else (Inr (interleave rs_block num_fragments fragment_size), p')))
      else
        (let max_payload_size = 1400;
             num_fragments = CEIL_DIV (length af_packet) max_payload_size;
             fragment_size = CEIL_DIV (length af_packet) num_fragments
         in if num_fragments = 0 then (Inl DivByZero, p)
            else (Inr (fragment_plain af_packet num_fragments fragment_size), p)))"

subsection \<open>PF packets\<close>

definition pft_header :: "u16 \<Rightarrow> nat \<Rightarrow> nat \<Rightarrow> bool \<Rightarrow> nat \<Rightarrow> nat \<Rightarrow> nat \<Rightarrow> bytes" where
  "pft_header pseq findex fcount enable_RS fragment_len chunk_len zero_pad =
     (let plen = (of_nat fragment_len OR (if enable_RS then 0x8000 else 0)
                  OR (if m_transport_header then 0x4000 else 0) :: u32);
          packet = str_bytes ''PF'' @ be16 pseq @ be24 (of_nat findex) @ be24 (of_nat fcount) @ be16 (ucast plen)
            @ (if enable_RS then [of_nat chunk_len, of_nat zero_pad] else [])
            @ (if m_transport_header then be16 m_addr_source @ be16 (ucast m_dest_port) else [])
      in packet @ be16 (crc16 0xffff packet XOR 0xffff))"

definition PFT_Assemble :: "PFT \<Rightarrow> bytes \<Rightarrow> (exn + bytes list) \<times> PFT" where
  "PFT_Assemble p af_packet =
     (case ProtectAndFragment p af_packet of
        (Inl e, p') \<Rightarrow> (Inl e, p')
      | (Inr fragments, p') \<Rightarrow>
          (let enable_RS = pft_m p' > 0;
               fcount = length fragments;
               chunk_len = (if enable_RS then CEIL_DIV (length af_packet) (pft_num_chunks p') else 0);
               zero_pad = (if enable_RS then pft_num_chunks p' * chunk_len - length af_packet else 0)
           in (Inr (map (\<lambda>(findex, fragment).
                      pft_header (pft_pseq p') findex fcount enable_RS (length fragment) chunk_len zero_pad @ fragment)
                    (enumerate 0 fragments)),
               p'\<lparr>pft_pseq := pft_pseq p' + 1\<rparr>)))"

definition OverridePSeq :: "PFT \<Rightarrow> u16 \<Rightarrow> PFT" where
  "OverridePSeq p pseq = p\<lparr>pft_pseq := pseq\<rparr>"

subsection \<open>The protected block\<close>

lemma pft_encoder:
  obtains r where "ReedSolomon_init 255 207 False 0x11d 1 1 = Some (Inr r)" "\<not> rs_reverse r"
    "init_rs_char 8 0x11d 1 1 48 0 = Some (Some (rsData r))"
proof -
  obtain rs where "init_rs_char 8 0x11d 1 1 48 0 = Some (Some rs)" using init_rs_char_8 [of 1 1 48 0] by auto
  then show thesis by (intro that) (auto simp: ReedSolomon_init_def SYMSIZE_def)
qed

text \<open>The parity of a chunk, which is padded with zeros to 207 bytes.\<close>

definition chunk_parity :: "bytes \<Rightarrow> bytes" where
  "chunk_parity ch =
     (case ReedSolomon_init 255 207 False 0x11d 1 1 of
        Some (Inr r) \<Rightarrow> (case encode_rs_char (rsData r) (ch @ replicate (207 - length ch) 0) of
                           Inr parity \<Rightarrow> parity | Inl _ \<Rightarrow> [])
      | _ \<Rightarrow> [])"

definition codeword :: "bytes \<Rightarrow> bytes" where
  "codeword ch = ch @ replicate (207 - length ch) 0 @ chunk_parity ch"

lemma chunk_parity:
  assumes "ReedSolomon_init 255 207 False 0x11d 1 1 = Some (Inr r)" "\<not> rs_reverse r"
    and "init_rs_char 8 0x11d 1 1 48 0 = Some (Some (rsData r))" "length ch \<le> 207"
  shows "rs_encode r (ch @ replicate (207 - length ch) 0) (replicate PARITYBYTES 0)
      = Inr (0, ch @ replicate (207 - length ch) 0, chunk_parity ch)"
    "length (chunk_parity ch) = 48" "k < 48 \<Longrightarrow> syndrome (rsData r) (codeword ch) k = 0"
proof -
  let ?c = "ch @ replicate (207 - length ch) 0"
  have i: "rs_nroots (rsData r) = 48" "rs_pad (rsData r) = 0" "gf256 (rsData r)"
    using init_rs_char_cases [OF assms(3)] by auto
  obtain parity where p: "encode_rs_char (rsData r) ?c = Inr parity" "length parity = 48"
    "\<And>k. k < 48 \<Longrightarrow> syndrome (rsData r) (?c @ parity) k = 0"
    using encode_zero_syndromes [OF init_rs_ok [OF assms(3)], of ?c] i assms(4) by (auto simp: gf256_def)
  have cp: "chunk_parity ch = parity" using assms(1) p(1) by (simp add: chunk_parity_def)
  show "rs_encode r ?c (replicate PARITYBYTES 0) = Inr (0, ?c, chunk_parity ch)"
    using assms(2) p by (simp add: rs_encode_def cp PARITYBYTES_def)
  show "length (chunk_parity ch) = 48" using cp p(2) by simp
  show "k < 48 \<Longrightarrow> syndrome (rsData r) (codeword ch) k = 0" using p(3) by (simp add: codeword_def cp)
qed

lemma chunk_parity_length [simp]: "length ch \<le> 207 \<Longrightarrow> length (chunk_parity ch) = 48"
  by (rule pft_encoder) (rule chunk_parity)

lemma codewords_equal:
  assumes "length a \<le> 207" "length b = length a"
    and "card {i. i < 255 \<and> codeword a ! i \<noteq> codeword b ! i} \<le> 48"
  shows "a = b"
proof -
  obtain r where r: "ReedSolomon_init 255 207 False 0x11d 1 1 = Some (Inr r)" "\<not> rs_reverse r"
    "init_rs_char 8 0x11d 1 1 48 0 = Some (Some (rsData r))" by (rule pft_encoder)
  have len: "length (codeword a) = 255" "length (codeword b) = 255" using assms(1,2) by (simp_all add: codeword_def)
  have "codeword a = codeword b"
    by (rule codewords_apart [OF r(3)]) (use len assms chunk_parity(3) [OF r] in simp_all)
  then show ?thesis using assms(2) by (simp add: codeword_def)
qed

text \<open>Chunk \<open>j\<close> of a padded packet, and the block the loop builds.\<close>

definition chunk_at :: "nat \<Rightarrow> bytes \<Rightarrow> nat \<Rightarrow> bytes" where
  "chunk_at k af j = take k (drop (j * k) af)"

definition rs_block_of :: "nat \<Rightarrow> nat \<Rightarrow> bytes \<Rightarrow> bytes" where
  "rs_block_of c k af = concat (map (\<lambda>j. chunk_at k af j @ chunk_parity (chunk_at k af j)) [0..<c])"

lemma chunk_at_length: "j < c \<Longrightarrow> length af = c * k \<Longrightarrow> length (chunk_at k af j) = k"
proof -
  assume "j < c" "length af = c * k"
  moreover have "(j + 1) * k \<le> c * k" using \<open>j < c\<close> by (intro mult_le_mono1) simp
  ultimately show ?thesis by (simp add: chunk_at_def algebra_simps)
qed

lemma chunks_concat: "length af = c * k \<Longrightarrow> concat (map (chunk_at k af) [0..<c]) = af"
proof (induction c arbitrary: af)
  case (Suc c)
  have s: "chunk_at k (drop k af) = (\<lambda>j. chunk_at k af (Suc j))" by (simp add: chunk_at_def add.commute fun_eq_iff)
  have "concat (map (chunk_at k af) [0..<Suc c]) = take k af @ concat (map (chunk_at k (drop k af)) [0..<c])"
    by (simp add: upt_conv_Cons comp_def s chunk_at_def [of k af 0] del: upt_Suc flip: map_Suc_upt)
  then show ?case using Suc by simp
qed simp

lemma chunks_eqI:
  assumes "length a = c * k" "length b = c * k" "\<And>j. j < c \<Longrightarrow> chunk_at k a j = chunk_at k b j"
  shows "a = b"
proof -
  have "map (chunk_at k a) [0..<c] = map (chunk_at k b) [0..<c]" using assms(3) by simp
  then show ?thesis using chunks_concat assms(1,2) by metis
qed

lemma protect_loop_block:
  assumes "ReedSolomon_init 255 207 False 0x11d 1 1 = Some (Inr r)" "\<not> rs_reverse r"
    and "init_rs_char 8 0x11d 1 1 48 0 = Some (Some (rsData r))" "0 < k" "k \<le> 207" "length af = c * k"
  shows "protect_loop r k af = Inr (rs_block_of c k af)"
  using assms(6)
proof (induction c arbitrary: af)
  case 0
  then show ?case by (simp add: protect_loop.simps rs_block_of_def)
next
  case (Suc c)
  let ?h = "chunk_at k af 0"
  have l: "length ?h = k" "af \<noteq> []" "\<not> length af < k" "?h = take k af"
    using chunk_at_length [of 0 "Suc c" af k] Suc.prems assms(4) by (auto simp: chunk_at_def)
  have s: "chunk_at k (drop k af) j = chunk_at k af (Suc j)" for j by (simp add: chunk_at_def add.commute)
  have "rs_block_of (Suc c) k af = ?h @ chunk_parity ?h @ rs_block_of c k (drop k af)"
    unfolding rs_block_of_def s by (simp add: upt_conv_Cons comp_def del: upt_Suc flip: map_Suc_upt)
  moreover have "protect_loop r k (drop k af) = Inr (rs_block_of c k (drop k af))"
    by (rule Suc.IH) (use Suc.prems in simp)
  ultimately show ?case
    using chunk_parity(1) [OF assms(1-3), of ?h] l assms(4,5)
    by (subst protect_loop.simps) (simp add: Let_def)
qed

lemma concat_blocks:
  assumes "\<And>x. x \<in> set xs \<Longrightarrow> length x = b"
  shows "length (concat xs) = length xs * b"
    "j < length xs \<Longrightarrow> t < b \<Longrightarrow> concat xs ! (j * b + t) = xs ! j ! t"
  using assms
proof (induction xs arbitrary: j)
  case (Cons x xs)
  { case 1 then show ?case using Cons.IH(1) by simp }
  { case 2
    have x: "length x = b" using 2 by simp
    show ?case
    proof (cases j)
      case 0
      then show ?thesis using x 2 by (simp add: nth_append)
    next
      case (Suc i)
      then have "concat (x # xs) ! (j * b + t) = concat xs ! (i * b + t)" using x by (simp add: nth_append add.assoc)
      then show ?thesis using Cons.IH(2) [of i] 2 Suc by simp
    qed }
qed simp_all

lemma rs_block_length:
  assumes "k \<le> 207" "length af = c * k"
  shows "length (rs_block_of c k af) = c * (k + 48)"
  unfolding rs_block_of_def
  by (subst concat_blocks(1) [where b = "k + 48"]) (use chunk_at_length [of _ c af k] assms in auto)

lemma rs_block_nth:
  assumes "k \<le> 207" "length af = c * k" "j < c" "t < k + 48"
  shows "rs_block_of c k af ! (j * (k + 48) + t) = (chunk_at k af j @ chunk_parity (chunk_at k af j)) ! t"
  unfolding rs_block_of_def
  by (subst concat_blocks(2) [where b = "k + 48"]) (use chunk_at_length [of _ c af k] assms in auto)

subsection \<open>Geometry of the fragments\<close>

lemma mod_add_left_cancel_nat:
  assumes "(a + x) mod n = (a + y) mod n"
  shows "x mod n = (y :: nat) mod n"
proof -
  have "(int (a + x) - int a) mod int n = (int (a + y) - int a) mod int n"
    using assms by (intro mod_diff_cong) (simp_all only: zmod_int [symmetric])
  then show ?thesis by (simp flip: zmod_int)
qed

lemma residue_count:
  assumes "b \<le> q * n"
  shows "card {t. t < b \<and> (a + t) mod n = i} \<le> q"
proof -
  let ?S = "{t. t < b \<and> (a + t) mod n = i}"
  have "inj_on (\<lambda>t. t div n) ?S"
  proof (rule inj_onI)
    fix x y assume xy: "x \<in> ?S" "y \<in> ?S" "x div n = y div n"
    have "x mod n = y mod n" using xy(1,2) mod_add_left_cancel_nat [of a x n y] by auto
    then show "x = y" using xy(3) by (metis div_mult_mod_eq)
  qed
  moreover have "(\<lambda>t. t div n) ` ?S \<subseteq> {..<q}"
    using assms by (auto simp: less_mult_imp_div_less)
  ultimately have "card ?S \<le> card {..<q}" by (rule card_inj_on_le) simp
  then show ?thesis by simp
qed

lemma lost_count:
  assumes "finite L" "b \<le> q * n"
  shows "card {t. t < b \<and> (a + t) mod n \<in> L} \<le> card L * q"
proof -
  have "{t. t < b \<and> (a + t) mod n \<in> L} = (\<Union>i \<in> L. {t. t < b \<and> (a + t) mod n = i})" by auto
  then have "card {t. t < b \<and> (a + t) mod n \<in> L} \<le> (\<Sum>i \<in> L. card {t. t < b \<and> (a + t) mod n = i})"
    using card_UN_le [OF assms(1)] by simp
  also have "\<dots> \<le> card L * q" using sum_bounded_above [of L _ q] residue_count [OF assms(2)] by simp
  finally show ?thesis .
qed

text \<open>For up to nine recoverable fragments, that many lost fragments hold at most 48 bytes of a chunk.\<close>

lemma lost_bytes:
  assumes "0 < c" "s = c * 48 div (m + 1)" "0 < s" "c * b \<le> n * s" "m \<le> 9" "finite L" "card L \<le> m"
  shows "card {t. t < b \<and> (a + t) mod n \<in> L} \<le> 48"
proof -
  define q where "q = CEIL_DIV 48 (m + 1)"
  have "c * (b * (m + 1)) \<le> n * s * (m + 1)" using assms(4) mult_le_mono1 by (metis mult.assoc)
  also have "s * (m + 1) \<le> c * 48" unfolding assms(2) by (rule div_times_less_eq_dividend)
  then have "n * s * (m + 1) \<le> n * (c * 48)" by (metis mult.assoc mult_le_mono2)
  finally have "c * (b * (m + 1)) \<le> c * (48 * n)" by (simp only: ac_simps)
  then have "b * (m + 1) \<le> 48 * n" using assms(1) by simp
  also have "\<dots> \<le> q * (m + 1) * n" unfolding q_def by (intro mult_le_mono1 CEIL_DIV_upper) simp
  also have "\<dots> = q * n * (m + 1)" by (simp only: ac_simps)
  finally have "b \<le> q * n" by (rule mult_le_cancel2 [THEN iffD1, THEN mp]) simp
  then have "card {t. t < b \<and> (a + t) mod n \<in> L} \<le> card L * q" by (rule lost_count [OF assms(6)])
  also have "\<dots> \<le> m * q" using assms(7) by simp
  also have "m * q \<le> 48"
  proof -
    have "m \<in> {0, 1, 2, 3, 4, 5, 6, 7, 8, 9}" using assms(5) by auto
    then show ?thesis unfolding q_def CEIL_DIV_def by (auto simp: numeral_2_eq_2 [symmetric])
  qed
  finally show ?thesis .
qed

lemma interleave_length [simp]: "length (interleave rs n f) = n"
  by (simp add: interleave_def)

lemma interleave_nth:
  "i < n \<Longrightarrow> j < f \<Longrightarrow> interleave rs n f ! i ! j = (if j * n + i < length rs then rs ! (j * n + i) else 0)"
  by (simp add: interleave_def Let_def)

lemma interleave_byte:
  assumes "0 < n" "x < length rs" "length rs \<le> n * f"
  shows "x mod n < n" "x div n < f" "interleave rs n f ! (x mod n) ! (x div n) = rs ! x"
proof -
  show r: "x mod n < n" using assms(1) by simp
  show q: "x div n < f" using assms by (simp add: less_mult_imp_div_less mult.commute)
  show "interleave rs n f ! (x mod n) ! (x div n) = rs ! x"
    using interleave_nth [OF r q, of rs] assms(2) by simp
qed

lemma codeword_nth:
  assumes "length x \<le> 207"
  shows "codeword x ! i = (if i < length x then x ! i else if i < 207 then 0 else chunk_parity x ! (i - 207))"
proof (cases "i < length x")
  case False
  then have "codeword x ! i = (replicate (207 - length x) 0 @ chunk_parity x) ! (i - length x)"
    by (simp add: codeword_def nth_append)
  then show ?thesis using False assms by (auto simp: nth_append)
qed (simp add: codeword_def nth_append)

text \<open>Where two blocks agree outside the lost fragments, and those hold at most 48 bytes of the chunk,
  the chunks are equal.\<close>

lemma chunk_recovered:
  assumes "k \<le> 207" "length a = c * k" "length b = c * k" "j < c"
    and same: "\<And>x. x < c * (k + 48) \<Longrightarrow> x mod n \<notin> lost \<Longrightarrow> rs_block_of c k a ! x = rs_block_of c k b ! x"
    and few: "card {t. t < k + 48 \<and> (j * (k + 48) + t) mod n \<in> lost} \<le> 48"
  shows "chunk_at k a j = chunk_at k b j"
proof (rule codewords_equal)
  let ?a = "chunk_at k a j" and ?b = "chunk_at k b j"
  have len: "length ?a = k" "length ?b = k" using chunk_at_length assms(2-4) by blast+
  then show "length ?a \<le> 207" "length ?b = length ?a" using assms(1) by simp_all
  let ?g = "\<lambda>t. if t < k then t else t - k + 207" and ?o = "j * (k + 48)"
  let ?T = "{t. t < k + 48 \<and> (?o + t) mod n \<in> lost}" and ?D = "{i. i < 255 \<and> codeword ?a ! i \<noteq> codeword ?b ! i}"
  have in_blk: "?o + t < c * (k + 48)" if "t < k + 48" for t
  proof -
    have "?o + t < (j + 1) * (k + 48)" using that by simp
    also have "\<dots> \<le> c * (k + 48)" using assms(4) by (intro mult_le_mono1) simp
    finally show ?thesis .
  qed
  have "i \<in> ?g ` ?T" if i: "i < 255" "codeword ?a ! i \<noteq> codeword ?b ! i" for i
  proof -
    define t where "t = (if i < k then i else i - 207 + k)"
    have mid: "i < k \<or> 207 \<le> i" using i(2) len assms(1) by (auto simp: codeword_nth split: if_splits)
    then have t: "t < k + 48" "?g t = i" using i(1) assms(1) by (auto simp: t_def)
    have cw: "codeword x ! i = (x @ chunk_parity x) ! t" if "length x = k" for x
      using that mid assms(1) by (auto simp: codeword_nth nth_append t_def)
    have "rs_block_of c k a ! (?o + t) \<noteq> rs_block_of c k b ! (?o + t)"
      using rs_block_nth [OF assms(1,2,4) t(1)] rs_block_nth [OF assms(1,3,4) t(1)] i(2) cw len by simp
    then have "(?o + t) mod n \<in> lost" using same in_blk t(1) by blast
    then show ?thesis using t by blast
  qed
  then have "?D \<subseteq> ?g ` ?T" by blast
  then have "card ?D \<le> card ?T" by (rule surj_card_le [rotated]) simp
  then show "card ?D \<le> 48" using few by simp
qed

subsection \<open>What the operations return\<close>

lemma Protect_block:
  assumes "0 < pft_k p" "pft_k p \<le> 207" "af \<noteq> []"
  obtains c k z where "c = CEIL_DIV (length af) (unat (pft_k p))" "k = CEIL_DIV (length af) c"
    "z = c * k - length af" "0 < c" "0 < k" "k \<le> 207" "z < c" "length (af @ replicate z 0) = c * k"
    "Protect p af = (Inr (rs_block_of c k (af @ replicate z 0)), p\<lparr>pft_num_chunks := c\<rparr>)"
proof -
  let ?l = "length af"
  define c k where "c = CEIL_DIV ?l (unat (pft_k p))" and "k = CEIL_DIV ?l c"
  define z where "z = c * k - ?l"
  have k0: "0 < unat (pft_k p)" "unat (pft_k p) \<le> 207"
    using assms(1,2) by (simp_all add: word_less_nat_alt word_le_nat_alt)
  have l: "0 < ?l" using assms(3) by simp
  have c: "0 < c" unfolding c_def using k0(1) l by (rule CEIL_DIV_pos)
  have k: "0 < k" unfolding k_def using c l by (rule CEIL_DIV_pos)
  have "?l \<le> c * unat (pft_k p)" unfolding c_def using k0(1) by (rule CEIL_DIV_upper)
  then have "k \<le> unat (pft_k p)" unfolding k_def using CEIL_DIV_le_iff [OF c] by (simp add: mult.commute)
  then have k207: "k \<le> 207" using k0(2) by simp
  have up: "?l \<le> c * k" unfolding k_def using CEIL_DIV_upper [OF c, of ?l] by (simp add: mult.commute)
  have "(k - 1) * c < ?l" unfolding k_def using c l by (rule CEIL_DIV_lower)
  moreover have "c * k = (k - 1) * c + c" using k by (cases k) simp_all
  ultimately have z: "z < c" unfolding z_def using c by linarith
  have len: "length (af @ replicate z 0) = c * k" using up by (simp add: z_def)
  obtain r where r: "ReedSolomon_init 255 207 False 0x11d 1 1 = Some (Inr r)" "\<not> rs_reverse r"
    "init_rs_char 8 0x11d 1 1 48 0 = Some (Some (rsData r))" by (rule pft_encoder)
  have "Protect p af = (Inr (rs_block_of c k (af @ replicate z 0)), p\<lparr>pft_num_chunks := c\<rparr>)"
    using protect_loop_block [OF r k k207 len] k0 c k207 r(1) assms(1)
    by (simp add: Protect_def Let_def z_def flip: c_def k_def)
  then show thesis using that c_def k_def z_def c k k207 z len by blast
qed

lemma map_enumerate: "map (\<lambda>(i, x). g i x) (enumerate 0 xs) = map (\<lambda>i. g i (xs ! i)) [0..<length xs]"
  by (rule nth_equalityI) (simp_all add: nth_enumerate_eq)

text \<open>With protection for up to 47 losses every non-empty packet is fragmented.\<close>

lemma PFT_Assemble_fec:
  assumes "0 < pft_k p" "pft_k p \<le> 207" "af \<noteq> []" "0 < pft_m p" "pft_m p < 48"
  obtains c k z n f s blk where "c = CEIL_DIV (length af) (unat (pft_k p))" "k = CEIL_DIV (length af) c"
    "z = c * k - length af" "0 < c" "0 < k" "k \<le> 207" "z < c" "length (af @ replicate z 0) = c * k"
    "blk = rs_block_of c k (af @ replicate z 0)" "length blk = c * (k + 48)"
    "s = c * 48 div (unat (pft_m p) + 1)" "0 < s" "n = CEIL_DIV (c * (k + 48)) s" "0 < n"
    "f = CEIL_DIV (c * (k + 48)) n" "c * (k + 48) \<le> n * s" "c * (k + 48) \<le> n * f"
    "PFT_Assemble p af = (Inr (map (\<lambda>i. pft_header (pft_pseq p) i n True f k z @ interleave blk n f ! i) [0..<n]),
        p\<lparr>pft_num_chunks := c, pft_pseq := pft_pseq p + 1\<rparr>)"
proof -
  obtain c k z where P: "c = CEIL_DIV (length af) (unat (pft_k p))" "k = CEIL_DIV (length af) c"
    "z = c * k - length af" "0 < c" "0 < k" "k \<le> 207" "z < c" "length (af @ replicate z 0) = c * k"
    "Protect p af = (Inr (rs_block_of c k (af @ replicate z 0)), p\<lparr>pft_num_chunks := c\<rparr>)"
    by (rule Protect_block [OF assms(1-3)])
  define blk s where "blk = rs_block_of c k (af @ replicate z 0)" and "s = c * 48 div (unat (pft_m p) + 1)"
  define n where "n = CEIL_DIV (c * (k + 48)) s"
  define f where "f = CEIL_DIV (c * (k + 48)) n"
  have m: "unat (pft_m p) < 48" using assms(5) by (simp add: word_less_nat_alt)
  then have d: "unat (pft_m p + 1) = unat (pft_m p) + 1" by (simp add: unat_word_ariths)
  have sS: "s = c * 48 div Suc (unat (pft_m p))" by (simp add: s_def)
  have bl: "length blk = c * (k + 48)" unfolding blk_def using P(6,8) by (rule rs_block_length)
  have "unat (pft_m p) + 1 \<le> c * 48" using m P(4) by (cases c) auto
  then have s: "0 < s" unfolding s_def by (simp add: div_greater_zero_iff)
  have n: "0 < n" unfolding n_def using s P(4) by (intro CEIL_DIV_pos) simp_all
  have le: "c * (k + 48) \<le> n * s" "c * (k + 48) \<le> n * f"
    unfolding n_def [symmetric] f_def using CEIL_DIV_upper [OF s, of "c * (k + 48)"] CEIL_DIV_upper [OF n, of "c * (k + 48)"]
    by (simp_all add: n_def [symmetric] mult.commute)
  have "ProtectAndFragment p af = (Inr (interleave blk n f), p\<lparr>pft_num_chunks := c\<rparr>)"
    using assms(4) s n bl P(9) d
    by (simp add: ProtectAndFragment_def Let_def PARITYBYTES_def flip: blk_def sS n_def f_def)
  moreover have "length (interleave blk n f ! i) = f" if "i < n" for i using that by (simp add: interleave_def)
  ultimately have "PFT_Assemble p af = (Inr (map (\<lambda>i. pft_header (pft_pseq p) i n True f k z @ interleave blk n f ! i) [0..<n]),
        p\<lparr>pft_num_chunks := c, pft_pseq := pft_pseq p + 1\<rparr>)"
    using assms(4) P(2,3) by (simp add: PFT_Assemble_def Let_def map_enumerate cong: map_cong)
  then show thesis using that P(1-8) blk_def bl s_def s n_def n f_def le by blast
qed

text \<open>C6: forward error correction. With up to nine recoverable fragments (\<open>fec\<close> is the number \<open>m\<close>),
  whatever \<open>m\<close> fragments of a packet are lost, the others determine the AF packet: two packets of
  the same length that agree on all other fragments are equal.\<close>

theorem pft_recovers_lost_fragments:
  assumes "0 < pft_k p" "pft_k p \<le> 207" "0 < pft_m p" "pft_m p \<le> 9" "length af' = length af"
    and "PFT_Assemble p af = (Inr fr, p1)" "PFT_Assemble p af' = (Inr fr', p2)"
    and "finite lost" "card lost \<le> unat (pft_m p)" "\<forall>i < length fr. i \<notin> lost \<longrightarrow> fr ! i = fr' ! i"
  shows "af = af'"
proof (cases "af = []")
  case True
  then show ?thesis using assms(5) by simp
next
  case False
  then have ne: "af' \<noteq> []" using assms(5) by auto
  have m48: "pft_m p < 48" using assms(4) by (simp add: word_less_nat_alt word_le_nat_alt)
  obtain c k z n f s blk where A: "c = CEIL_DIV (length af) (unat (pft_k p))" "k = CEIL_DIV (length af) c"
    "z = c * k - length af" "0 < c" "0 < k" "k \<le> 207" "length (af @ replicate z 0) = c * k"
    "blk = rs_block_of c k (af @ replicate z 0)" "length blk = c * (k + 48)"
    "s = c * 48 div (unat (pft_m p) + 1)" "0 < s" "n = CEIL_DIV (c * (k + 48)) s" "0 < n"
    "f = CEIL_DIV (c * (k + 48)) n" "c * (k + 48) \<le> n * s" "c * (k + 48) \<le> n * f"
    "PFT_Assemble p af = (Inr (map (\<lambda>i. pft_header (pft_pseq p) i n True f k z @ interleave blk n f ! i) [0..<n]),
        p\<lparr>pft_num_chunks := c, pft_pseq := pft_pseq p + 1\<rparr>)"
    by (rule PFT_Assemble_fec [OF assms(1,2) False assms(3) m48]) blast
  obtain blk' where B: "length (af' @ replicate z 0) = c * k" "blk' = rs_block_of c k (af' @ replicate z 0)"
    "length blk' = c * (k + 48)"
    "PFT_Assemble p af' = (Inr (map (\<lambda>i. pft_header (pft_pseq p) i n True f k z @ interleave blk' n f ! i) [0..<n]),
        p\<lparr>pft_num_chunks := c, pft_pseq := pft_pseq p + 1\<rparr>)"
    by (rule PFT_Assemble_fec [OF assms(1,2) ne assms(3) m48])
      (simp only: assms(5) A(1-3,10,12,14) [symmetric])
  have same: "blk ! x = blk' ! x" if "x < c * (k + 48)" "x mod n \<notin> lost" for x
  proof -
    note b = interleave_byte [OF A(13), of x blk f] interleave_byte [OF A(13), of x blk' f]
    have "fr ! (x mod n) = fr' ! (x mod n)" using assms(10) A(13,17) assms(6) that(2) by simp
    then have "interleave blk n f ! (x mod n) = interleave blk' n f ! (x mod n)"
      using A(13,17) B(4) assms(6,7) by simp
    then show ?thesis using b that(1) A(9,16) B(3) by metis
  qed
  have few: "card {t. t < k + 48 \<and> (a + t) mod n \<in> lost} \<le> 48" for a
    using lost_bytes [OF A(4,10,11,15) _ assms(8,9)] assms(4) by (simp add: word_le_nat_alt)
  have "chunk_at k (af @ replicate z 0) j = chunk_at k (af' @ replicate z 0) j" if "j < c" for j
    by (rule chunk_recovered [OF A(6,7) B(1) that same [unfolded A(8) B(2)] few])
  then have "af @ replicate z 0 = af' @ replicate z 0" by (rule chunks_eqI [OF A(7) B(1)])
  then show ?thesis by simp
qed

subsection \<open>A receiver\<close>

record pf =
  pf_pseq :: u16
  pf_findex :: nat
  pf_fcount :: nat
  pf_fec :: bool
  pf_rsk :: nat
  pf_rsz :: nat
  pf_payload :: bytes

text \<open>Sync word, header CRC and length are checked; packets with a transport header are not accepted.\<close>

definition pf_parse :: "bytes \<Rightarrow> pf option" where
  "pf_parse bs =
     (let plen = rd16 (drop 10 bs); fec = bit plen 15; hl = 14 + (if fec then 2 else 0)
      in if length bs < hl \<or> take 2 bs \<noteq> str_bytes ''PF'' \<or> bit plen 14 \<or> crc16 0xffff (take hl bs) \<noteq> 0x1d0f
            \<or> length bs \<noteq> hl + unat (take_bit 14 plen) then None
         else Some \<lparr>pf_pseq = rd16 (drop 2 bs), pf_findex = unat (rd24 (drop 4 bs)), pf_fcount = unat (rd24 (drop 7 bs)),
                    pf_fec = fec, pf_rsk = (if fec then unat (bs ! 12) else 0), pf_rsz = (if fec then unat (bs ! 13) else 0),
                    pf_payload = drop hl bs\<rparr>)"

lemma unat_and_mask24: "i < 2 ^ 24 \<Longrightarrow> unat ((of_nat i :: u32) AND mask 24) = i"
proof -
  assume i: "i < 2 ^ 24"
  then have "unat (of_nat i :: u32) = i" by (intro unat_of_nat_id) simp
  then show ?thesis using i by (simp add: unsigned_take_bit_eq take_bit_nat_eq_self flip: take_bit_eq_mask)
qed

lemma plen_fields:
  assumes "l < 2 ^ 14"
  shows "bit (ucast (of_nat l OR (if fec then 0x8000 else 0) :: u32) :: u16) 15 = fec"
    "\<not> bit (ucast (of_nat l OR (if fec then 0x8000 else 0) :: u32) :: u16) 14"
    "unat (take_bit 14 (ucast (of_nat l OR (if fec then 0x8000 else 0) :: u32) :: u16)) = l"
proof -
  have u: "unat (of_nat l :: u32) = l" using assms by (intro unat_of_nat_id) simp
  have lo: "\<not> bit (of_nat l :: u32) k" if "14 \<le> k" for k
    using bit_below [of "of_nat l :: u32" 14 k] that u assms by auto
  have b15: "bit (0x8000 :: u32) k = (k = 15)" for k
    using bit_exp_iff [where 'a = u32, of 15 k] by auto
  have b15': "bit (0x8000 :: int) k = (k = 15)" for k
    using bit_exp_iff [where 'a = int, of 15 k] by auto
  have hi: "k < 14" if "bit (of_nat l :: u32) k" for k using lo [of k] that by linarith
  show "bit (ucast (of_nat l OR (if fec then 0x8000 else 0) :: u32) :: u16) 15 = fec"
    "\<not> bit (ucast (of_nat l OR (if fec then 0x8000 else 0) :: u32) :: u16) 14"
    using lo by (auto simp: bit_ucast_iff bit_or_iff b15)
  have "take_bit 14 (ucast (of_nat l OR (if fec then 0x8000 else 0) :: u32) :: u16) = ucast (of_nat l :: u32)"
    by (rule bit_word_eqI) (auto simp: bit_take_bit_iff bit_ucast_iff bit_or_iff b15 b15' dest: hi)
  then show "unat (take_bit 14 (ucast (of_nat l OR (if fec then 0x8000 else 0) :: u32) :: u16)) = l"
    using assms u by (simp add: unsigned_ucast_eq take_bit_nat_eq_self)
qed

lemma pf_parse_header:
  assumes "findex < 2 ^ 24" "fcount < 2 ^ 24" "length payload < 2 ^ 14" "k < 256" "z < 256"
    and "\<not> fec \<Longrightarrow> k = 0 \<and> z = 0"
  shows "pf_parse (pft_header pseq findex fcount fec (length payload) k z @ payload) =
    Some \<lparr>pf_pseq = pseq, pf_findex = findex, pf_fcount = fcount, pf_fec = fec, pf_rsk = k, pf_rsz = z, pf_payload = payload\<rparr>"
proof -
  define plen where "plen = (ucast (of_nat (length payload) OR (if fec then 0x8000 else 0) :: u32) :: u16)"
  note pl = plen_fields [OF assms(3), of fec, folded plen_def]
  define rs where "rs = (if fec then [of_nat k, of_nat z] else [] :: bytes)"
  define packet where "packet = str_bytes ''PF'' @ be16 pseq @ be24 (of_nat findex) @ be24 (of_nat fcount) @ be16 plen @ rs"
  define crc where "crc = be16 (crc16 0xffff packet XOR 0xffff)"
  let ?h = "pft_header pseq findex fcount fec (length payload) k z" and ?hl = "14 + (if fec then 2 else 0 :: nat)"
  have h: "?h = packet @ crc"
    by (simp add: pft_header_def m_transport_header_def Let_def packet_def rs_def crc_def plen_def)
  let ?b = "?h @ payload"
  have b: "?b = str_bytes ''PF'' @ be16 pseq @ be24 (of_nat findex) @ be24 (of_nat fcount) @ be16 plen @ rs @ crc @ payload"
    by (simp add: h packet_def)
  have hl: "length ?h = ?hl" by (simp add: h packet_def rs_def crc_def)
  have "take ?hl ?b = ?h" "drop ?hl ?b = payload" "length ?b = ?hl + length payload" by (simp_all add: hl [symmetric])
  moreover have "crc16 0xffff ?h = 0x1d0f" by (simp only: h crc_def crc16_append crc16_residue_of_two)
  moreover have "take 2 ?b = str_bytes ''PF''" unfolding b by simp
  moreover have "drop 2 ?b = be16 pseq @ be24 (of_nat findex) @ be24 (of_nat fcount) @ be16 plen @ rs @ crc @ payload"
    unfolding b by simp
  then have "rd16 (drop 2 ?b) = pseq" by (simp only: be_simps)
  moreover have "drop 4 ?b = be24 (of_nat findex) @ be24 (of_nat fcount) @ be16 plen @ rs @ crc @ payload"
    unfolding b by simp
  then have "unat (rd24 (drop 4 ?b)) = findex" by (simp only: be_simps unat_and_mask24 [OF assms(1)])
  moreover have "drop 7 ?b = be24 (of_nat fcount) @ be16 plen @ rs @ crc @ payload" unfolding b by simp
  then have "unat (rd24 (drop 7 ?b)) = fcount" by (simp only: be_simps unat_and_mask24 [OF assms(2)])
  moreover have "drop 10 ?b = be16 plen @ rs @ crc @ payload" unfolding b by simp
  then have "rd16 (drop 10 ?b) = plen" by (simp only: be_simps)
  moreover have "(if fec then unat (?b ! 12) else 0) = k" "(if fec then unat (?b ! 13) else 0) = z"
    unfolding b using assms(4-6) by (auto simp: rs_def nth_append unat_of_nat_id)
  ultimately show ?thesis unfolding pf_parse_def Let_def using pl by (simp del: append_assoc length_append)
qed

text \<open>Reassembly from all fragments, in any order and possibly repeated: undo the interleaving, drop the
  parity and the padding.\<close>

definition pf_reassemble :: "bytes list \<Rightarrow> bytes option" where
  "pf_reassemble bs =
     (case those (map pf_parse bs) of
        None \<Rightarrow> None
      | Some [] \<Rightarrow> None
      | Some (f # fs) \<Rightarrow>
          (let n = pf_fcount f; k = pf_rsk f;
               frag = map_of (map (\<lambda>x. (pf_findex x, pf_payload x)) (f # fs));
               fr = map (\<lambda>i. the (frag i)) [0..<n];
               c = n * length (fr ! 0) div (k + 48);
               blk = map (\<lambda>x. fr ! (x mod n) ! (x div n)) [0..<c * (k + 48)]
           in if list_ex (\<lambda>i. frag i = None) [0..<n] then None
              else if pf_fec f
              then Some (take (c * k - pf_rsz f) (concat (map (\<lambda>j. take k (drop (j * (k + 48)) blk)) [0..<c])))
              else Some (concat fr)))"

lemma those_map: "(\<And>b. b \<in> set bs \<Longrightarrow> p b = Some (g b)) \<Longrightarrow> those (map p bs) = Some (map g bs)"
  by (induction bs) auto

lemma pf_reassemble_all:
  assumes "\<And>i. i < n \<Longrightarrow> pf_parse (h i) = Some \<lparr>pf_pseq = s, pf_findex = i, pf_fcount = n, pf_fec = fec,
      pf_rsk = k, pf_rsz = z, pf_payload = pay i\<rparr>"
    and "0 < n" "set bs = h ` {..<n}"
  shows "pf_reassemble bs = Some (let fr = map pay [0..<n]; c = n * length (pay 0) div (k + 48);
        blk = map (\<lambda>x. fr ! (x mod n) ! (x div n)) [0..<c * (k + 48)]
      in if fec then take (c * k - z) (concat (map (\<lambda>j. take k (drop (j * (k + 48)) blk)) [0..<c])) else concat fr)"
proof -
  define g where "g b = the (pf_parse b)" for b
  let ?r = "\<lambda>i. \<lparr>pf_pseq = s, pf_findex = i, pf_fcount = n, pf_fec = fec, pf_rsk = k, pf_rsz = z, pf_payload = pay i\<rparr>"
  have g: "g (h i) = ?r i" if "i < n" for i using assms(1) [OF that] by (simp add: g_def)
  have "those (map pf_parse bs) = Some (map g bs)" by (rule those_map) (use assms(1,3) in \<open>auto simp: g_def\<close>)
  moreover obtain b bs' where bs: "bs = b # bs'" using assms(2,3) by (cases bs) auto
  moreover obtain i0 where "i0 < n" "b = h i0" using bs assms(3) by auto
  ultimately have t: "those (map pf_parse bs) = Some (g b # map g bs')" "pf_fcount (g b) = n" "pf_rsk (g b) = k"
    "pf_rsz (g b) = z" "pf_fec (g b) = fec" using g by auto
  define ys where "ys = map (\<lambda>x. (pf_findex x, pf_payload x)) (g b # map g bs')"
  define frag where "frag = map_of ys"
  have frag: "frag i = Some (pay i)" if "i < n" for i
  proof -
    have S: "(j, v) \<in> set ys \<longleftrightarrow> j < n \<and> v = pay j" for j v
    proof -
      have "set (g b # map g bs') = g ` h ` {..<n}" using assms(3) unfolding bs by (simp only: list.simps(9) [symmetric] set_map)
      also have "\<dots> = ?r ` {..<n}" unfolding image_image by (rule image_cong) (simp_all add: g)
      finally have "set ys = (\<lambda>i. (i, pay i)) ` {..<n}"
        unfolding ys_def set_map [where f = "\<lambda>x. (pf_findex x, pf_payload x)"] by (simp only: image_image pf.select_convs)
      then show ?thesis by auto
    qed
    have "(i, pay i) \<in> set ys" using S that by blast
    then obtain v where v: "frag i = Some v" unfolding frag_def by (blast dest: weak_map_of_SomeI)
    then have "(i, v) \<in> set ys" unfolding frag_def by (rule map_of_SomeD)
    then have "v = pay i" using S by blast
    then show ?thesis using v by simp
  qed
  then have fr: "map (\<lambda>i. the (frag i)) [0..<n] = map pay [0..<n]" by simp
  have "\<not> list_ex (\<lambda>i. frag i = None) [0..<n]" using frag by (auto simp: list_ex_iff)
  moreover have "map pay [0..<n] ! 0 = pay 0" using assms(2) by simp
  ultimately show ?thesis
    unfolding pf_reassemble_def t(1) option.case list.case t(2-5) ys_def [symmetric] frag_def [symmetric] Let_def fr by simp
qed

text \<open>The fragments without protection, put together.\<close>

lemma takeWhile_less_upt: "takeWhile (\<lambda>x. x < l) [a..<b] = [a..<min l b]"
proof (cases "b \<le> l")
  case True
  then have "takeWhile (\<lambda>x. x < l) [a..<b] = [a..<b]" by (intro takeWhile_eq_all_conv [THEN iffD2]) auto
  then show ?thesis using True by simp
next
  case False
  show ?thesis
  proof (cases "a \<le> l")
    case True
    then have "[a..<b] = [a..<l] @ l # [Suc l..<b]"
      using False upt_add_eq_append [of a l "b - l"] upt_conv_Cons [of l b] by simp
    then show ?thesis using False by (simp only:) (subst takeWhile_append2, auto)
  qed (use False in \<open>cases "a < b"; simp add: upt_conv_Cons\<close>)
qed

lemma takeWhile_less_map: "takeWhile (\<lambda>x. x < l) (map (\<lambda>j. a + j) [0..<f]) = [a..<min l (a + f)]"
  using map_add_upt [of a f] takeWhile_less_upt [of l a "a + f"] by (simp add: add.commute)

lemma fragment_plain_nth: "i < n \<Longrightarrow> fragment_plain af n f ! i = take f (drop (i * f) af)"
proof -
  assume "i < n"
  then have "fragment_plain af n f ! i = map (\<lambda>ix. af ! ix) [i * f..<min (length af) (i * f + f)]"
    by (simp add: fragment_plain_def takeWhile_less_map)
  also have "\<dots> = take f (drop (i * f) af)" 
  proof (rule nth_equalityI, goal_cases)
    case (2 x)
    then have "i * f + x < min (length af) (i * f + f)" by (auto simp: min_def split: if_splits)
    then show ?case by (subst nth_map) auto
  qed auto
  finally show ?thesis .
qed

lemma fragment_plain_concat: "length af \<le> n * f \<Longrightarrow> concat (map (\<lambda>i. take f (drop (i * f) af)) [0..<n]) = af"
proof (induction n arbitrary: af)
  case (Suc n)
  have "concat (map (\<lambda>i. take f (drop (i * f) af)) [0..<Suc n])
      = take f af @ concat (map (\<lambda>i. take f (drop (i * f) (drop f af))) [0..<n])"
    by (simp add: upt_conv_Cons comp_def add.commute del: upt_Suc flip: map_Suc_upt)
  also have "concat (map (\<lambda>i. take f (drop (i * f) (drop f af))) [0..<n]) = drop f af"
    by (rule Suc.IH) (use Suc.prems in simp)
  finally show ?case by (simp only: append_take_drop_id)
qed simp

lemma rs_block_chunk:
  assumes "k \<le> 207" "length af = c * k" "j < c"
  shows "take k (drop (j * (k + 48)) (rs_block_of c k af)) = chunk_at k af j"
proof (rule nth_equalityI)
  have len: "length (chunk_at k af j) = k" using chunk_at_length assms(2,3) by blast
  have "j * (k + 48) + (k + 48) \<le> c * (k + 48)" using assms(3) mult_le_mono1 [of "Suc j" c "k + 48"] by simp
  then have le: "k \<le> length (rs_block_of c k af) - j * (k + 48)" using rs_block_length [OF assms(1,2)] by simp
  then show "length (take k (drop (j * (k + 48)) (rs_block_of c k af))) = length (chunk_at k af j)" using len by simp
  fix t assume "t < length (take k (drop (j * (k + 48)) (rs_block_of c k af)))"
  then have t: "t < k" by simp
  then have "take k (drop (j * (k + 48)) (rs_block_of c k af)) ! t = rs_block_of c k af ! (j * (k + 48) + t)"
    using le by (simp add: nth_drop)
  also have "\<dots> = chunk_at k af j ! t" using rs_block_nth [OF assms, of t] t len by (simp add: nth_append)
  finally show "take k (drop (j * (k + 48)) (rs_block_of c k af)) ! t = chunk_at k af j ! t" .
qed

text \<open>The geometry of a protected packet: at most \<open>k + 48\<close> fragments, so the block length is known to the
  receiver up to less than one chunk.\<close>

lemma fec_geometry:
  assumes "0 < c" "s = c * 48 div (m + 1)" "m < 48" "n = CEIL_DIV (c * (k + 48)) s" "f = CEIL_DIV (c * (k + 48)) n"
  shows "n \<le> k + 48" "n * f div (k + 48) = c" "f \<le> s"
proof -
  have "c \<le> s" unfolding assms(2) using assms(3) by (subst less_eq_div_iff_mult_less_eq) simp_all
  then have s: "0 < s" "c \<le> s" using assms(1) by simp_all
  then have "c * (k + 48) \<le> (k + 48) * s" by (simp add: mult.commute)
  then show nk: "n \<le> k + 48" unfolding assms(4) using CEIL_DIV_le_iff [OF s(1)] by blast
  have N: "0 < c * (k + 48)" using assms(1) by simp
  have n: "0 < n" unfolding assms(4) by (rule CEIL_DIV_pos [OF s(1) N])
  have "c * (k + 48) \<le> n * s" unfolding assms(4) by (rule CEIL_DIV_upper [OF s(1)])
  then show "f \<le> s" unfolding assms(5) using CEIL_DIV_le_iff [OF n] by (simp add: mult.commute)
  have f: "0 < f" unfolding assms(5) by (rule CEIL_DIV_pos [OF n N])
  have "c * (k + 48) \<le> n * f" unfolding assms(5) using CEIL_DIV_upper [OF n] by (simp add: mult.commute)
  moreover have "(f - 1) * n < c * (k + 48)" unfolding assms(5) by (rule CEIL_DIV_lower [OF n N])
  then have "n * f < c * (k + 48) + (k + 48)" using nk f by (cases f) (simp_all add: mult.commute)
  ultimately have "n * f div (k + 48) = c"
    by (intro div_nat_eqI) (simp_all add: algebra_simps)
  then show "n * f div (k + 48) = c" .
qed

lemma pft_roundtrip_fec:
  assumes "0 < pft_k p" "pft_k p \<le> 207" "af \<noteq> []" "0 < pft_m p" "pft_m p < 48"
    and "CEIL_DIV (length af) (unat (pft_k p)) \<le> 256"
  obtains fr p' where "PFT_Assemble p af = (Inr fr, p')" "pft_pseq p' = pft_pseq p + 1"
    "\<And>bs. set bs = set fr \<Longrightarrow> pf_reassemble bs = Some af"
    "\<And>i. i < length fr \<Longrightarrow> map_option pf_pseq (pf_parse (fr ! i)) = Some (pft_pseq p)" "length fr \<le> 255"
proof -
  obtain c k z n f s blk where A: "c = CEIL_DIV (length af) (unat (pft_k p))"
    "z = c * k - length af" "0 < c" "0 < k" "k \<le> 207" "z < c" "length (af @ replicate z 0) = c * k"
    "blk = rs_block_of c k (af @ replicate z 0)" "length blk = c * (k + 48)"
    "s = c * 48 div (unat (pft_m p) + 1)" "n = CEIL_DIV (c * (k + 48)) s" "0 < n"
    "f = CEIL_DIV (c * (k + 48)) n" "c * (k + 48) \<le> n * f"
    "PFT_Assemble p af = (Inr (map (\<lambda>i. pft_header (pft_pseq p) i n True f k z @ interleave blk n f ! i) [0..<n]),
        p\<lparr>pft_num_chunks := c, pft_pseq := pft_pseq p + 1\<rparr>)"
    by (rule PFT_Assemble_fec [OF assms(1-5)]) blast
  let ?h = "\<lambda>i. pft_header (pft_pseq p) i n True f k z @ interleave blk n f ! i"
  have "unat (pft_m p) < 48" using assms(5) by (simp add: word_less_nat_alt)
  note geo = fec_geometry [OF A(3,10) this A(11,13)]
  have c: "c \<le> 256" using assms(6) A(1) by simp
  then have z: "z < 256" "n < 2 ^ 24" using A(5,6) geo(1) by simp_all
  have "s \<le> c * 48 div 2" unfolding A(10) using assms(4) by (intro div_le_mono2) (auto simp: word_less_nat_alt)
  then have f14: "f < 2 ^ 14" using geo(3) c by simp
  have fl: "length (interleave blk n f ! i) = f" if "i < n" for i using that by (simp add: interleave_def)
  have parse: "pf_parse (?h i) = Some \<lparr>pf_pseq = pft_pseq p, pf_findex = i, pf_fcount = n, pf_fec = True, pf_rsk = k,
      pf_rsz = z, pf_payload = interleave blk n f ! i\<rparr>" if "i < n" for i
    using pf_parse_header [of i n "interleave blk n f ! i" k z True "pft_pseq p"] fl [OF that] that z f14 A(5) by simp
  have "map (\<lambda>x. map (\<lambda>i. interleave blk n f ! i) [0..<n] ! (x mod n) ! (x div n)) [0..<c * (k + 48)] = blk"
    by (rule nth_equalityI) (use interleave_byte [OF A(12), of _ blk f] A(9,12,14) in simp_all)
  moreover have "map (\<lambda>j. take k (drop (j * (k + 48)) blk)) [0..<c] = map (chunk_at k (af @ replicate z 0)) [0..<c]"
    unfolding A(8) using rs_block_chunk [OF A(5,7)] by simp
  then have cc: "concat (map (\<lambda>j. take k (drop (j * (k + 48)) blk)) [0..<c]) = af @ replicate z 0"
    using chunks_concat [OF A(7)] by (simp only:)
  have "c * k - z = length af" using A(7) by simp
  then have "take (c * k - z) (concat (map (\<lambda>j. take k (drop (j * (k + 48)) blk)) [0..<c])) = af"
    unfolding cc by simp
  ultimately have "pf_reassemble bs = Some af" if "set bs = ?h ` {..<n}" for bs
    using pf_reassemble_all [OF parse A(12) that] fl [OF A(12)] geo(2) by (simp add: Let_def)
  then show thesis
    by (intro that [OF A(15)]) (use parse geo(1) A(5) in \<open>auto simp: lessThan_atLeast0\<close>)
qed

lemma pft_roundtrip_plain:
  assumes "af \<noteq> []" "pft_m p = 0" "length af \<le> 52992"
  obtains fr p' where "PFT_Assemble p af = (Inr fr, p')" "pft_pseq p' = pft_pseq p + 1"
    "\<And>bs. set bs = set fr \<Longrightarrow> pf_reassemble bs = Some af"
    "\<And>i. i < length fr \<Longrightarrow> map_option pf_pseq (pf_parse (fr ! i)) = Some (pft_pseq p)" "length fr \<le> 255"
proof -
  define n where "n = CEIL_DIV (length af) 1400"
  define f where "f = CEIL_DIV (length af) n"
  let ?pay = "\<lambda>i. take f (drop (i * f) af)"
  let ?h = "\<lambda>i. pft_header (pft_pseq p) i n False (length (?pay i)) 0 0 @ ?pay i"
  have l: "0 < length af" using assms(1) by simp
  have n: "0 < n" unfolding n_def by (rule CEIL_DIV_pos) (use l in simp_all)
  have "length af \<le> n * 1400" unfolding n_def by (rule CEIL_DIV_upper) simp
  then have f: "f \<le> 1400" unfolding f_def using CEIL_DIV_le_iff [OF n] by (simp add: mult.commute)
  have nf: "length af \<le> n * f" unfolding f_def using CEIL_DIV_upper [OF n] by (simp add: mult.commute)
  have n255: "n \<le> 255" unfolding n_def by (subst CEIL_DIV_le_iff) (use assms(3) in simp_all)
  then have n24: "n < 2 ^ 24" by simp
  have "ProtectAndFragment p af = (Inr (fragment_plain af n f), p)"
    using assms(2) n by (simp add: ProtectAndFragment_def Let_def flip: n_def f_def)
  moreover have "length (fragment_plain af n f) = n" by (simp add: fragment_plain_def)
  ultimately have A: "PFT_Assemble p af = (Inr (map ?h [0..<n]), p\<lparr>pft_pseq := pft_pseq p + 1\<rparr>)"
    using assms(2) by (simp add: PFT_Assemble_def Let_def map_enumerate fragment_plain_nth cong: map_cong)
  have parse: "pf_parse (?h i) = Some \<lparr>pf_pseq = pft_pseq p, pf_findex = i, pf_fcount = n, pf_fec = False, pf_rsk = 0,
      pf_rsz = 0, pf_payload = ?pay i\<rparr>" if "i < n" for i
    using pf_parse_header [of i n "?pay i" 0 0 False "pft_pseq p"] that n24 f by simp
  have "pf_reassemble bs = Some af" if "set bs = ?h ` {..<n}" for bs
    using pf_reassemble_all [OF parse n that] fragment_plain_concat [OF nf] by (simp add: Let_def)
  then show thesis
    by (intro that [OF A]) (use parse n255 in \<open>auto simp: lessThan_atLeast0\<close>)
qed

lemma pft_reassembles:
  assumes "0 < pft_k p" "pft_k p \<le> 207" "pft_m p < 48" "af \<noteq> []"
    and "CEIL_DIV (length af) (unat (pft_k p)) \<le> 256"
  shows "\<exists>fr p'. PFT_Assemble p af = (Inr fr, p') \<and> pft_pseq p' = pft_pseq p + 1 \<and> length fr \<le> 255
    \<and> (\<forall>i < length fr. map_option pf_pseq (pf_parse (fr ! i)) = Some (pft_pseq p))
    \<and> (\<forall>bs. set bs = set fr \<longrightarrow> pf_reassemble bs = Some af)"
proof (cases "pft_m p = 0")
  case True
  have "length af \<le> 256 * unat (pft_k p)"
    using assms(1,5) CEIL_DIV_le_iff by (simp add: word_less_nat_alt)
  also have "\<dots> \<le> 52992" using assms(2) by (simp add: word_le_nat_alt)
  finally show ?thesis by (rule pft_roundtrip_plain [OF assms(4) True]) blast
next
  case False
  then have "0 < pft_m p" by (simp add: word_neq_0_conv)
  then show ?thesis by (rule pft_roundtrip_fec [OF assms(1,2,4) _ assms(3,5)]) blast
qed

text \<open>C7: a receiver gets the AF packet back. Every non-empty packet (of at most 256 chunks, and for a
  chunk length and a number of recoverable fragments in range) is assembled into PF packets with the
  current sequence number, and from these, in any order and with any repetition, reassembly
  recovers the packet; there are at most 255 of them, and the sequence number then advances.\<close>

theorem pft_roundtrip:
  assumes "0 < pft_k p" "pft_k p \<le> 207" "pft_m p < 48" "af \<noteq> []"
    and "CEIL_DIV (length af) (unat (pft_k p)) \<le> 256"
  shows "\<exists>fr p'. PFT_Assemble p af = (Inr fr, p') \<and> pft_pseq p' = pft_pseq p + 1 \<and> length fr \<le> 255
    \<and> (\<forall>i < length fr. map_option pf_pseq (pf_parse (fr ! i)) = Some (pft_pseq p))
    \<and> (\<forall>bs. set bs = set fr \<longrightarrow> pf_reassemble bs = Some af)"
  using assms by (rule pft_reassembles)

theorem pft_roundtrip_witness:
  "\<exists>fr p'. PFT_Assemble \<lparr>pft_k = 207, pft_m = 2, pft_pseq = 65535, pft_num_chunks = 0\<rparr> [1, 2, 3] = (Inr fr, p')
    \<and> pft_pseq p' = 0 \<and> pf_reassemble (rev fr @ fr) = Some [1, 2, 3]"
proof -
  let ?p = "\<lparr>pft_k = 207, pft_m = 2, pft_pseq = 65535, pft_num_chunks = 0\<rparr> :: PFT"
  have "CEIL_DIV (length [1, 2, 3 :: byte]) (unat (pft_k ?p)) \<le> 256" by (simp add: CEIL_DIV_def)
  then obtain fr p' where "PFT_Assemble ?p [1, 2, 3] = (Inr fr, p')" "pft_pseq p' = pft_pseq ?p + 1"
    "\<forall>bs. set bs = set fr \<longrightarrow> pf_reassemble bs = Some [1, 2, 3]"
    using pft_roundtrip [of ?p "[1, 2, 3]"] by auto
  then show ?thesis by (intro exI [of _ fr] exI [of _ p']) simp
qed

theorem pft_recovers_lost_fragments_witness:
  "\<exists>fr fr' p1 p2 af'. PFT_Assemble \<lparr>pft_k = 207, pft_m = 1, pft_pseq = 0, pft_num_chunks = 0\<rparr> [1, 2, 3] = (Inr fr, p1)
    \<and> PFT_Assemble \<lparr>pft_k = 207, pft_m = 1, pft_pseq = 0, pft_num_chunks = 0\<rparr> af' = (Inr fr', p2)
    \<and> tl fr = tl fr' \<and> length af' = 3 \<and> af' = [1, 2, 3]"
proof -
  let ?p = "\<lparr>pft_k = 207, pft_m = 1, pft_pseq = 0, pft_num_chunks = 0\<rparr> :: PFT"
  obtain fr p' where a: "PFT_Assemble ?p [1, 2, 3] = (Inr fr, p')"
    by (rule PFT_Assemble_fec [of ?p "[1, 2, 3]"]) auto
  have "([1, 2, 3] :: bytes) = [1, 2, 3]"
    by (rule pft_recovers_lost_fragments [OF _ _ _ _ _ a a, of "{0}"]) simp_all
  then show ?thesis using a by (metis length_Cons list.size(3) numeral_3_eq_3)
qed

text \<open>C35: when fragmentation fails. For a chunk length within range, assembling fails exactly when the
  packet is empty or more fragments are to be recoverable than the parity can pay for
  (\<open>m + 1 > 48 c\<close>, \<open>c\<close> chunks, the sum taken modulo 2^32); the failure is a division by zero.\<close>

theorem pft_assemble_fails_iff:
  assumes "0 < pft_k p" "pft_k p \<le> 207"
  shows "if af = [] \<or> 0 < pft_m p \<and> (pft_m p + 1 = 0
        \<or> 48 * CEIL_DIV (length af) (unat (pft_k p)) < unat (pft_m p + 1))
    then \<exists>p'. PFT_Assemble p af = (Inl DivByZero, p') else \<exists>fr p'. PFT_Assemble p af = (Inr fr, p')"
proof -
  have P: "fst (PFT_Assemble p af) = Inl DivByZero \<and> bad \<or> (\<exists>fr. fst (PFT_Assemble p af) = Inr fr) \<and> \<not> bad"
    if bad: "bad = (af = [] \<or> 0 < pft_m p \<and> (pft_m p + 1 = 0
        \<or> 48 * CEIL_DIV (length af) (unat (pft_k p)) < unat (pft_m p + 1)))" for bad
  proof (cases "af = []")
    case True
    then show ?thesis
      using assms(1) by (simp add: bad PFT_Assemble_def ProtectAndFragment_def Protect_def Let_def CEIL_DIV_def)
  next
    case False
    show ?thesis
    proof (cases "pft_m p = 0")
      case True
      have "0 < CEIL_DIV (length af) 1400" using False by (intro CEIL_DIV_pos) simp_all
      then show ?thesis using True False by (simp add: bad PFT_Assemble_def ProtectAndFragment_def Let_def)
    next
      case m: False
      then have m0: "0 < pft_m p" by (simp add: word_neq_0_conv)
      obtain c k z where B: "c = CEIL_DIV (length af) (unat (pft_k p))" "0 < c" "k \<le> 207"
        "length (af @ replicate z 0) = c * k"
        "Protect p af = (Inr (rs_block_of c k (af @ replicate z 0)), p\<lparr>pft_num_chunks := c\<rparr>)"
        by (rule Protect_block [OF assms False]) blast
      note len = rs_block_length [OF B(3,4)]
      let ?s = "c * 48 div unat (pft_m p + 1)"
      have "0 < CEIL_DIV (c * (k + 48)) ?s" if "0 < ?s" using that B(2) by (intro CEIL_DIV_pos) simp_all
      moreover have "(?s = 0) = (pft_m p + 1 = 0 \<or> 48 * c < unat (pft_m p + 1))"
        by (auto simp: div_eq_0_iff unat_eq_0 mult.commute)
      ultimately show ?thesis
        using m0 m False B(5) len
        by (auto simp: bad PFT_Assemble_def ProtectAndFragment_def Let_def PARITYBYTES_def B(1) [symmetric] unat_eq_0)
    qed
  qed
  show ?thesis using P [OF refl] by (cases "PFT_Assemble p af") auto
qed

theorem pft_assemble_fails_iff_witness:
  "\<exists>p'. PFT_Assemble \<lparr>pft_k = 207, pft_m = 48, pft_pseq = 0, pft_num_chunks = 0\<rparr> [1, 2, 3] = (Inl DivByZero, p')"
  using pft_assemble_fails_iff [of "\<lparr>pft_k = 207, pft_m = 48, pft_pseq = 0, pft_num_chunks = 0\<rparr>" "[1, 2, 3]"]
  by (simp add: CEIL_DIV_def)

end
