(* ===== verification/Sockets.thy ===== *)
theory Sockets
  imports Prelude
begin

text \<open>
  Model of the UDP half of \<open>lib/Socket.h\<close> and \<open>lib/Socket.cpp\<close>. The operating system is not part
  of the program: what a system call answers is an argument of the definitions (a received
  datagram or an errno, the outcome of \<open>sendto\<close>, the candidate addresses of \<open>getaddrinfo\<close> with
  the results of \<open>socket\<close> and \<open>bind\<close>). The set of open file descriptors is explicit state, so
  that what the code closes, keeps or loses can be stated.
\<close>

datatype errno = EAGAIN | ECONNREFUSED | ENOENT | EINTR | EINPROGRESS | EOther nat

type_synonym InetAddress = nat
type_synonym fdtable = "int set"

record UDPPacket =
  pkt_buffer :: bytes
  pkt_address :: InetAddress

definition UDPPacket_init :: "nat \<Rightarrow> UDPPacket" where
  "UDPPacket_init initSize = \<lparr>pkt_buffer = replicate initSize 0, pkt_address = 0\<rparr>"

record UDPSocket =
  us_sock :: int
  us_port :: int

subsection \<open>Receiving and sending\<close>

datatype recv_result = RecvData bytes InetAddress | RecvError errno

text \<open>A datagram longer than the buffer is cut by the kernel; no datagram is an empty packet.\<close>

definition udp_receive :: "nat \<Rightarrow> recv_result \<Rightarrow> exn + UDPPacket" where
  "udp_receive max_size res =
     (case res of
        RecvError e \<Rightarrow> if e = EAGAIN then Inr (UDPPacket_init 0) else Inl RuntimeError
      | RecvData bs a \<Rightarrow> Inr \<lparr>pkt_buffer = take max_size bs, pkt_address = a\<rparr>)"

text \<open>\<open>None\<close> is a \<open>sendto\<close> that succeeds; a refused connection is not an error.\<close>

definition udp_send :: "errno option \<Rightarrow> exn + unit" where
  "udp_send ret =
     (case ret of None \<Rightarrow> Inr ()
      | Some e \<Rightarrow> if e \<noteq> ECONNREFUSED then Inl RuntimeError else Inr ())"

text \<open>\<open>send\<close> of a buffer to an address; the result is the datagram that leaves.\<close>

definition udp_send_to :: "bytes \<Rightarrow> InetAddress \<Rightarrow> errno option \<Rightarrow> exn + (InetAddress \<times> bytes) list" where
  "udp_send_to data destination ret =
     (case ret of None \<Rightarrow> Inr [(destination, data)]
      | Some e \<Rightarrow> if e \<noteq> ECONNREFUSED then Inl RuntimeError else Inr [])"

text \<open>One call of a system function takes the next answer; without one, nothing has arrived.\<close>

definition next_recv :: "recv_result list \<Rightarrow> recv_result \<times> recv_result list" where
  "next_recv rs = (case rs of [] \<Rightarrow> (RecvError EAGAIN, []) | r # rs' \<Rightarrow> (r, rs'))"

definition next_send :: "errno option list \<Rightarrow> errno option \<times> errno option list" where
  "next_send ss = (case ss of [] \<Rightarrow> (None, []) | s # ss' \<Rightarrow> (s, ss'))"

subsection \<open>Opening and closing\<close>

text \<open>
  \<open>be_gai\<close> is the status of \<open>getaddrinfo\<close>, \<open>be_cands\<close> its results in order, each with the
  descriptor that \<open>socket\<close> returns for it (or -1) and whether \<open>bind\<close> succeeds; \<open>be_any\<close> is the
  descriptor of a socket that is not bound.
\<close>

record bind_env =
  be_gai :: int
  be_cands :: "(int \<times> bool) list"
  be_any :: int

definition close_fd :: "int \<Rightarrow> fdtable \<Rightarrow> fdtable" where
  "close_fd fd fds = fds - {fd}"

fun try_bind :: "(int \<times> bool) list \<Rightarrow> int option" where
  "try_bind [] = None"
| "try_bind ((sfd, ok) # rest) =
     (if sfd = -1 then try_bind rest else if ok then Some sfd else try_bind rest)"

definition udp_reinit ::
  "UDPSocket \<Rightarrow> int \<Rightarrow> bind_env \<Rightarrow> fdtable \<Rightarrow> exn option \<times> UDPSocket \<times> fdtable" where
  "udp_reinit u port env fds =
     (let fds1 = (if us_sock u \<noteq> -1 then close_fd (us_sock u) fds else fds);
          u1 = u\<lparr>us_port := port\<rparr>
      in if port = 0 then
           (None, u1\<lparr>us_sock := be_any env\<rparr>,
            if be_any env = -1 then fds1 else insert (be_any env) fds1)
         else if be_gai env \<noteq> 0 then (Some RuntimeError, u1, fds1)
         else (case try_bind (be_cands env) of
                 Some sfd \<Rightarrow> (None, u1\<lparr>us_sock := sfd\<rparr>, insert sfd fds1)
               | None \<Rightarrow> (Some RuntimeError, u1, fds1)))"

text \<open>The constructors (the name of the interface is not used), and the move constructor.\<close>

definition UDPSocket_init :: "int \<Rightarrow> bind_env \<Rightarrow> fdtable \<Rightarrow> exn option \<times> UDPSocket \<times> fdtable" where
  [simp]: "UDPSocket_init port env fds = udp_reinit \<lparr>us_sock = -1, us_port = 0\<rparr> port env fds"

definition udp_move :: "UDPSocket \<Rightarrow> UDPSocket \<times> UDPSocket" where
  "udp_move other = (\<lparr>us_sock = us_sock other, us_port = us_port other\<rparr>, other\<lparr>us_port := 0, us_sock := -1\<rparr>)"

definition udp_close :: "UDPSocket \<Rightarrow> fdtable \<Rightarrow> UDPSocket \<times> fdtable" where
  "udp_close u fds =
     (u\<lparr>us_sock := -1\<rparr>, if us_sock u \<noteq> -1 then close_fd (us_sock u) fds else fds)"

text \<open>Move assignment: the descriptor and port change owner.\<close>

definition udp_move_assign :: "UDPSocket \<Rightarrow> UDPSocket \<Rightarrow> UDPSocket \<times> UDPSocket" where
  "udp_move_assign this other =
     (this\<lparr>us_sock := us_sock other, us_port := us_port other\<rparr>,
      other\<lparr>us_port := 0, us_sock := -1\<rparr>)"

text \<open>\<open>ga_ok\<close>: the group name converts to an address; \<open>mc\<close>: it is a multicast address;
  \<open>so_ok\<close>: \<open>setsockopt\<close> succeeds.\<close>

definition udp_joinGroup :: "bool \<Rightarrow> bool \<Rightarrow> bool \<Rightarrow> exn option" where
  "udp_joinGroup ga_ok mc so_ok =
     (if \<not> ga_ok then Some RuntimeError
      else if \<not> mc then Some RuntimeError
      else if \<not> so_ok then Some RuntimeError else None)"

text \<open>Whether the source address can be parsed, and whether \<open>fcntl\<close> or \<open>setsockopt\<close> succeed.\<close>

definition udp_setBlocking :: "bool \<Rightarrow> exn option" where
  "udp_setBlocking fcntl_ok = (if \<not> fcntl_ok then Some RuntimeError else None)"

definition udp_setMulticastSource :: "bool \<Rightarrow> bool \<Rightarrow> exn option" where
  "udp_setMulticastSource aton_ok so_ok =
     (if \<not> aton_ok then Some RuntimeError else if \<not> so_ok then Some RuntimeError else None)"

definition udp_setMulticastTTL :: "bool \<Rightarrow> exn option" where
  "udp_setMulticastTTL so_ok = (if \<not> so_ok then Some RuntimeError else None)"

definition udp_destroy :: "UDPSocket \<Rightarrow> fdtable \<Rightarrow> fdtable" where
  "udp_destroy u fds = (if us_sock u \<noteq> -1 then close_fd (us_sock u) fds else fds)"

text \<open>\<open>resolveUdpDestination\<close>: the status of \<open>getaddrinfo\<close> and its results.\<close>

definition resolveUdpDestination :: "int \<Rightarrow> InetAddress list \<Rightarrow> exn + InetAddress" where
  "resolveUdpDestination s result =
     (if s \<noteq> 0 then Inl RuntimeError
      else (case result of [] \<Rightarrow> Inl RuntimeError | a # _ \<Rightarrow> Inr a))"

subsection \<open>Facts about the UDP sockets\<close>

text \<open>What a socket holds open; a socket that has been moved from holds nothing.\<close>

definition udp_fds :: "UDPSocket \<Rightarrow> fdtable" where
  "udp_fds u = {us_sock u} - {-1}"

lemma udp_destroy_fds: "udp_destroy u fds = fds - udp_fds u"
  by (auto simp: udp_destroy_def close_fd_def udp_fds_def)

lemma udp_move_fds: "udp_move u = (v, u') \<Longrightarrow> udp_fds v = udp_fds u \<and> udp_fds u' = {}"
  by (auto simp: udp_move_def udp_fds_def)

text \<open>The descriptors that the system may answer with while a socket is opened.\<close>

definition bind_fds :: "bind_env \<Rightarrow> fdtable" where
  "bind_fds env = insert (be_any env) (fst ` set (be_cands env)) - {-1}"

lemma try_bind_some: "try_bind cands = Some fd \<Longrightarrow> fd \<in> fst ` set cands \<and> fd \<noteq> -1"
  by (induction cands rule: try_bind.induct) (auto split: if_splits)

lemma UDPSocket_init_fds:
  assumes "UDPSocket_init port env fds = (e, u, fds1)"
  shows "udp_fds u \<subseteq> bind_fds env" "fds1 = fds \<union> udp_fds u" "e \<noteq> None \<Longrightarrow> udp_fds u = {}"
  using assms by (auto simp: udp_reinit_def udp_fds_def bind_fds_def Let_def split: if_splits option.splits dest: try_bind_some)

lemma udp_receive_length: "udp_receive n r = Inr p \<Longrightarrow> length (pkt_buffer p) \<le> n"
  by (auto simp: udp_receive_def UDPPacket_init_def split: recv_result.splits if_splits)

lemma next_recv_length: "next_recv rs = (r, rs') \<Longrightarrow> length rs' \<le> length rs"
  by (auto simp: next_recv_def split: list.splits)

text \<open>Only a scripted answer can deliver data, so a non-empty packet uses one up.\<close>

lemma next_recv_data:
  assumes "next_recv rs = (r, rs')" "udp_receive n r = Inr p" "pkt_buffer p \<noteq> []"
  shows "length rs' < length rs"
  using assms by (auto simp: next_recv_def udp_receive_def UDPPacket_init_def split: list.splits)

lemma udp_reinit_open:
  assumes "udp_reinit u port env fds = (None, u', fds')" "port \<noteq> 0"
  shows "us_sock u' \<in> fds' \<and> us_port u' = port"
  using assms by (auto simp: udp_reinit_def Let_def split: if_splits option.splits)

end
