(* ===== verification/ThreadsafeQueue.thy ===== *)
theory ThreadsafeQueue
  imports Prelude "HOL-Library.Sublist"
begin

text \<open>
  Model of \<open>lib/ThreadsafeQueue.h\<close>: a queue for one producer and one consumer thread, with a mutex and
  two condition variables. What a method does while it holds the mutex is one function on the
  queue. Where the threads stand between these critical sections (asleep on a condition variable,
  woken, about to notify) is the state of a step relation, in which the threads interleave freely
  and sleeping threads may also wake without reason.
\<close>

subsection \<open>The critical sections\<close>

record 'a tsq =
  the_queue :: "'a list"
  wakeup_requested :: bool

definition tsq_empty :: "'a tsq" where
  "tsq_empty = \<lparr>the_queue = [], wakeup_requested = False\<rparr>"

text \<open>\<open>push(val, max_size)\<close>: the new size.\<close>

definition tsq_push :: "'a tsq \<Rightarrow> 'a \<Rightarrow> nat \<Rightarrow> nat \<times> 'a tsq" where
  "tsq_push q val max_size =
     (let queue_size_before = length (the_queue q);
          q' = (if max_size = 0 then q\<lparr>the_queue := the_queue q @ [val]\<rparr>
                else if queue_size_before < max_size then q\<lparr>the_queue := the_queue q @ [val]\<rparr>
                else q)
      in (length (the_queue q'), q'))"

text \<open>\<open>push_overflow(val, max_size)\<close>: the loop that makes room, then the flag and the new size.\<close>

fun overflow_loop :: "'a list \<Rightarrow> nat \<Rightarrow> bool \<Rightarrow> exn + 'a list \<times> bool" where
  "overflow_loop [] max_size overflow = (if max_size \<le> 0 then Inl OutOfBounds else Inr ([], overflow))"
| "overflow_loop (x # xs) max_size overflow =
     (if length (x # xs) \<ge> max_size then overflow_loop xs max_size True else Inr (x # xs, overflow))"

definition tsq_push_overflow :: "'a tsq \<Rightarrow> 'a \<Rightarrow> nat \<Rightarrow> exn + (bool \<times> nat) \<times> 'a tsq" where
  "tsq_push_overflow q val max_size =
     (if max_size = 0 then Inl AssertFailed
      else (case overflow_loop (the_queue q) max_size False of
              Inl e \<Rightarrow> Inl e
            | Inr (rest, overflow) \<Rightarrow>
                Inr ((overflow, length (rest @ [val])), q\<lparr>the_queue := rest @ [val]\<rparr>)))"

text \<open>\<open>push_wait_if_full(val, threshold)\<close>, one check of the loop condition: \<open>None\<close> is to sleep.\<close>

definition tsq_push_wait :: "'a tsq \<Rightarrow> 'a \<Rightarrow> nat \<Rightarrow> (nat \<times> 'a tsq) option" where
  "tsq_push_wait q val threshold =
     (if length (the_queue q) \<ge> threshold then None
      else Some (length (the_queue q @ [val]), q\<lparr>the_queue := the_queue q @ [val]\<rparr>))"

definition tsq_trigger_wakeup :: "'a tsq \<Rightarrow> 'a tsq" where
  "tsq_trigger_wakeup q = q\<lparr>wakeup_requested := True\<rparr>"

definition tsq_is_empty :: "'a tsq \<Rightarrow> bool" where
  "tsq_is_empty q = (the_queue q = [])"

definition tsq_size :: "'a tsq \<Rightarrow> nat" where
  "tsq_size q = length (the_queue q)"

definition tsq_try_pop :: "'a tsq \<Rightarrow> ('a \<times> 'a tsq) option" where
  "tsq_try_pop q = (case the_queue q of [] \<Rightarrow> None | x # xs \<Rightarrow> Some (x, q\<lparr>the_queue := xs\<rparr>))"

text \<open>\<open>wait_and_pop(popped_value, prebuffering)\<close>, one check of the loop condition. With no prebuffering
  the front of an empty queue would be taken.\<close>

datatype 'a pop_result = Sleep | ThreadsafeQueueWakeup | Popped 'a

definition tsq_wait_and_pop :: "'a tsq \<Rightarrow> nat \<Rightarrow> exn + 'a pop_result \<times> 'a tsq" where
  "tsq_wait_and_pop q prebuffering =
     (if length (the_queue q) < prebuffering \<and> \<not> wakeup_requested q then Inr (Sleep, q)
      else if wakeup_requested q then Inr (ThreadsafeQueueWakeup, q\<lparr>wakeup_requested := False\<rparr>)
      else (case the_queue q of
              [] \<Rightarrow> Inl OutOfBounds
            | x # xs \<Rightarrow> Inr (Popped x, q\<lparr>the_queue := xs\<rparr>)))"

subsection \<open>Two threads\<close>

text \<open>
  Where the producer stands: outside the queue, in between unlocking and \<open>notify_one\<close>, asleep in
  \<open>push_wait_if_full\<close>, or woken and about to check again; and the same for the consumer.
\<close>

datatype 'a producer = PIdle | PNotify | PWait 'a nat | PWoken 'a nat
datatype consumer = CIdle | CNotify | CWait nat | CWoken nat

text \<open>The last three fields record the history: what was handed to the queue, what came out of it, and
  how many elements were discarded.\<close>

record 'a tsys =
  sys_q :: "'a tsq"
  prod :: "'a producer"
  cons :: consumer
  pushed :: "'a list"
  popped :: "'a list"
  discarded :: nat

definition tsys_init :: "'a tsys" where
  "tsys_init = \<lparr>sys_q = tsq_empty, prod = PIdle, cons = CIdle, pushed = [], popped = [], discarded = 0\<rparr>"

text \<open>\<open>notify_one\<close> wakes the thread that sleeps, if it does.\<close>

definition wake_cons :: "consumer \<Rightarrow> consumer" where
  "wake_cons c = (case c of CWait n \<Rightarrow> CWoken n | _ \<Rightarrow> c)"

definition wake_prod :: "'a producer \<Rightarrow> 'a producer" where
  "wake_prod p = (case p of PWait v n \<Rightarrow> PWoken v n | _ \<Rightarrow> p)"

inductive tstep :: "'a tsys \<Rightarrow> 'a tsys \<Rightarrow> bool" where
  push: "prod s = PIdle \<Longrightarrow> tsq_push (sys_q s) v m = (n, q) \<Longrightarrow>
    tstep s (s\<lparr>sys_q := q, prod := PNotify, pushed := pushed s @ [v],
      discarded := discarded s + (length (the_queue (sys_q s)) + 1 - n)\<rparr>)"
| push_overflow: "prod s = PIdle \<Longrightarrow> tsq_push_overflow (sys_q s) v m = Inr ((ov, n), q) \<Longrightarrow>
    tstep s (s\<lparr>sys_q := q, prod := PNotify, pushed := pushed s @ [v],
      discarded := discarded s + (length (the_queue (sys_q s)) + 1 - n)\<rparr>)"
| push_wait: "prod s = PIdle \<or> prod s = PWoken v t \<Longrightarrow> tsq_push_wait (sys_q s) v t = Some (n, q) \<Longrightarrow>
    tstep s (s\<lparr>sys_q := q, prod := PNotify, pushed := pushed s @ [v]\<rparr>)"
| push_sleep: "prod s = PIdle \<or> prod s = PWoken v t \<Longrightarrow> tsq_push_wait (sys_q s) v t = None \<Longrightarrow>
    tstep s (s\<lparr>prod := PWait v t\<rparr>)"
| trigger_wakeup: "prod s = PIdle \<Longrightarrow>
    tstep s (s\<lparr>sys_q := tsq_trigger_wakeup (sys_q s), prod := PNotify\<rparr>)"
| notify_rx: "prod s = PNotify \<Longrightarrow> tstep s (s\<lparr>prod := PIdle, cons := wake_cons (cons s)\<rparr>)"
| try_pop: "cons s = CIdle \<Longrightarrow> tsq_try_pop (sys_q s) = Some (x, q) \<Longrightarrow>
    tstep s (s\<lparr>sys_q := q, cons := CNotify, popped := popped s @ [x]\<rparr>)"
| pop: "cons s = CIdle \<or> cons s = CWoken b \<Longrightarrow> tsq_wait_and_pop (sys_q s) b = Inr (Popped x, q) \<Longrightarrow>
    tstep s (s\<lparr>sys_q := q, cons := CNotify, popped := popped s @ [x]\<rparr>)"
| pop_wakeup: "cons s = CIdle \<or> cons s = CWoken b \<Longrightarrow> tsq_wait_and_pop (sys_q s) b = Inr (ThreadsafeQueueWakeup, q) \<Longrightarrow>
    tstep s (s\<lparr>sys_q := q, cons := CIdle\<rparr>)"
| pop_sleep: "cons s = CIdle \<or> cons s = CWoken b \<Longrightarrow> tsq_wait_and_pop (sys_q s) b = Inr (Sleep, q) \<Longrightarrow>
    tstep s (s\<lparr>cons := CWait b\<rparr>)"
| notify_tx: "cons s = CNotify \<Longrightarrow> tstep s (s\<lparr>cons := CIdle, prod := wake_prod (prod s)\<rparr>)"
| spurious_rx: "tstep s (s\<lparr>cons := wake_cons (cons s)\<rparr>)"
| spurious_tx: "tstep s (s\<lparr>prod := wake_prod (prod s)\<rparr>)"

inductive treach :: "'a tsys \<Rightarrow> bool" where
  init: "treach tsys_init"
| step: "treach s \<Longrightarrow> tstep s s' \<Longrightarrow> treach s'"

inductive_cases tstepE: "tstep s s'"

subsection \<open>The queue as its users see it\<close>

locale fifo =
  fixes items :: "'q \<Rightarrow> 'a list"
    and enqueue :: "'q \<Rightarrow> 'a \<Rightarrow> 'q"
    and dequeue :: "'q \<Rightarrow> ('a \<times> 'q) option"
  assumes items_enqueue: "items (enqueue q x) = items q @ [x]"
    and dequeue_None: "dequeue q = None \<longleftrightarrow> items q = []"
    and dequeue_Some: "dequeue q = Some (x, q') \<Longrightarrow> items q = x # items q'"
begin

lemma items_enqueue_all: "items (foldl enqueue q xs) = items q @ xs"
  by (induction xs arbitrary: q) (simp_all add: items_enqueue)

fun dequeue_all :: "nat \<Rightarrow> 'q \<Rightarrow> 'a list" where
  "dequeue_all 0 q = []"
| "dequeue_all (Suc n) q = (case dequeue q of None \<Rightarrow> [] | Some (x, q') \<Rightarrow> x # dequeue_all n q')"

lemma dequeue_all_take: "dequeue_all n q = take n (items q)"
proof (induction n arbitrary: q)
  case (Suc n)
  show ?case
  proof (cases "dequeue q")
    case None
    then have "items q = []" by (simp add: dequeue_None [symmetric])
    then show ?thesis using None by simp
  next
    case (Some r)
    then show ?thesis using dequeue_Some Suc by (cases r) force
  qed
qed simp

end

interpretation tsq: fifo the_queue "\<lambda>q x. snd (tsq_push q x 0)" tsq_try_pop
  by unfold_locales (auto simp: tsq_push_def tsq_try_pop_def Let_def split: list.splits)

lemma overflow_loop_drop:
  assumes "0 < m"
  shows "overflow_loop xs m ov = Inr (drop (Suc (length xs) - m) xs, ov \<or> m \<le> length xs)"
proof (induction xs arbitrary: ov)
  case (Cons x xs)
  show ?case
  proof (cases "m \<le> length (x # xs)")
    case True
    then have "Suc (length (x # xs)) - m = Suc (Suc (length xs) - m)" by simp
    then show ?thesis using True Cons by simp
  qed simp
qed (use assms in simp)

text \<open>\<open>push_overflow\<close> with a positive limit never lets the queue exceed the limit: it drops the oldest
  elements, keeps the newest in order with the new one behind them, and reports whether any was dropped.\<close>

theorem push_overflow_bounded:
  assumes "0 < max_size"
  shows "\<exists>q'. tsq_push_overflow q val max_size =
      Inr ((max_size \<le> length (the_queue q), min (length (the_queue q) + 1) max_size), q')
    \<and> the_queue q' = drop (length (the_queue q) + 1 - max_size) (the_queue q) @ [val]
    \<and> length (the_queue q') \<le> max_size"
  using assms by (auto simp: tsq_push_overflow_def overflow_loop_drop min_def)

theorem push_overflow_bounded_witness:
  "\<exists>q'. tsq_push_overflow \<lparr>the_queue = [1, 2, 3 :: nat], wakeup_requested = False\<rparr> 4 2 = Inr ((True, 2), q')
    \<and> the_queue q' = [3, 4]"
  using push_overflow_bounded [of 2 "\<lparr>the_queue = [1, 2, 3 :: nat], wakeup_requested = False\<rparr>" 4] by auto

subsection \<open>Invariants of the two threads\<close>

definition asleep_ok :: "'a tsys \<Rightarrow> bool" where
  "asleep_ok s \<longleftrightarrow>
     (\<forall>b. cons s = CWait b \<longrightarrow> prod s = PNotify \<or> length (the_queue (sys_q s)) < b \<and> \<not> wakeup_requested (sys_q s))
     \<and> (\<forall>v t. prod s = PWait v t \<longrightarrow> cons s = CNotify \<or> t \<le> length (the_queue (sys_q s)))"

definition log_ok :: "'a tsys \<Rightarrow> bool" where
  "log_ok s \<longleftrightarrow> subseq (popped s @ the_queue (sys_q s)) (pushed s)
     \<and> length (pushed s) = length (popped s) + length (the_queue (sys_q s)) + discarded s"

lemmas tsq_defs = tsq_push_def tsq_push_wait_def tsq_trigger_wakeup_def tsq_try_pop_def tsq_wait_and_pop_def Let_def

lemma asleep_ok_step: "tstep s s' \<Longrightarrow> asleep_ok s \<Longrightarrow> asleep_ok s'"
  by (induction rule: tstep.induct)
    (auto simp: asleep_ok_def tsq_defs wake_cons_def wake_prod_def
      split: if_splits list.splits consumer.splits producer.splits)

lemma push_overflow_queue:
  assumes "tsq_push_overflow q v m = Inr ((ov, n), q')"
  shows "the_queue q' = drop (length (the_queue q) + 1 - m) (the_queue q) @ [v]" "n = length (the_queue q')" "0 < m"
  using assms by (auto simp: tsq_push_overflow_def overflow_loop_drop split: if_splits)

lemma subseq_drop_middle: "subseq (a @ b) c \<Longrightarrow> subseq (a @ drop k b @ [v]) (c @ [v])"
  by (metis append_assoc append_take_drop_id list_emb_append_mono subseq_append_iff subseq_order.order_trans
      subseq_order.refl suffix_drop suffix_imp_subseq)

lemma log_ok_step: "tstep s s' \<Longrightarrow> log_ok s \<Longrightarrow> log_ok s'"
proof (induction rule: tstep.induct)
  case (push_overflow s v m ov n q)
  note q = push_overflow_queue [OF push_overflow(2)]
  have "subseq (popped s @ the_queue q) (pushed s @ [v])"
    unfolding q(1) by (rule subseq_drop_middle) (use push_overflow(3) in \<open>simp add: log_ok_def\<close>)
  then show ?case using push_overflow(3) q by (auto simp: log_ok_def)
next
  case (push s v m n q)
  then show ?case
    using subseq_drop_middle [of "popped s" "the_queue (sys_q s)" "pushed s" 0 v]
    by (auto simp: log_ok_def tsq_defs split: if_splits intro: subseq_append_iff [THEN iffD2])
next
  case (push_wait s v t n q)
  then show ?case
    using subseq_drop_middle [of "popped s" "the_queue (sys_q s)" "pushed s" 0 v]
    by (auto simp: log_ok_def tsq_defs split: if_splits)
qed (auto simp: log_ok_def tsq_defs split: if_splits list.splits)

lemma treach_ok: "treach s \<Longrightarrow> asleep_ok s \<and> log_ok s"
proof (induction rule: treach.induct)
  case init
  then show ?case by (simp add: asleep_ok_def log_ok_def tsys_init_def tsq_empty_def)
next
  case (step s s')
  then show ?case using asleep_ok_step log_ok_step by blast
qed

text \<open>C15: no wake-up is lost. In every reachable state of producer and consumer: while the consumer
  sleeps, either the producer is just about to notify it or there is really nothing for it (too few
  elements and no wakeup request); while the producer sleeps, the consumer is about to notify it or
  the queue is full; and both sleep only if the producer's threshold is below the prebuffering.\<close>

theorem tsq_no_lost_wakeup:
  assumes "treach s"
  shows "(\<forall>b. cons s = CWait b \<longrightarrow> prod s = PNotify
           \<or> length (the_queue (sys_q s)) < b \<and> \<not> wakeup_requested (sys_q s))
    \<and> (\<forall>v t. prod s = PWait v t \<longrightarrow> cons s = CNotify \<or> t \<le> length (the_queue (sys_q s)))
    \<and> (\<forall>b v t. cons s = CWait b \<longrightarrow> prod s = PWait v t \<longrightarrow> t < b)"
  using treach_ok [OF assms] unfolding asleep_ok_def by (metis consumer.distinct(7) le_less_trans producer.distinct(7))

theorem tsq_no_lost_wakeup_witness:
  "\<exists>s :: nat tsys. treach s \<and> cons s = CWait 2 \<and> prod s = PIdle \<and> length (the_queue (sys_q s)) < 2"
proof -
  let ?s = "(tsys_init :: nat tsys)\<lparr>cons := CWait 2\<rparr>"
  have "tstep tsys_init ?s"
    by (rule tstep.pop_sleep [of _ _ tsq_empty]) (simp_all add: tsys_init_def tsq_wait_and_pop_def tsq_empty_def)
  then have r: "treach ?s" by (rule treach.step [OF treach.init])
  then show ?thesis using tsq_no_lost_wakeup [OF r] by (intro exI [of _ ?s]) (simp add: tsys_init_def)
qed

text \<open>C16: first in, first out. Whatever the interleaving, what came out followed by what is still queued
  is a subsequence of what was handed in, the difference is counted as discarded, and with nothing
  discarded the two are equal.\<close>

theorem tsq_fifo:
  assumes "treach s"
  shows "subseq (popped s @ the_queue (sys_q s)) (pushed s)
    \<and> length (pushed s) = length (popped s) + length (the_queue (sys_q s)) + discarded s
    \<and> (discarded s = 0 \<longrightarrow> popped s @ the_queue (sys_q s) = pushed s)"
  using treach_ok [OF assms] unfolding log_ok_def by (metis add_0_right length_append subseq_same_length)

theorem tsq_fifo_witness:
  "\<exists>s. treach s \<and> prod s = PNotify \<and> popped s @ the_queue (sys_q s) = pushed s \<and> pushed s = [7 :: nat]"
proof -
  let ?q = "\<lparr>the_queue = [7 :: nat], wakeup_requested = False\<rparr>"
  let ?s = "(tsys_init :: nat tsys)\<lparr>sys_q := ?q, prod := PNotify, pushed := pushed tsys_init @ [7],
      discarded := discarded (tsys_init :: nat tsys) + (length (the_queue (sys_q (tsys_init :: nat tsys))) + 1 - 1)\<rparr>"
  have "tstep tsys_init ?s"
    by (rule tstep.push [of _ _ 0]) (simp_all add: tsys_init_def tsq_push_def tsq_empty_def Let_def)
  then have r: "treach ?s" by (rule treach.step [OF treach.init])
  then show ?thesis
    using tsq_fifo [OF r] by (intro exI [of _ ?s]) (simp add: tsys_init_def tsq_empty_def)
qed

end
