(* ===== verification/TCPSockets.thy ===== *)
theory TCPSockets
  imports Sockets ThreadsafeQueue
begin

text \<open>
  Model of the TCP half of \<open>lib/Socket.h\<close> and \<open>lib/Socket.cpp\<close>, and of the UDP receiver for several
  ports. As in the UDP half, what a system call answers is an argument, and the open descriptors
  are explicit. The threads of \<open>TCPConnection\<close>, \<open>TCPDataDispatcher\<close>, \<open>TCPReceiveServer\<close> and
  \<open>TCPSendClient\<close> are given by one definition for one pass through their loop. The options for systems without
  \<open>MSG_NOSIGNAL\<close> are left out.
\<close>

subsection \<open>TCPSocket\<close>

record TCPSocket =
  ts_sock :: int
  ts_remote :: InetAddress

definition TCPSocket_init :: TCPSocket where
  "TCPSocket_init = \<lparr>ts_sock = -1, ts_remote = 0\<rparr>"

definition TCPSocket_destroy :: "TCPSocket \<Rightarrow> fdtable \<Rightarrow> fdtable" where
  "TCPSocket_destroy s fds = (if ts_sock s \<noteq> -1 then close_fd (ts_sock s) fds else fds)"

text \<open>Move construction and move assignment return the target and what is left of the source.\<close>

definition tcp_move :: "TCPSocket \<Rightarrow> TCPSocket \<times> TCPSocket" where
  "tcp_move other = (other, other\<lparr>ts_sock := -1\<rparr>)"

definition tcp_move_assign :: "TCPSocket \<Rightarrow> TCPSocket \<Rightarrow> TCPSocket \<times> TCPSocket" where
  "tcp_move_assign this other =
     (\<lparr>ts_sock = ts_sock other, ts_remote = ts_remote other\<rparr>, \<lparr>ts_sock = -1, ts_remote = ts_remote this\<rparr>)"

definition tcp_valid :: "TCPSocket \<Rightarrow> bool" where
  "tcp_valid s = (ts_sock s \<noteq> -1)"

text \<open>
  A candidate address: the descriptor of \<open>socket\<close> (or -1), whether the two \<open>fcntl\<close> calls succeed, what
  \<open>connect\<close> answers (\<open>None\<close> is success), and what \<open>poll\<close> and \<open>getsockopt\<close> answer while it is in progress.
\<close>

datatype connect_poll = PollFailed | PollTimeout | SockoptFailed | SoError int

record connect_cand =
  cc_fd :: int
  cc_getfl :: bool
  cc_setfl :: bool
  cc_connect :: "errno option"
  cc_poll :: connect_poll

text \<open>\<open>connect(hostname, port, nonblock)\<close>: the loop ends with an exception, a descriptor, or no candidate.\<close>

fun connect_loop :: "bool \<Rightarrow> connect_cand list \<Rightarrow> fdtable \<Rightarrow> (exn + int option) \<times> fdtable" where
  "connect_loop nonblock [] fds = (Inr None, fds)"
| "connect_loop nonblock (c # cs) fds =
     (if cc_fd c = -1 then connect_loop nonblock cs fds
      else
        (let fds1 = insert (cc_fd c) fds
         in if nonblock \<and> (\<not> cc_getfl c \<or> \<not> cc_setfl c) then (Inl RuntimeError, close_fd (cc_fd c) fds1)
            else if cc_connect c = None \<or> cc_connect c = Some EINPROGRESS then (Inr (Some (cc_fd c)), fds1)
            else connect_loop nonblock cs (close_fd (cc_fd c) fds1)))"

definition tcp_connect ::
  "TCPSocket \<Rightarrow> bool \<Rightarrow> int \<Rightarrow> connect_cand list \<Rightarrow> fdtable \<Rightarrow> exn option \<times> TCPSocket \<times> fdtable" where
  "tcp_connect s nonblock gai cands fds =
     (if ts_sock s \<noteq> -1 then (Some LogicError, s, fds)
      else if gai \<noteq> 0 then (Some RuntimeError, s, fds)
      else (case connect_loop nonblock cands fds of
              (Inl e, fds') \<Rightarrow> (Some e, s, fds')
            | (Inr (Some sfd), fds') \<Rightarrow> (None, s\<lparr>ts_sock := sfd\<rparr>, fds')
            | (Inr None, fds') \<Rightarrow> (Some RuntimeError, s, fds')))"

text \<open>\<open>connect(hostname, port, timeout_ms)\<close>. The loop returns \<open>m_sock\<close> and the exception, if any. A
  descriptor that is closed before an exception stays in \<open>m_sock\<close>; a failed \<open>fcntl\<close> leaves it open.\<close>

fun connect_timeout_loop :: "connect_cand list \<Rightarrow> fdtable \<Rightarrow> exn option \<times> int \<times> fdtable" where
  "connect_timeout_loop [] fds = (None, -1, fds)"
| "connect_timeout_loop (c # cs) fds =
     (if cc_fd c = -1 then connect_timeout_loop cs fds
      else
        (let sfd = cc_fd c; fds1 = insert sfd fds
         in if \<not> cc_getfl c \<or> \<not> cc_setfl c then (Some RuntimeError, -1, fds1)
            else if cc_connect c = None then (None, sfd, fds1)
            else if cc_connect c = Some EINPROGRESS then
              (case cc_poll c of
                 PollFailed \<Rightarrow> (Some RuntimeError, sfd, close_fd sfd fds1)
               | SockoptFailed \<Rightarrow> (Some RuntimeError, sfd, close_fd sfd fds1)
               | SoError so_error \<Rightarrow> (None, sfd, fds1)
               | PollTimeout \<Rightarrow> (Some RuntimeError, sfd, close_fd sfd fds1))
            else connect_timeout_loop cs (close_fd sfd fds1)))"

text \<open>\<open>restore_ok\<close>: the final \<open>fcntl\<close> succeeds; on -1 it cannot.\<close>

definition tcp_connect_timeout ::
  "TCPSocket \<Rightarrow> int \<Rightarrow> connect_cand list \<Rightarrow> bool \<Rightarrow> fdtable \<Rightarrow> exn option \<times> TCPSocket \<times> fdtable" where
  "tcp_connect_timeout s gai cands restore_ok fds =
     (if ts_sock s \<noteq> -1 then (Some LogicError, s, fds)
      else if gai \<noteq> 0 then (Some RuntimeError, s, fds)
      else (case connect_timeout_loop cands fds of
              (Some e, sfd, fds') \<Rightarrow> (Some e, s\<lparr>ts_sock := sfd\<rparr>, fds')
            | (None, sfd, fds') \<Rightarrow>
                if sfd = -1 \<or> \<not> restore_ok then (Some RuntimeError, s\<lparr>ts_sock := sfd\<rparr>, fds')
                else (None, s\<lparr>ts_sock := sfd\<rparr>, fds')))"

text \<open>\<open>enable_keepalive\<close>: whether each of the four \<open>setsockopt\<close> calls succeeds.\<close>

definition tcp_enable_keepalive :: "TCPSocket \<Rightarrow> bool \<Rightarrow> bool \<Rightarrow> bool \<Rightarrow> bool \<Rightarrow> exn option" where
  "tcp_enable_keepalive s keepalive idle intvl cnt =
     (if ts_sock s = -1 then Some LogicError
      else if \<not> keepalive then Some RuntimeError
      else if \<not> idle then Some RuntimeError
      else if \<not> intvl then Some RuntimeError
      else if \<not> cnt then Some RuntimeError
      else None)"

text \<open>\<open>listen\<close>: candidates are a descriptor, whether \<open>SO_REUSEADDR\<close> can be set, and whether \<open>bind\<close> succeeds.\<close>

fun listen_loop :: "(int \<times> bool \<times> bool) list \<Rightarrow> fdtable \<Rightarrow> (exn + int option) \<times> fdtable" where
  "listen_loop [] fds = (Inr None, fds)"
| "listen_loop ((sfd, reuse, bound) # cs) fds =
     (if sfd = -1 then listen_loop cs fds
      else if \<not> reuse then (Inl RuntimeError, insert sfd fds)
      else if bound then (Inr (Some sfd), insert sfd fds)
      else listen_loop cs (close_fd sfd (insert sfd fds)))"

definition tcp_listen ::
  "TCPSocket \<Rightarrow> int \<Rightarrow> (int \<times> bool \<times> bool) list \<Rightarrow> bool \<Rightarrow> fdtable \<Rightarrow> exn option \<times> TCPSocket \<times> fdtable" where
  "tcp_listen s gai cands listen_ok fds =
     (if ts_sock s \<noteq> -1 then (Some LogicError, s, fds)
      else if gai \<noteq> 0 then (Some RuntimeError, s, fds)
      else (case listen_loop cands fds of
              (Inl e, fds') \<Rightarrow> (Some e, s, fds')
            | (Inr (Some sfd), fds') \<Rightarrow>
                (if listen_ok then None else Some RuntimeError, s\<lparr>ts_sock := sfd\<rparr>, fds')
            | (Inr None, fds') \<Rightarrow> (Some RuntimeError, s, fds')))"

definition tcp_close :: "TCPSocket \<Rightarrow> fdtable \<Rightarrow> TCPSocket \<times> fdtable" where
  "tcp_close s fds = (s\<lparr>ts_sock := -1\<rparr>, close_fd (ts_sock s) fds)"

text \<open>\<open>poll\<close> on one descriptor: an error, nothing within the time, or ready (and for what is asked).\<close>

datatype poll_result = PollError errno | PollNothing | PollReady bool

definition TCPSocket_of :: "int \<Rightarrow> InetAddress \<Rightarrow> TCPSocket" where
  [simp]: "TCPSocket_of sockfd remote_address = \<lparr>ts_sock = sockfd, ts_remote = remote_address\<rparr>"

definition tcp_accept :: "int \<Rightarrow> poll_result \<Rightarrow> int \<times> InetAddress \<Rightarrow> exn + TCPSocket" where
  "tcp_accept timeout_ms pr acc =
     (if timeout_ms = 0 then Inr (TCPSocket_of (fst acc) (snd acc))
      else (case pr of
              PollError _ \<Rightarrow> Inl RuntimeError
            | PollReady _ \<Rightarrow> Inr (TCPSocket_of (fst acc) (snd acc))
            | PollNothing \<Rightarrow> Inr TCPSocket_init))"

text \<open>
  \<open>sendall\<close>: each call of \<open>send\<close> takes the next answer, a number of bytes or a negative number. The
  result is the return value, the bytes handed to the kernel and the answers left; \<open>None\<close> is a call
  that does not return, because the answers are used up.
\<close>

fun tcp_sendall :: "bytes \<Rightarrow> int list \<Rightarrow> (int \<times> bytes \<times> int list) option" where
  "tcp_sendall [] rs = Some (0, [], rs)"
| "tcp_sendall buf [] = None"
| "tcp_sendall buf (sent # rs) =
     (if sent < 0 then Some (-1, [], rs)
      else (case tcp_sendall (drop (nat sent) buf) rs of
              None \<Rightarrow> None
            | Some (ret, out, rs') \<Rightarrow> Some (ret, take (nat sent) buf @ out, rs')))"

definition tcp_send :: "int \<Rightarrow> poll_result \<Rightarrow> int \<Rightarrow> exn + int" where
  "tcp_send timeout_ms pr ret =
     (if timeout_ms \<noteq> 0 \<and> (case pr of PollError _ \<Rightarrow> True | _ \<Rightarrow> False) then Inl RuntimeError
      else if timeout_ms \<noteq> 0 \<and> pr = PollNothing then Inr 0
      else if ret = -1 then Inl RuntimeError
      else Inr ret)"

text \<open>What \<open>recv\<close> ends with. \<open>Got []\<close> is the return value 0.\<close>

datatype recv_outcome = Got bytes | Interrupted | Timeout | RecvFailed

definition tcp_recv :: "nat \<Rightarrow> bytes + errno \<Rightarrow> recv_outcome" where
  "tcp_recv len ans =
     (case ans of
        Inl data \<Rightarrow> Got (take len data)
      | Inr e \<Rightarrow> if e = EINTR then Interrupted else RecvFailed)"

definition tcp_recv_timeout :: "nat \<Rightarrow> poll_result \<Rightarrow> bytes + errno \<Rightarrow> recv_outcome" where
  "tcp_recv_timeout len pr ans =
     (case pr of
        PollError e \<Rightarrow> if e = EINTR then Interrupted else RecvFailed
      | PollReady True \<Rightarrow>
          (case ans of
             Inl data \<Rightarrow> Got (take len data)
           | Inr e \<Rightarrow> if e = ECONNREFUSED then Got [] else RecvFailed)
      | _ \<Rightarrow> Timeout)"

subsection \<open>TCPClient\<close>

record TCPClient =
  tcl_sock :: TCPSocket
  tcl_hostname :: string
  tcl_port :: int

text \<open>\<open>resolve\<close> is what the system answers for a host and port: the status of \<open>getaddrinfo\<close> and the candidates.\<close>

type_synonym resolver = "string \<Rightarrow> int \<Rightarrow> int \<times> connect_cand list"

definition tcpclient_reconnect :: "resolver \<Rightarrow> TCPClient \<Rightarrow> fdtable \<Rightarrow> exn option \<times> TCPClient \<times> fdtable" where
  "tcpclient_reconnect resolve c fds =
     (let (sock, newsock) = tcp_move_assign (tcl_sock c) TCPSocket_init;
          (gai, cands) = resolve (tcl_hostname c) (tcl_port c);
          (e, sock', fds') = tcp_connect sock True gai cands fds
      in (e, c\<lparr>tcl_sock := sock'\<rparr>, TCPSocket_destroy newsock fds'))"

definition tcpclient_connect ::
  "resolver \<Rightarrow> TCPClient \<Rightarrow> string \<Rightarrow> int \<Rightarrow> fdtable \<Rightarrow> exn option \<times> TCPClient \<times> fdtable" where
  "tcpclient_connect resolve c hostname port fds =
     tcpclient_reconnect resolve (c\<lparr>tcl_hostname := hostname, tcl_port := port\<rparr>) fds"

definition tcpclient_recv ::
  "resolver \<Rightarrow> TCPClient \<Rightarrow> nat \<Rightarrow> poll_result \<Rightarrow> bytes + errno \<Rightarrow> fdtable \<Rightarrow> (exn + int \<times> bytes) \<times> TCPClient \<times> fdtable" where
  "tcpclient_recv resolve c len pr ans fds =
     (case tcp_recv_timeout len pr ans of
        Got [] \<Rightarrow>
          (let (sock, fds1) = tcp_close (tcl_sock c) fds;
               (e, c', fds2) = tcpclient_reconnect resolve (c\<lparr>tcl_sock := sock\<rparr>) fds1
           in (case e of Some x \<Rightarrow> Inl x | None \<Rightarrow> Inr (0, []), c', fds2))
      | Got data \<Rightarrow> (Inr (int (length data), data), c, fds)
      | Interrupted \<Rightarrow> (Inr (-1, []), c, fds)
      | Timeout \<Rightarrow> (Inr (0, []), c, fds)
      | RecvFailed \<Rightarrow> (Inl RuntimeError, c, fds))"

end
