(* ===== verification/TCPServers.thy ===== *)
theory TCPServers
  imports TCPSockets
begin

text \<open>
  Model of the classes of \<open>lib/Socket.cpp\<close> that own a thread: \<open>TCPConnection\<close>, \<open>TCPDataDispatcher\<close>,
  \<open>TCPReceiveServer\<close>, \<open>TCPSendClient\<close>, and of \<open>UDPReceiver\<close>. What a thread does in one pass through its loop is
  one definition; the methods that other threads call are atomic between the passes, as the mutexes make them.
\<close>

subsection \<open>TCPConnection\<close>

text \<open>\<open>conn_out\<close> records the blocks that the sender thread has taken from the queue.\<close>

record TCPConnection =
  conn_queue :: "bytes tsq"
  conn_running :: bool
  conn_sock :: TCPSocket
  conn_out :: "bytes list"

definition TCPConnection_init :: "TCPSocket \<Rightarrow> TCPConnection" where
  "TCPConnection_init sock =
     \<lparr>conn_queue = tsq_empty, conn_running = True, conn_sock = fst (tcp_move sock), conn_out = []\<rparr>"

text \<open>
  The loop that sends one block. Each pass reads \<open>m_running\<close> and calls \<open>send\<close>: \<open>None\<close> is a pass that finds
  the flag cleared, \<open>Some (pr, ret)\<close> the answers of \<open>poll\<close> and \<open>send\<close>. The result is the flag and the
  bytes sent; the outer \<open>None\<close> is a loop that has not ended with these answers.
\<close>

fun conn_send_loop :: "bytes \<Rightarrow> (poll_result \<times> int) option list \<Rightarrow> (exn + bool \<times> bytes) option" where
  "conn_send_loop [] as = Some (Inr (True, []))"
| "conn_send_loop buf [] = None"
| "conn_send_loop buf (None # as) = Some (Inr (False, []))"
| "conn_send_loop buf (Some (pr, ret) # as) =
     (case tcp_send 10 pr ret of
        Inl e \<Rightarrow> Some (Inr (False, []))
      | Inr sent \<Rightarrow>
          if sent < 0 \<or> sent > int (length buf) then Some (Inl LogicError)
          else (case conn_send_loop (drop (nat sent) buf) as of
                  None \<Rightarrow> None
                | Some (Inl e) \<Rightarrow> Some (Inl e)
                | Some (Inr (running, out)) \<Rightarrow> Some (Inr (running, take (nat sent) buf @ out))))"

text \<open>One pass of \<open>process\<close>: \<open>None\<close> is blocked in \<open>wait_and_pop\<close> or \<open>send\<close>; otherwise the connection
  and what it sent.\<close>

definition conn_process :: "TCPConnection \<Rightarrow> (poll_result \<times> int) option list \<Rightarrow> (exn + TCPConnection \<times> bytes) option" where
  "conn_process c as =
     (if \<not> conn_running c then Some (Inr (c, []))
      else
        (case tsq_wait_and_pop (conn_queue c) 1 of
           Inl e \<Rightarrow> Some (Inl e)
         | Inr (Sleep, q) \<Rightarrow> None
         | Inr (ThreadsafeQueueWakeup, q) \<Rightarrow> Some (Inl RuntimeError)
         | Inr (Popped data, q) \<Rightarrow>
             (let c1 = c\<lparr>conn_queue := q, conn_out := conn_out c @ [data]\<rparr>
              in if data = [] then Some (Inr (c1\<lparr>conn_running := False\<rparr>, []))
                 else (case conn_send_loop data as of
                         None \<Rightarrow> None
                       | Some (Inl e) \<Rightarrow> Some (Inl e)
                       | Some (Inr (running, out)) \<Rightarrow> Some (Inr (c1\<lparr>conn_running := running\<rparr>, out))))))"

text \<open>The destructor: the thread is told to stop and joined, then the socket is closed.\<close>

definition TCPConnection_destroy :: "TCPConnection \<Rightarrow> fdtable \<Rightarrow> fdtable" where
  "TCPConnection_destroy c fds = TCPSocket_destroy (conn_sock c) fds"

definition conn_push :: "TCPConnection \<Rightarrow> bytes \<Rightarrow> TCPConnection" where
  "conn_push c data = c\<lparr>conn_queue := snd (tsq_push (conn_queue c) data 0)\<rparr>"

subsection \<open>TCPDataDispatcher\<close>

record TCPDataDispatcher =
  td_max_queue_size :: nat
  td_buffers_to_preroll :: nat
  td_running :: bool
  td_listener :: TCPSocket
  td_preroll_queue :: "bytes list"
  td_connections :: "TCPConnection list"

definition TCPDataDispatcher_init :: "nat \<Rightarrow> nat \<Rightarrow> TCPDataDispatcher" where
  "TCPDataDispatcher_init max_queue_size buffers_to_preroll =
     \<lparr>td_max_queue_size = max_queue_size, td_buffers_to_preroll = buffers_to_preroll, td_running = False,
      td_listener = TCPSocket_init, td_preroll_queue = [], td_connections = []\<rparr>"

definition td_start ::
  "TCPDataDispatcher \<Rightarrow> int \<Rightarrow> (int \<times> bool \<times> bool) list \<Rightarrow> bool \<Rightarrow> fdtable \<Rightarrow> exn option \<times> TCPDataDispatcher \<times> fdtable" where
  "td_start d gai cands listen_ok fds =
     (case tcp_listen (td_listener d) gai cands listen_ok fds of
        (Some e, l, fds') \<Rightarrow> (Some e, d\<lparr>td_listener := l\<rparr>, fds')
      | (None, l, fds') \<Rightarrow> (None, d\<lparr>td_listener := l, td_running := True\<rparr>, fds'))"

definition td_write :: "TCPDataDispatcher \<Rightarrow> bytes \<Rightarrow> fdtable \<Rightarrow> exn + TCPDataDispatcher \<times> fdtable" where
  "td_write d data fds =
     (if \<not> td_running d then Inl RuntimeError
      else
        (let preroll = (if td_buffers_to_preroll d > 0
                        then (let p = td_preroll_queue d @ [data]
                              in if length p > td_buffers_to_preroll d then tl p else p)
                        else td_preroll_queue d);
             conns = map (\<lambda>c. conn_push c data) (td_connections d);
             overflows = (\<lambda>c. tsq_size (conn_queue c) > td_max_queue_size d)
         in Inr (d\<lparr>td_preroll_queue := preroll, td_connections := filter (\<lambda>c. \<not> overflows c) conns\<rparr>,
                 foldl (\<lambda>f c. TCPConnection_destroy c f) fds (filter overflows conns))))"

text \<open>One pass of \<open>process\<close>, with what \<open>accept\<close> returns or throws.\<close>

definition td_process :: "TCPDataDispatcher \<Rightarrow> exn + TCPSocket \<Rightarrow> TCPDataDispatcher" where
  "td_process d acc =
     (if \<not> td_running d then d
      else
        (case acc of
           Inl e \<Rightarrow> d\<lparr>td_running := False\<rparr>
         | Inr sock \<Rightarrow>
             if tcp_valid sock then
               (let c = TCPConnection_init sock;
                    c' = (if td_buffers_to_preroll d > 0 then foldl conn_push c (td_preroll_queue d) else c)
                in d\<lparr>td_connections := c' # td_connections d\<rparr>)
             else d))"

definition TCPDataDispatcher_destroy :: "TCPDataDispatcher \<Rightarrow> fdtable \<Rightarrow> TCPDataDispatcher \<times> fdtable" where
  "TCPDataDispatcher_destroy d fds =
     (let fds1 = foldl (\<lambda>f c. TCPConnection_destroy c f) fds (td_connections d);
          (l, fds2) = tcp_close (td_listener d) fds1
      in (d\<lparr>td_running := False, td_connections := [], td_listener := l\<rparr>, fds2))"

subsection \<open>TCPReceiveServer\<close>

datatype TCPReceiveMessage = MsgDisconnected | MsgEmpty | MsgData bytes

text \<open>The members, and for the thread the socket of the client it serves with the number of timeouts.\<close>

record TCPReceiveServer =
  tr_blocksize :: nat
  tr_queue :: "TCPReceiveMessage tsq"
  tr_running :: bool
  tr_listener :: TCPSocket
  tr_client :: "(TCPSocket \<times> nat) option"

definition TCPReceiveServer_init :: "nat \<Rightarrow> TCPReceiveServer" where
  "TCPReceiveServer_init blocksize =
     \<lparr>tr_blocksize = blocksize, tr_queue = tsq_empty, tr_running = False, tr_listener = TCPSocket_init, tr_client = None\<rparr>"

definition tr_start ::
  "TCPReceiveServer \<Rightarrow> int \<Rightarrow> (int \<times> bool \<times> bool) list \<Rightarrow> bool \<Rightarrow> fdtable \<Rightarrow> exn option \<times> TCPReceiveServer \<times> fdtable" where
  "tr_start t gai cands listen_ok fds =
     (case tcp_listen (tr_listener t) gai cands listen_ok fds of
        (Some e, l, fds') \<Rightarrow> (Some e, t\<lparr>tr_listener := l\<rparr>, fds')
      | (None, l, fds') \<Rightarrow> (None, t\<lparr>tr_listener := l, tr_running := True\<rparr>, fds'))"

text \<open>The destructor waits for the thread, whose client socket ends with it; then the listener is closed.\<close>

definition TCPReceiveServer_destroy :: "TCPReceiveServer \<Rightarrow> fdtable \<Rightarrow> TCPReceiveServer \<times> fdtable" where
  "TCPReceiveServer_destroy t fds =
     (let fds1 = (case tr_client t of None \<Rightarrow> fds | Some (s, _) \<Rightarrow> TCPSocket_destroy s fds)
      in (t\<lparr>tr_running := False, tr_client := None\<rparr>, TCPSocket_destroy (tr_listener t) fds1))"

definition tr_receive :: "TCPReceiveServer \<Rightarrow> TCPReceiveMessage \<times> TCPReceiveServer" where
  "tr_receive t =
     (case tsq_try_pop (tr_queue t) of
        None \<Rightarrow> (MsgEmpty, t)
      | Some (m, q) \<Rightarrow> (m, t\<lparr>tr_queue := q\<rparr>))"

definition tr_push :: "TCPReceiveServer \<Rightarrow> TCPReceiveMessage \<Rightarrow> TCPReceiveServer" where
  "tr_push t m = t\<lparr>tr_queue := snd (tsq_push (tr_queue t) m 0)\<rparr>"

definition max_num_timeouts :: nat where
  "max_num_timeouts = 10000 div 1000"

text \<open>One pass of \<open>process\<close>: without a client, \<open>accept\<close> (an exception there ends the program); with one, a pass
  through the inner loop. The socket of a client is destroyed when the inner loop is left.\<close>

definition tr_accept :: "TCPReceiveServer \<Rightarrow> exn + TCPSocket \<Rightarrow> exn + TCPReceiveServer" where
  "tr_accept t acc =
     (if \<not> tr_running t then Inr t
      else (case acc of
              Inl e \<Rightarrow> Inl e
            | Inr sock \<Rightarrow> Inr (if tcp_valid sock then t\<lparr>tr_client := Some (sock, 0)\<rparr> else t)))"

definition tr_serve :: "TCPReceiveServer \<Rightarrow> recv_outcome \<Rightarrow> fdtable \<Rightarrow> TCPReceiveServer \<times> fdtable" where
  "tr_serve t r fds =
     (case tr_client t of
        None \<Rightarrow> (t, fds)
      | Some (sock, num_timeouts) \<Rightarrow>
          if \<not> (tr_running t \<and> tcp_valid sock) then (t\<lparr>tr_client := None\<rparr>, TCPSocket_destroy sock fds)
          else
            (case r of
               Got [] \<Rightarrow> (tr_push (t\<lparr>tr_client := None\<rparr>) MsgDisconnected, snd (tcp_close sock fds))
             | Interrupted \<Rightarrow> (t\<lparr>tr_client := None\<rparr>, TCPSocket_destroy sock fds)
             | _ \<Rightarrow>
               (let (t1, sock1, n1, fds1) =
                      (case r of
                         Got data \<Rightarrow> (tr_push t (MsgData data), sock, num_timeouts, fds)
                       | Timeout \<Rightarrow> (t, sock, num_timeouts + 1, fds)
                       | _ \<Rightarrow> (let (s', f') = tcp_close sock fds in (tr_push t MsgDisconnected, s', num_timeouts, f')));
                    (t2, sock2, fds2) =
                      (if n1 > max_num_timeouts
                       then (let (s', f') = tcp_close sock1 fds1 in (tr_push t1 MsgDisconnected, s', f'))
                       else (t1, sock1, fds1))
                in (t2\<lparr>tr_client := Some (sock2, n1)\<rparr>, fds2))))"

subsection \<open>TCPSendClient\<close>

record TCPSendClient =
  sc_hostname :: string
  sc_port :: int
  sc_is_connected :: bool
  sc_sock :: TCPSocket
  sc_queue :: "bytes tsq"
  sc_running :: bool

definition SC_MAX_QUEUE_SIZE :: nat where
  "SC_MAX_QUEUE_SIZE = 512"

definition TCPSendClient_init :: "string \<Rightarrow> int \<Rightarrow> TCPSendClient" where
  "TCPSendClient_init hostname port =
     \<lparr>sc_hostname = hostname, sc_port = port, sc_is_connected = False, sc_sock = TCPSocket_init,
      sc_queue = tsq_empty, sc_running = True\<rparr>"

definition sc_sendall :: "TCPSendClient \<Rightarrow> bytes \<Rightarrow> exn + TCPSendClient" where
  "sc_sendall c buffer =
     (if \<not> sc_running c then Inl RuntimeError
      else
        (let q = snd (tsq_push (sc_queue c) buffer 0);
             q' = (if tsq_size q > SC_MAX_QUEUE_SIZE
                   then (case tsq_try_pop q of None \<Rightarrow> q | Some (_, q1) \<Rightarrow> q1) else q)
         in Inr (c\<lparr>sc_queue := q'\<rparr>)))"

text \<open>One pass of \<open>process\<close>: the client and the bytes sent; \<open>None\<close> is blocked. A connected client takes
  a block and sends it with the answers \<open>as\<close> of \<open>send\<close>; otherwise it tries to connect. A wakeup ends the
  thread; an exception that is not caught is \<open>Inl\<close>.\<close>

definition sc_process ::
  "resolver \<Rightarrow> TCPSendClient \<Rightarrow> int list \<Rightarrow> fdtable \<Rightarrow> (exn + TCPSendClient \<times> bytes \<times> fdtable) option" where
  "sc_process resolve c as fds =
     (if \<not> sc_running c then Some (Inr (c, [], fds))
      else if sc_is_connected c then
        (case tsq_wait_and_pop (sc_queue c) 1 of
           Inl e \<Rightarrow> Some (Inl e)
         | Inr (Sleep, q) \<Rightarrow> None
         | Inr (ThreadsafeQueueWakeup, q) \<Rightarrow> Some (Inr (c\<lparr>sc_queue := q, sc_running := False\<rparr>, [], fds))
         | Inr (Popped incoming, q) \<Rightarrow>
             (let c1 = c\<lparr>sc_queue := q\<rparr>
              in case tcp_sendall incoming as of
                   None \<Rightarrow> None
                 | Some (ret, out, _) \<Rightarrow>
                     if ret = -1
                     then (let (s, rest) = tcp_move_assign (sc_sock c1) TCPSocket_init
                           in Some (Inr (c1\<lparr>sc_is_connected := False, sc_sock := s\<rparr>, out, TCPSocket_destroy rest fds)))
                     else Some (Inr (c1, out, fds))))
      else
        (let (gai, cands) = resolve (sc_hostname c) (sc_port c)
         in case tcp_connect (sc_sock c) False gai cands fds of
              (None, s, fds') \<Rightarrow> Some (Inr (c\<lparr>sc_sock := s, sc_is_connected := True\<rparr>, [], fds'))
            | (Some e, s, fds') \<Rightarrow>
                if e = RuntimeError then Some (Inr (c\<lparr>sc_sock := s, sc_is_connected := False\<rparr>, [], fds'))
                else Some (Inl e)))"

definition TCPSendClient_destroy :: "TCPSendClient \<Rightarrow> fdtable \<Rightarrow> fdtable" where
  "TCPSendClient_destroy c fds = TCPSocket_destroy (sc_sock c) fds"

subsection \<open>UDPReceiver\<close>

type_synonym UDPReceiver = "UDPSocket list"

record ReceivedPacket =
  rp_packetdata :: bytes
  rp_received_from :: InetAddress
  rp_port_received_on :: int

text \<open>\<open>add_receive_port\<close>: \<open>mcast\<close> tells whether the address is a multicast address, \<open>src\<close> is what setting the source needs, and \<open>grp\<close> what \<open>joinGroup\<close> needs. On an exception the local socket is destroyed.\<close>

definition add_receive_port ::
  "UDPReceiver \<Rightarrow> int \<Rightarrow> bool \<Rightarrow> bind_env \<Rightarrow> bool \<times> bool \<Rightarrow> bool \<times> bool \<times> bool \<Rightarrow> fdtable \<Rightarrow> exn option \<times> UDPReceiver \<times> fdtable" where
  "add_receive_port r port mcast env src grp fds =
     (case UDPSocket_init port env fds of
        (Some e, u, fds1) \<Rightarrow> (Some e, r, udp_destroy u fds1)
      | (None, u, fds1) \<Rightarrow>
          if mcast then
            (case udp_setMulticastSource (fst src) (snd src) of
               Some e \<Rightarrow> (Some e, r, udp_destroy u fds1)
             | None \<Rightarrow>
                 (case udp_joinGroup (fst grp) (fst (snd grp)) (snd (snd grp)) of
                    Some e \<Rightarrow> (Some e, r, udp_destroy u fds1)
                  | None \<Rightarrow> (None, r @ [u], fds1)))
          else (None, r @ [u], fds1))"

datatype udp_poll = UPollError errno | UPollTimeout | UPollReady "bool list"
datatype udp_receive_exn = UInterrupted | UTimeout | UExn exn

text \<open>\<open>UPollReady rs\<close> tells which sockets are readable; \<open>as\<close> is what each \<open>recvfrom\<close> answers.\<close>

fun receive_ready :: "UDPReceiver \<Rightarrow> bool list \<Rightarrow> recv_result list \<Rightarrow> exn + ReceivedPacket list" where
  "receive_ready (u # us) (True # rs) (a # as) =
     (case udp_receive 2048 a of
        Inl e \<Rightarrow> Inl e
      | Inr p \<Rightarrow>
          (case receive_ready us rs as of
             Inl e \<Rightarrow> Inl e
           | Inr ps \<Rightarrow> Inr (\<lparr>rp_packetdata = pkt_buffer p, rp_received_from = pkt_address p,
                             rp_port_received_on = us_port u\<rparr> # ps)))"
| "receive_ready (u # us) (False # rs) (a # as) = receive_ready us rs as"
| "receive_ready _ _ _ = Inr []"

definition udpreceiver_receive :: "UDPReceiver \<Rightarrow> udp_poll \<Rightarrow> recv_result list \<Rightarrow> udp_receive_exn + ReceivedPacket list" where
  "udpreceiver_receive r pr as =
     (if length r > 64 then Inl (UExn RuntimeError)
      else (case pr of
              UPollError e \<Rightarrow> Inl (if e = EINTR then UInterrupted else UExn RuntimeError)
            | UPollReady rs \<Rightarrow> (case receive_ready r rs as of Inl e \<Rightarrow> Inl (UExn e) | Inr ps \<Rightarrow> Inr ps)
            | UPollTimeout \<Rightarrow> Inl UTimeout))"

subsection \<open>Sending everything\<close>

text \<open>\<open>sendall\<close> returns 0 only after handing the whole buffer to the kernel, in order and without gap; when it
  returns -1, a \<open>send\<close> has failed and what went out is a prefix of the buffer. With answers that are
  positive and enough of them it does return.\<close>

theorem tcp_sendall_complete:
  "(\<forall>ret out rs'. tcp_sendall buf rs = Some (ret, out, rs') \<longrightarrow> prefix out buf \<and> (ret = 0 \<and> out = buf \<or> ret = -1 \<and> (\<exists>r \<in> set rs. r < 0)))
   \<and> (length buf \<le> length rs \<longrightarrow> (\<forall>r \<in> set rs. r \<noteq> 0) \<longrightarrow> tcp_sendall buf rs \<noteq> None)"
proof (induction buf rs rule: tcp_sendall.induct)
  case (3 b bs sent rs)
  let ?buf = "b # bs"
  show ?case
  proof (cases "sent < 0")
    case False
    note IH = 3 [OF False]
    have "prefix out ?buf \<and> (ret = 0 \<and> out = ?buf \<or> ret = -1 \<and> (\<exists>r \<in> set (sent # rs). r < 0))"
      if r: "tcp_sendall ?buf (sent # rs) = Some (ret, out, rs')" for ret out rs'
    proof -
      obtain o1 where o: "tcp_sendall (drop (nat sent) ?buf) rs = Some (ret, o1, rs')" "out = take (nat sent) ?buf @ o1"
        using r False by (auto split: option.splits)
      have i: "prefix o1 (drop (nat sent) ?buf)" "ret = 0 \<and> o1 = drop (nat sent) ?buf \<or> ret = -1 \<and> (\<exists>r \<in> set rs. r < 0)"
        using IH o(1) by blast+
      have "prefix out ?buf" using i(1) o(2) by (metis append_take_drop_id same_prefix_prefix)
      then show ?thesis using i(2) o(2) by auto
    qed
    moreover have "tcp_sendall ?buf (sent # rs) \<noteq> None"
      if "length ?buf \<le> length (sent # rs)" "\<forall>r \<in> set (sent # rs). r \<noteq> 0"
    proof -
      have "0 < nat sent" using that(2) False by simp
      then have "length (drop (nat sent) ?buf) \<le> length rs" using that(1) by simp
      then have "tcp_sendall (drop (nat sent) ?buf) rs \<noteq> None" using IH that(2) by simp
      then show ?thesis using False by (auto split: option.splits)
    qed
    ultimately show ?thesis by blast
  qed auto
qed auto

theorem tcp_sendall_complete_witness:
  "tcp_sendall [1, 2, 3] [2, 1, 5] = Some (0, [1, 2, 3], [5])"
proof -
  have "length [1, 2, 3 :: byte] \<le> length [2, 1, 5 :: int]" "\<forall>r \<in> set [2, 1, 5 :: int]. r \<noteq> 0" by simp_all
  then have "tcp_sendall [1, 2, 3] [2, 1, 5] \<noteq> None" using tcp_sendall_complete by blast
  then show ?thesis by (simp add: numeral_2_eq_2)
qed

subsection \<open>The dispatcher\<close>

lemma conn_push_queue [simp]:
  "the_queue (conn_queue (conn_push c d)) = the_queue (conn_queue c) @ [d]" "conn_out (conn_push c d) = conn_out c"
  by (simp_all add: conn_push_def tsq.items_enqueue)

lemma conn_push_all:
  "the_queue (conn_queue (foldl conn_push c ds)) = the_queue (conn_queue c) @ ds" "conn_out (foldl conn_push c ds) = conn_out c"
  by (induction ds arbitrary: c) simp_all

lemma conn_process_history:
  assumes "conn_process c as = Some (Inr (c', out))"
  shows "conn_out c' @ the_queue (conn_queue c') = conn_out c @ the_queue (conn_queue c)
    \<and> length (the_queue (conn_queue c')) \<le> length (the_queue (conn_queue c))"
  using assms
  by (auto simp: conn_process_def tsq_wait_and_pop_def Let_def split: if_splits list.splits sum.splits option.splits prod.splits)

text \<open>A dispatcher in use, with everything that was written to it.\<close>

inductive td_reach :: "TCPDataDispatcher \<Rightarrow> bytes list \<Rightarrow> bool" where
  init: "td_reach (TCPDataDispatcher_init m n) []"
| start: "td_reach d w \<Longrightarrow> td_start d gai cands ok fds = (e, d', fds') \<Longrightarrow> td_reach d' w"
| written: "td_reach d w \<Longrightarrow> td_write d data fds = Inr (d', fds') \<Longrightarrow> td_reach d' (w @ [data])"
| accept: "td_reach d w \<Longrightarrow> td_reach (td_process d acc) w"
| conn: "td_reach d w \<Longrightarrow> i < length (td_connections d) \<Longrightarrow>
    conn_process (td_connections d ! i) as = Some (Inr (c, out)) \<Longrightarrow>
    td_reach (d\<lparr>td_connections := (td_connections d)[i := c]\<rparr>) w"

definition td_ok :: "TCPDataDispatcher \<Rightarrow> bytes list \<Rightarrow> bool" where
  "td_ok d w \<longleftrightarrow>
     td_preroll_queue d = drop (length w - td_buffers_to_preroll d) w
     \<and> (\<forall>c \<in> set (td_connections d). suffix (conn_out c @ the_queue (conn_queue c)) w
          \<and> length (the_queue (conn_queue c)) \<le> max (td_max_queue_size d) (td_buffers_to_preroll d))"

lemma preroll_write:
  assumes "p = drop (length w - n) w" "0 < n"
  shows "(if length (p @ [x]) > n then tl (p @ [x]) else p @ [x]) = drop (length (w @ [x]) - n) (w @ [x])"
proof (cases "n \<le> length w")
  case True
  then have "length (p @ [x]) > n" "drop (length (w @ [x]) - n) (w @ [x]) = drop (Suc (length w - n)) (w @ [x])"
    using assms by (simp_all add: Suc_diff_le)
  moreover have "tl (p @ [x]) = drop (Suc (length w - n)) (w @ [x])"
  proof -
    have "p \<noteq> []" using assms True by simp
    then have "tl (p @ [x]) = tl p @ [x]" by simp
    also have "\<dots> = drop (Suc (length w - n)) w @ [x]" unfolding assms(1) by (simp add: drop_Suc tl_drop)
    finally show ?thesis using True assms(2) by simp
  qed
  ultimately show ?thesis by simp
qed (use assms in simp)

lemma td_ok_write:
  assumes "td_ok d w" "td_write d data fds = Inr (d', fds')"
  shows "td_ok d' (w @ [data])"
proof -
  let ?n = "td_buffers_to_preroll d"
  have d': "td_buffers_to_preroll d' = ?n" "td_max_queue_size d' = td_max_queue_size d"
    "td_preroll_queue d' = (if 0 < ?n then (if length (td_preroll_queue d @ [data]) > ?n then tl (td_preroll_queue d @ [data])
        else td_preroll_queue d @ [data]) else td_preroll_queue d)"
    "td_connections d' = filter (\<lambda>c. \<not> td_max_queue_size d < tsq_size (conn_queue c)) (map (\<lambda>c. conn_push c data) (td_connections d))"
    using assms(2) by (auto simp: td_write_def Let_def split: if_splits)
  have "td_preroll_queue d' = drop (length (w @ [data]) - ?n) (w @ [data])"
    using preroll_write [of "td_preroll_queue d" w ?n data] assms(1) d'(3) by (cases "?n = 0") (simp_all add: td_ok_def)
  moreover have "suffix (conn_out c @ the_queue (conn_queue c)) (w @ [data])
      \<and> length (the_queue (conn_queue c)) \<le> max (td_max_queue_size d) ?n" if "c \<in> set (td_connections d')" for c
    using that assms(1) d'(4) by (auto simp: td_ok_def tsq_size_def suffix_def)
  ultimately show ?thesis using d'(1,2) by (simp add: td_ok_def)
qed

lemma td_ok_process: "td_ok d w \<Longrightarrow> td_ok (td_process d acc) w"
  by (auto simp: td_process_def td_ok_def Let_def conn_push_all TCPConnection_init_def tsq_empty_def suffix_drop
      split: sum.splits)

lemma td_ok_conn:
  assumes "td_ok d w" "i < length (td_connections d)" "conn_process (td_connections d ! i) as = Some (Inr (c, out))"
  shows "td_ok (d\<lparr>td_connections := (td_connections d)[i := c]\<rparr>) w"
proof -
  have "td_connections d ! i \<in> set (td_connections d)" using assms(2) by simp
  then show ?thesis
    using assms(1) conn_process_history [OF assms(3)]
    by (auto simp: td_ok_def simp flip: append_assoc dest!: set_update_subset_insert [THEN subsetD] intro: order_trans)
qed

lemma td_reach_ok: "td_reach d w \<Longrightarrow> td_ok d w"
proof (induction rule: td_reach.induct)
  case (start d w gai cands ok fds e d' fds')
  then show ?case by (auto simp: td_start_def td_ok_def split: prod.splits option.splits)
qed (auto simp: td_ok_write td_ok_process td_ok_conn, simp add: td_ok_def TCPDataDispatcher_init_def)

text \<open>C13: what the clients of the dispatcher get. At any time, what the thread of a connection has taken to
  send, followed by what it has queued, is a contiguous piece of the written blocks that ends with
  the latest: no client sees a gap, a repetition or a different order. No queue holds more than the larger of the
  limit and the preroll, and the preroll is always the latest blocks written.\<close>

theorem dispatcher_streams:
  assumes "td_reach d w"
  shows "td_preroll_queue d = drop (length w - td_buffers_to_preroll d) w
    \<and> (\<forall>c \<in> set (td_connections d). suffix (conn_out c @ the_queue (conn_queue c)) w
         \<and> length (the_queue (conn_queue c)) \<le> max (td_max_queue_size d) (td_buffers_to_preroll d))"
  using td_reach_ok [OF assms] by (simp add: td_ok_def)

theorem dispatcher_streams_witness:
  "\<exists>d c. td_reach d [[1], [2]] \<and> td_preroll_queue d = [[2]] \<and> td_connections d = [c]
    \<and> suffix (conn_out c @ the_queue (conn_queue c)) [[1], [2]] \<and> the_queue (conn_queue c) = [[1], [2]]"
proof -
  define e where "e q cs = \<lparr>td_max_queue_size = 5, td_buffers_to_preroll = 1, td_running = True,
      td_listener = \<lparr>ts_sock = 3, ts_remote = 0\<rparr>, td_preroll_queue = q, td_connections = cs\<rparr>" for q cs
  define c where "c q = \<lparr>conn_queue = \<lparr>the_queue = q, wakeup_requested = False\<rparr>, conn_running = True,
      conn_sock = \<lparr>ts_sock = 4, ts_remote = 9\<rparr>, conn_out = []\<rparr>" for q
  have "td_start (TCPDataDispatcher_init 5 1) 0 [(3, True, True)] True {} = (None, e [] [], {3})"
    by (simp add: td_start_def TCPDataDispatcher_init_def tcp_listen_def TCPSocket_init_def e_def)
  then have "td_reach (e [] []) []" by (rule td_reach.start [OF td_reach.init])
  moreover have "td_write (e [] []) [1] {} = Inr (e [[1]] [], {})" by (simp add: td_write_def e_def)
  ultimately have "td_reach (e [[1]] []) ([] @ [[1]])" by (rule td_reach.written)
  moreover have "td_process (e [[1]] []) (Inr \<lparr>ts_sock = 4, ts_remote = 9\<rparr>) = e [[1]] [c [[1]]]"
    by (simp add: td_process_def e_def c_def tcp_valid_def TCPConnection_init_def tcp_move_def tsq_empty_def
        conn_push_def tsq_push_def Let_def)
  ultimately have "td_reach (e [[1]] [c [[1]]]) ([] @ [[1]])" by (metis td_reach.accept)
  moreover have "td_write (e [[1]] [c [[1]]]) [2] {} = Inr (e [[2]] [c [[1], [2]]], {})"
    by (simp add: td_write_def e_def c_def conn_push_def tsq_push_def tsq_size_def Let_def)
  ultimately have r: "td_reach (e [[2]] [c [[1], [2]]]) (([] @ [[1]]) @ [[2]])" by (rule td_reach.written)
  then show ?thesis
    using dispatcher_streams [OF r] by (intro exI [of _ "e [[2]] [c [[1], [2]]]"] exI [of _ "c [[1], [2]]"]) (simp add: e_def c_def)
qed

subsection \<open>The sending client\<close>

text \<open>Several calls of \<open>sendall\<close>.\<close>

fun sc_run :: "TCPSendClient \<Rightarrow> bytes list \<Rightarrow> exn + TCPSendClient" where
  "sc_run c [] = Inr c"
| "sc_run c (b # bs) = (case sc_sendall c b of Inl e \<Rightarrow> Inl e | Inr c' \<Rightarrow> sc_run c' bs)"

lemma sc_sendall_queue:
  assumes "sc_running c" "length (the_queue (sc_queue c)) \<le> 512"
  obtains c' where "sc_sendall c b = Inr c'" "sc_running c'" "length (the_queue (sc_queue c')) \<le> 512"
    "the_queue (sc_queue c') = drop (length (the_queue (sc_queue c)) + 1 - 512) (the_queue (sc_queue c) @ [b])"
proof -
  let ?q = "the_queue (sc_queue c)"
  show thesis
  proof (cases "length ?q = 512")
    case True
    then obtain x xs where "?q = x # xs" by (cases ?q) auto
    then show ?thesis
      using that assms True
      by (simp add: sc_sendall_def tsq_push_def tsq_try_pop_def Let_def tsq_size_def SC_MAX_QUEUE_SIZE_def)
  next
    case False
    then show ?thesis
      using that assms by (simp add: sc_sendall_def tsq_push_def Let_def tsq_size_def SC_MAX_QUEUE_SIZE_def)
  qed
qed

text \<open>The queue of the sending client. Calls of \<open>sendall\<close> keep the latest 512 blocks in order and drop the
  oldest ones; the queue never holds more than 512.\<close>

theorem send_client_keeps_latest:
  assumes "sc_running c" "length (the_queue (sc_queue c)) \<le> 512"
  shows "\<exists>c'. sc_run c bs = Inr c' \<and> sc_running c' \<and> length (the_queue (sc_queue c')) \<le> 512
    \<and> the_queue (sc_queue c') = drop (length (the_queue (sc_queue c)) + length bs - 512) (the_queue (sc_queue c) @ bs)"
  using assms
proof (induction bs arbitrary: c)
  case (Cons b bs)
  let ?q = "the_queue (sc_queue c)"
  obtain c1 where c1: "sc_sendall c b = Inr c1" "sc_running c1" "length (the_queue (sc_queue c1)) \<le> 512"
    "the_queue (sc_queue c1) = drop (length ?q + 1 - 512) (?q @ [b])"
    using sc_sendall_queue [OF Cons.prems] by metis
  obtain c2 where c2: "sc_run c1 bs = Inr c2" "sc_running c2" "length (the_queue (sc_queue c2)) \<le> 512"
    "the_queue (sc_queue c2) = drop (length (the_queue (sc_queue c1)) + length bs - 512) (the_queue (sc_queue c1) @ bs)"
    using Cons.IH [OF c1(2,3)] by blast
  have "length ?q + 1 - 512 \<le> length (?q @ [b])" by simp
  then have "the_queue (sc_queue c1) @ bs = drop (length ?q + 1 - 512) (?q @ b # bs)"
    unfolding c1(4) by simp
  then have "the_queue (sc_queue c2) = drop (length ?q + length (b # bs) - 512) (?q @ b # bs)"
    unfolding c2(4) using Cons.prems(2) by (simp add: c1(4) drop_drop) (rule arg_cong [where f = "\<lambda>n. drop n _"], linarith)
  then show ?case using c1 c2 by simp
qed simp

theorem send_client_keeps_latest_witness:
  "\<exists>c'. sc_run (TCPSendClient_init ''localhost'' 8000) (map (\<lambda>i. [of_nat i]) [0..<600]) = Inr c'
    \<and> length (the_queue (sc_queue c')) = 512 \<and> hd (the_queue (sc_queue c')) = [88]"
proof -
  let ?c = "TCPSendClient_init ''localhost'' 8000" and ?bs = "map (\<lambda>i. [of_nat i :: byte]) [0..<600]"
  have "sc_running ?c" "the_queue (sc_queue ?c) = []" by (simp_all add: TCPSendClient_init_def tsq_empty_def)
  then obtain c' where c': "sc_run ?c ?bs = Inr c'" "the_queue (sc_queue c') = drop 88 ?bs"
    using send_client_keeps_latest [of ?c ?bs] by auto
  have "length (drop 88 ?bs) = 512" "hd (drop 88 ?bs) = [88]" by (simp_all add: hd_drop_conv_nth del: upt_rec_numeral)
  then show ?thesis using c' by metis
qed

text \<open>A send that fails loses the descriptor. When the connected client takes a block and \<open>send\<close> reports an error,
  the client drops its socket, but by an assignment that does not close it: the descriptor stays open although no
  object refers to it any more.\<close>

theorem send_client_leaks_descriptor:
  assumes "sc_running c" "sc_is_connected c" "the_queue (sc_queue c) = b # bs" "\<not> wakeup_requested (sc_queue c)"
    and "tcp_sendall b as = Some (-1, out, as')" "ts_sock (sc_sock c) \<in> fds"
  shows "\<exists>c' fds'. sc_process resolve c as fds = Some (Inr (c', out, fds')) \<and> \<not> sc_is_connected c'
    \<and> ts_sock (sc_sock c') = -1 \<and> ts_sock (sc_sock c) \<in> fds'"
  using assms
  by (simp add: sc_process_def tsq_wait_and_pop_def tcp_move_assign_def TCPSocket_init_def TCPSocket_destroy_def Let_def)

theorem send_client_leaks_descriptor_witness:
  "\<exists>c' fds'. sc_process (\<lambda>h p. (0, [])) ((TCPSendClient_init ''localhost'' 8000)\<lparr>sc_is_connected := True,
      sc_sock := \<lparr>ts_sock = 5, ts_remote = 0\<rparr>, sc_queue := \<lparr>the_queue = [[1]], wakeup_requested = False\<rparr>\<rparr>) [-1] {5}
      = Some (Inr (c', [], fds')) \<and> ts_sock (sc_sock c') = -1 \<and> 5 \<in> fds'"
proof -
  let ?c = "(TCPSendClient_init ''localhost'' 8000)\<lparr>sc_is_connected := True,
      sc_sock := \<lparr>ts_sock = 5, ts_remote = 0\<rparr>, sc_queue := \<lparr>the_queue = [[1]], wakeup_requested = False\<rparr>\<rparr>"
  have "sc_running ?c" "sc_is_connected ?c" "the_queue (sc_queue ?c) = [1] # []" "\<not> wakeup_requested (sc_queue ?c)"
    "tcp_sendall [1] [-1] = Some (-1, [], [])" "ts_sock (sc_sock ?c) \<in> {5}" "ts_sock (sc_sock ?c) = 5"
    by (simp_all add: TCPSendClient_init_def)
  then show ?thesis using send_client_leaks_descriptor [of ?c "[1]" "[]" "[-1]" "[]" "[]" "{5}" "\<lambda>h p. (0, [])"] by metis
qed

subsection \<open>The receiving server\<close>

text \<open>A client that sends blocks or is silent, served pass by pass.\<close>

fun tr_run :: "TCPReceiveServer \<Rightarrow> recv_outcome list \<Rightarrow> fdtable \<Rightarrow> TCPReceiveServer \<times> fdtable" where
  "tr_run t [] fds = (t, fds)"
| "tr_run t (r # rs) fds = (let (t', fds') = tr_serve t r fds in tr_run t' rs fds')"

definition received :: "recv_outcome list \<Rightarrow> bytes list" where
  "received rs = concat (map (\<lambda>r. case r of Got d \<Rightarrow> [d] | _ \<Rightarrow> []) rs)"

definition timeouts :: "recv_outcome list \<Rightarrow> nat" where
  "timeouts rs = length (filter (\<lambda>r. r = Timeout) rs)"

lemma tr_push_simps [simp]:
  "the_queue (tr_queue (tr_push t m)) = the_queue (tr_queue t) @ [m]" "tr_client (tr_push t m) = tr_client t"
  "tr_running (tr_push t m) = tr_running t"
  by (simp_all add: tr_push_def tsq.items_enqueue)

lemma tr_run_data:
  assumes "tr_client t = Some (sock, k)" "tr_running t" "tcp_valid sock"
    and "\<forall>r \<in> set rs. r = Timeout \<or> (\<exists>d. r = Got d \<and> d \<noteq> [])" "k + timeouts rs \<le> 10"
  shows "\<exists>t'. tr_run t rs fds = (t', fds) \<and> tr_client t' = Some (sock, k + timeouts rs) \<and> tr_running t'
    \<and> the_queue (tr_queue t') = the_queue (tr_queue t) @ map MsgData (received rs)"
  using assms
proof (induction rs arbitrary: t k)
  case (Cons r rs)
  have "\<exists>t1. tr_serve t r fds = (t1, fds) \<and> tr_client t1 = Some (sock, k + timeouts [r]) \<and> tr_running t1
      \<and> the_queue (tr_queue t1) = the_queue (tr_queue t) @ map MsgData (received [r])"
  proof (cases "r = Timeout")
    case True
    then show ?thesis
      using Cons.prems by (simp add: tr_serve_def timeouts_def received_def max_num_timeouts_def)
  next
    case False
    then obtain d ds where "r = Got (d # ds)" using Cons.prems(4) by (metis list.exhaust list.set_intros(1))
    then show ?thesis
      using Cons.prems by (simp add: tr_serve_def timeouts_def received_def max_num_timeouts_def)
  qed
  then obtain t1 where t1: "tr_serve t r fds = (t1, fds)" "tr_client t1 = Some (sock, k + timeouts [r])" "tr_running t1"
    "the_queue (tr_queue t1) = the_queue (tr_queue t) @ map MsgData (received [r])" by blast
  have sum: "timeouts (r # rs) = timeouts [r] + timeouts rs" "received (r # rs) = received [r] @ received rs"
    by (simp_all add: timeouts_def received_def)
  have "\<forall>r \<in> set rs. r = Timeout \<or> (\<exists>d. r = Got d \<and> d \<noteq> [])" "(k + timeouts [r]) + timeouts rs \<le> 10"
    using Cons.prems(4,5) sum(1) by simp_all
  from Cons.IH [OF t1(2,3) Cons.prems(3) this] show ?case using t1 sum by (simp add: ac_simps)
qed (simp add: timeouts_def received_def)

text \<open>What the receiving server passes on. As long as a client has been silent for at most ten of the one-second
  periods, in total and not in a row, the queue gets exactly the received blocks in order; one more silent period, however
  much data came in between, closes the connection and queues a disconnect message.\<close>

theorem receive_server_passes_on:
  assumes "tr_client t = Some (sock, 0)" "tr_running t" "tcp_valid sock"
    and "\<forall>r \<in> set rs. r = Timeout \<or> (\<exists>d. r = Got d \<and> d \<noteq> [])" "timeouts rs \<le> 10"
  shows "\<exists>t'. tr_run t rs fds = (t', fds) \<and> the_queue (tr_queue t') = the_queue (tr_queue t) @ map MsgData (received rs)
    \<and> (timeouts rs = 10 \<longrightarrow> (\<exists>t'' sock'. tr_serve t' Timeout fds = (t'', fds - {ts_sock sock})
         \<and> tr_client t'' = Some (sock', 11) \<and> \<not> tcp_valid sock'
         \<and> the_queue (tr_queue t'') = the_queue (tr_queue t') @ [MsgDisconnected]))"
proof -
  obtain t' where t': "tr_run t rs fds = (t', fds)" "tr_client t' = Some (sock, timeouts rs)" "tr_running t'"
    "the_queue (tr_queue t') = the_queue (tr_queue t) @ map MsgData (received rs)"
    using tr_run_data [OF assms(1-4), of fds] assms(5) by auto
  then show ?thesis
    using assms(3) by (simp add: tr_serve_def max_num_timeouts_def tcp_close_def close_fd_def tcp_valid_def)
qed

theorem receive_server_passes_on_witness:
  "\<exists>t'. tr_run ((TCPReceiveServer_init 100)\<lparr>tr_running := True, tr_client := Some (\<lparr>ts_sock = 4, ts_remote = 0\<rparr>, 0)\<rparr>)
      [Got [1, 2], Timeout, Got [3]] {4} = (t', {4}) \<and> the_queue (tr_queue t') = [MsgData [1, 2], MsgData [3]]"
proof -
  let ?t = "(TCPReceiveServer_init 100)\<lparr>tr_running := True, tr_client := Some (\<lparr>ts_sock = 4, ts_remote = 0\<rparr>, 0)\<rparr>"
  have t: "tr_client ?t = Some (\<lparr>ts_sock = 4, ts_remote = 0\<rparr>, 0)" "tr_running ?t" "tcp_valid \<lparr>ts_sock = 4, ts_remote = 0\<rparr>"
    "the_queue (tr_queue ?t) = []"
    by (simp_all add: TCPReceiveServer_init_def tsq_empty_def tcp_valid_def)
  have r: "received [Got [1, 2], Timeout, Got [3]] = [[1, 2], [3]]" "timeouts [Got [1, 2], Timeout, Got [3]] = 1"
    by (simp_all add: received_def timeouts_def)
  show ?thesis
    using receive_server_passes_on [OF t(1-3), of "[Got [1, 2], Timeout, Got [3]]" "{4}"] r t(4) by auto
qed

end
