(* ===== verification/Transport.thy ===== *)
theory Transport
  imports PFT TCPServers "HOL-Library.Multiset"
begin

text \<open>
  Model of \<open>lib/edioutput/EDIConfig.h\<close>, \<open>lib/edioutput/Transport.h\<close> and \<open>lib/edioutput/Transport.cpp\<close>: the
  configuration and the \<open>Sender\<close>, which turns TAG packets into AF packets, optionally into PF
  fragments that its thread sends at their times, and hands them to every destination. Time is in
  nanoseconds, the unit of \<open>steady_clock\<close>. The spreading factor is a rational number: the rounding of
  \<open>double\<close> is left out. Each destination comes with its socket; the map \<open>m_pending_frames\<close> is an association
  list in the order of its keys. Prints and warnings, and the members that only steer them, are left out.
\<close>

subsection \<open>Configuration\<close>

record udp_destination_t =
  ud_dest_addr :: string
  ud_dest_port :: int
  ud_source_addr :: string
  ud_source_port :: int
  ud_ttl :: int

record tcp_server_t =
  tsv_listen_port :: int
  tsv_max_frames_queued :: nat
  tsv_preroll_buffers :: nat

record tcp_client_t =
  tct_dest_addr :: string
  tct_dest_port :: int
  tct_max_frames_queued :: nat

datatype destination_t = UdpDestination udp_destination_t | TcpServer tcp_server_t | TcpClient tcp_client_t

record configuration_t =
  cf_chunk_len :: u32
  cf_fec :: u32
  cf_dump :: bool
  cf_verbose :: bool
  cf_enable_pft :: bool
  cf_tagpacket_alignment :: u32
  cf_destinations :: "destination_t list"
  cf_fragment_spreading_factor :: rat

definition configuration_default :: configuration_t where
  "configuration_default = \<lparr>cf_chunk_len = 207, cf_fec = 0, cf_dump = False, cf_verbose = False, cf_enable_pft = False,
     cf_tagpacket_alignment = 0, cf_destinations = [], cf_fragment_spreading_factor = 95 / 100\<rparr>"

definition configuration_enabled :: "configuration_t \<Rightarrow> bool" where
  "configuration_enabled conf = (length (cf_destinations conf) > 0)"

subsection \<open>The sender\<close>

datatype dest_socket = DUdp udp_destination_t UDPSocket | DServer TCPDataDispatcher | DClient TCPSendClient

record Sender =
  sn_conf :: configuration_t
  sn_af :: AFPacketiser
  sn_pft :: PFT
  sn_sockets :: "dest_socket list"
  sn_running :: bool
  sn_pending :: "(int \<times> bytes) list"
  sn_debug :: bytes

text \<open>What the system answers while a destination is set up: the UDP socket's \<open>bind\<close>, what setting the multicast source and the
  time to live needs, and the answers that \<open>listen\<close> gets.\<close>

record setup_env =
  su_bind :: bind_env
  su_source :: "bool \<times> bool"
  su_ttl :: bool
  su_gai :: int
  su_cands :: "(int \<times> bool \<times> bool) list"
  su_listen :: bool

definition setup_destination :: "destination_t \<Rightarrow> setup_env \<Rightarrow> fdtable \<Rightarrow> (exn + dest_socket) \<times> fdtable" where
  "setup_destination dest env fds =
     (case dest of
        UdpDestination u \<Rightarrow>
          (case UDPSocket_init (ud_source_port u) (su_bind env) fds of
             (Some e, s, fds1) \<Rightarrow> (Inl e, fds1)
           | (None, s, fds1) \<Rightarrow>
               if ud_source_addr u = [] then (Inr (DUdp u s), fds1)
               else (case udp_setMulticastSource (fst (su_source env)) (snd (su_source env)) of
                       Some e \<Rightarrow> (Inl e, udp_destroy s fds1)
                     | None \<Rightarrow>
                         (case udp_setMulticastTTL (su_ttl env) of
                            Some e \<Rightarrow> (Inl e, udp_destroy s fds1)
                          | None \<Rightarrow> (Inr (DUdp u s), fds1))))
      | TcpServer t \<Rightarrow>
          (case td_start (TCPDataDispatcher_init (tsv_max_frames_queued t) (tsv_preroll_buffers t))
                  (su_gai env) (su_cands env) (su_listen env) fds of
             (Some e, d, fds1) \<Rightarrow> (Inl e, snd (TCPDataDispatcher_destroy d fds1))
           | (None, d, fds1) \<Rightarrow> (Inr (DServer d), fds1))
      | TcpClient c \<Rightarrow> (Inr (DClient (TCPSendClient_init (tct_dest_addr c) (tct_dest_port c))), fds))"

text \<open>Destruction of what a destination owns; a constructor that throws destroys what it has set up.\<close>

definition dest_destroy :: "dest_socket \<Rightarrow> fdtable \<Rightarrow> fdtable" where
  "dest_destroy s fds =
     (case s of
        DUdp _ u \<Rightarrow> udp_destroy u fds
      | DServer d \<Rightarrow> snd (TCPDataDispatcher_destroy d fds)
      | DClient c \<Rightarrow> TCPSendClient_destroy c fds)"

fun setup_destinations ::
  "(destination_t \<times> setup_env) list \<Rightarrow> fdtable \<Rightarrow> (exn + dest_socket list) \<times> fdtable" where
  "setup_destinations [] fds = (Inr [], fds)"
| "setup_destinations ((d, env) # ds) fds =
     (case setup_destination d env fds of
        (Inl e, fds1) \<Rightarrow> (Inl e, fds1)
      | (Inr s, fds1) \<Rightarrow>
          (case setup_destinations ds fds1 of
             (Inl e, fds2) \<Rightarrow> (Inl e, dest_destroy s fds2)
           | (Inr ss, fds2) \<Rightarrow> (Inr (s # ss), fds2)))"

definition Sender_init :: "configuration_t \<Rightarrow> setup_env list \<Rightarrow> fdtable \<Rightarrow> (exn + Sender) \<times> fdtable" where
  "Sender_init conf envs fds =
     (case PFT_init (cf_chunk_len conf) (cf_fec conf) of
        Inl e \<Rightarrow> (Inl e, fds)
      | Inr pft \<Rightarrow>
          (case setup_destinations (zip (cf_destinations conf) envs) fds of
             (Inl e, fds1) \<Rightarrow> (Inl e, fds1)
           | (Inr socks, fds1) \<Rightarrow>
               (Inr \<lparr>sn_conf = conf, sn_af = AFPacketiser_init, sn_pft = pft, sn_sockets = socks,
                     sn_running = cf_enable_pft conf, sn_pending = [], sn_debug = []\<rparr>, fds1)))"

text \<open>
  One packet to one destination. For UDP the name is resolved at every packet: \<open>dn_gai\<close> and \<open>dn_addrs\<close> are the answer,
  \<open>dn_send\<close> that of \<open>sendto\<close>. The result is the datagram, if one was handed to the kernel, and the socket.
\<close>

record send_env =
  dn_gai :: int
  dn_addrs :: "InetAddress list"
  dn_send :: "errno option"

definition send_to ::
  "dest_socket \<Rightarrow> send_env \<Rightarrow> bytes \<Rightarrow> fdtable \<Rightarrow> exn + (InetAddress \<times> bytes) list \<times> dest_socket \<times> fdtable" where
  "send_to s env data fds =
     (case s of
        DUdp u sock \<Rightarrow>
          (case resolveUdpDestination (dn_gai env) (dn_addrs env) of
             Inl e \<Rightarrow> Inl e
           | Inr addr \<Rightarrow>
               (case udp_send_to data addr (dn_send env) of Inl e \<Rightarrow> Inl e | Inr out \<Rightarrow> Inr (out, s, fds)))
      | DServer d \<Rightarrow>
          (case td_write d data fds of Inl e \<Rightarrow> Inl e | Inr (d', fds') \<Rightarrow> Inr ([], DServer d', fds'))
      | DClient c \<Rightarrow>
          (case sc_sendall c data of Inl e \<Rightarrow> Inl e | Inr c' \<Rightarrow> Inr ([], DClient c', fds)))"

text \<open>The loop over the destinations. An exception leaves it; what went out before stays sent.\<close>

fun send_to_all ::
  "dest_socket list \<Rightarrow> send_env list \<Rightarrow> bytes \<Rightarrow> fdtable \<Rightarrow> exn option \<times> (InetAddress \<times> bytes) list \<times> dest_socket list \<times> fdtable" where
  "send_to_all [] envs data fds = (None, [], [], fds)"
| "send_to_all (s # ss) [] data fds = (Some OutOfBounds, [], s # ss, fds)"
| "send_to_all (s # ss) (env # envs) data fds =
     (case send_to s env data fds of
        Inl e \<Rightarrow> (Some e, [], s # ss, fds)
      | Inr (out, s', fds1) \<Rightarrow>
          (case send_to_all ss envs data fds1 of
             (e, outs, ss', fds2) \<Rightarrow> (e, out @ outs, s' # ss', fds2)))"

text \<open>\<open>llrint\<close> rounds to the nearest integer, halves to the even one.\<close>

definition llrint :: "rat \<Rightarrow> int" where
  "llrint x =
     (let f = \<lfloor>x\<rfloor>; r = x - of_int f
      in if r < 1 / 2 then f else if r > 1 / 2 then f + 1 else if even f then f else f + 1)"

text \<open>Microseconds between the fragments.\<close>

definition inter_fragment_wait_time :: "rat \<Rightarrow> nat \<Rightarrow> int" where
  "inter_fragment_wait_time factor n =
     (if n > 1 \<and> factor > 0 then llrint (factor * 24000 / of_nat n) else 1)"

text \<open>\<open>m_pending_frames[tp] = frag\<close>\<close>

fun map_assign :: "int \<Rightarrow> 'v \<Rightarrow> (int \<times> 'v) list \<Rightarrow> (int \<times> 'v) list" where
  "map_assign k v [] = [(k, v)]"
| "map_assign k v ((k', v') # xs) =
     (if k < k' then (k, v) # (k', v') # xs
      else if k = k' then (k, v) # xs
      else (k', v') # map_assign k v xs)"

fun schedule :: "int \<Rightarrow> int \<Rightarrow> bytes list \<Rightarrow> (int \<times> bytes) list \<Rightarrow> (int \<times> bytes) list" where
  "schedule tp wait [] pending = pending"
| "schedule tp wait (frag # frags) pending = schedule (tp + wait * 1000) wait frags (map_assign tp frag pending)"

text \<open>\<open>write(af_packet)\<close> at time \<open>now\<close>: the exception, if any, the datagrams that went out, and the sender.\<close>

definition write_af ::
  "Sender \<Rightarrow> int \<Rightarrow> send_env list \<Rightarrow> bytes \<Rightarrow> fdtable \<Rightarrow> exn option \<times> (InetAddress \<times> bytes) list \<times> Sender \<times> fdtable" where
  "write_af s now envs af_packet fds =
     (if cf_enable_pft (sn_conf s) then
        (case PFT_Assemble (sn_pft s) af_packet of
           (Inl e, pft) \<Rightarrow> (Some e, [], s\<lparr>sn_pft := pft\<rparr>, fds)
         | (Inr frags, pft) \<Rightarrow>
             (let wait = inter_fragment_wait_time (cf_fragment_spreading_factor (sn_conf s)) (length frags)
              in (None, [], s\<lparr>sn_pft := pft, sn_pending := schedule now wait frags (sn_pending s)\<rparr>, fds)))
      else
        (let s1 = (if cf_dump (sn_conf s) then s\<lparr>sn_debug := sn_debug s @ af_packet\<rparr> else s)
         in case send_to_all (sn_sockets s1) envs af_packet fds of
              (e, out, socks, fds') \<Rightarrow> (e, out, s1\<lparr>sn_sockets := socks\<rparr>, fds')))"

definition write_tag ::
  "Sender \<Rightarrow> int \<Rightarrow> send_env list \<Rightarrow> TagPacket \<Rightarrow> fdtable
    \<Rightarrow> exn option \<times> (InetAddress \<times> bytes) list \<times> Sender \<times> TagPacket \<times> fdtable" where
  "write_tag s now envs tagpacket fds =
     (case AFPacketiser_Assemble (sn_af s) tagpacket of
        Inl e \<Rightarrow> (Some e, [], s, tagpacket, fds)
      | Inr (af_packet, af, tagpacket') \<Rightarrow>
          (case write_af (s\<lparr>sn_af := af\<rparr>) now envs af_packet fds of
             (e, out, s', fds') \<Rightarrow> (e, out, s', tagpacket', fds')))"

definition override_af_sequence :: "Sender \<Rightarrow> u16 \<Rightarrow> Sender" where
  "override_af_sequence s seq = s\<lparr>sn_af := OverrideSeq (sn_af s) seq\<rparr>"

definition override_pft_sequence :: "Sender \<Rightarrow> u16 \<Rightarrow> Sender" where
  "override_pft_sequence s pseq = s\<lparr>sn_pft := OverridePSeq (sn_pft s) pseq\<rparr>"

text \<open>
  One pass of \<open>run\<close> at time \<open>now\<close>: the loop over the pending fragments. \<open>envs\<close> are the answers for each
  fragment that is sent. An exception is not caught and ends the program.
\<close>

fun run_loop ::
  "Sender \<Rightarrow> int \<Rightarrow> send_env list list \<Rightarrow> (int \<times> bytes) list \<Rightarrow> fdtable
    \<Rightarrow> exn option \<times> (InetAddress \<times> bytes) list \<times> (int \<times> bytes) list \<times> Sender \<times> fdtable" where
  "run_loop s now envss [] fds = (None, [], [], s, fds)"
| "run_loop s now envss ((t, frag) # ps) fds =
     (if t \<le> now then
        (let s1 = (if cf_dump (sn_conf s) then s\<lparr>sn_debug := sn_debug s @ frag\<rparr> else s);
             (envs, rest) = (case envss of [] \<Rightarrow> ([], []) | e # es \<Rightarrow> (e, es))
         in case send_to_all (sn_sockets s1) envs frag fds of
              (Some e, out, socks, fds1) \<Rightarrow> (Some e, out, (t, frag) # ps, s1\<lparr>sn_sockets := socks\<rparr>, fds1)
            | (None, out, socks, fds1) \<Rightarrow>
                (case run_loop (s1\<lparr>sn_sockets := socks\<rparr>) now rest ps fds1 of
                   (e, outs, pending, s2, fds2) \<Rightarrow> (e, out @ outs, pending, s2, fds2)))
      else
        (case run_loop s now envss ps fds of
           (e, outs, pending, s2, fds2) \<Rightarrow> (e, outs, (t, frag) # pending, s2, fds2)))"

definition run_pass ::
  "Sender \<Rightarrow> int \<Rightarrow> send_env list list \<Rightarrow> fdtable \<Rightarrow> exn option \<times> (InetAddress \<times> bytes) list \<times> Sender \<times> fdtable" where
  "run_pass s now envss fds =
     (if \<not> sn_running s then (None, [], s, fds)
      else (case run_loop s now envss (sn_pending s) fds of
              (e, out, pending, s', fds') \<Rightarrow> (e, out, s'\<lparr>sn_pending := pending\<rparr>, fds')))"

definition Sender_destroy :: "Sender \<Rightarrow> fdtable \<Rightarrow> Sender \<times> fdtable" where
  "Sender_destroy s fds = (s\<lparr>sn_running := False\<rparr>, foldl (\<lambda>f d. dest_destroy d f) fds (sn_sockets s))"

subsection \<open>The pending fragments\<close>

lemma map_assign_append: "\<forall>x \<in> set xs. fst x < k \<Longrightarrow> map_assign k v xs = xs @ [(k, v)]"
  by (induction xs) auto

lemma map_assign_keys: "fst ` set (map_assign k v xs) = insert k (fst ` set xs)"
  by (induction k v xs rule: map_assign.induct) (simp_all add: insert_commute)

lemma map_assign_sorted: "sorted_wrt (<) (map fst xs) \<Longrightarrow> sorted_wrt (<) (map fst (map_assign k v xs))"
proof (induction k v xs rule: map_assign.induct)
  case (2 k v k' v' xs)
  then show ?case using map_assign_keys [of k v xs] by fastforce
qed simp

lemma schedule_sorted: "sorted_wrt (<) (map fst ps) \<Longrightarrow> sorted_wrt (<) (map fst (schedule tp w frags ps))"
  by (induction tp w frags ps rule: schedule.induct) (simp_all add: map_assign_sorted)

text \<open>Fragments that are written behind all pending ones are queued one after the other.\<close>

lemma schedule_append:
  assumes "0 < w" "\<forall>x \<in> set ps. fst x < tp"
  shows "schedule tp w frags ps = ps @ map (\<lambda>i. (tp + int i * (w * 1000), frags ! i)) [0..<length frags]"
  using assms(2)
proof (induction frags arbitrary: tp ps)
  case (Cons f frags)
  have "schedule tp w (f # frags) ps = schedule (tp + w * 1000) w frags (ps @ [(tp, f)])"
    using map_assign_append [OF Cons.prems] by simp
  also have "\<dots> = (ps @ [(tp, f)]) @ map (\<lambda>i. (tp + w * 1000 + int i * (w * 1000), frags ! i)) [0..<length frags]"
    by (rule Cons.IH) (use Cons.prems assms(1) in fastforce)
  also have "\<dots> = ps @ map (\<lambda>i. (tp + int i * (w * 1000), (f # frags) ! i)) [0..<length (f # frags)]"
    by (simp add: upt_conv_Cons algebra_simps del: upt_Suc flip: map_Suc_upt)
  finally show ?case .
qed simp

lemma schedule_zero: "schedule tp 0 (fs @ [f]) [] = [(tp, f)]"
proof -
  have "schedule tp 0 (fs @ [f]) ps = [(tp, f)]" if "ps = [] \<or> (\<exists>g. ps = [(tp, g)])" for ps
    using that by (induction fs arbitrary: ps) auto
  then show ?thesis by simp
qed

text \<open>The time between fragments is positive unless the spreading factor is tiny, and zero when it is.\<close>

lemma llrint_cases: "1 / 2 < x \<Longrightarrow> 0 < llrint x" "0 \<le> x \<Longrightarrow> x < 1 / 2 \<Longrightarrow> llrint x = 0"
proof -
  assume x: "1 / 2 < x"
  show "0 < llrint x"
  proof (cases "1 \<le> x")
    case True
    then have "1 \<le> \<lfloor>x\<rfloor>" by simp
    then show ?thesis by (simp add: llrint_def Let_def)
  next
    case False
    then have "\<lfloor>x\<rfloor> = 0" using x by (simp add: floor_eq_iff)
    then show ?thesis using x by (simp add: llrint_def Let_def)
  qed
next
  assume "0 \<le> x" "x < 1 / 2"
  then have "\<lfloor>x\<rfloor> = 0" by (simp add: floor_eq_iff)
  then show "llrint x = 0" using \<open>x < 1 / 2\<close> by (simp add: llrint_def Let_def)
qed

lemma wait_positive:
  assumes "n \<le> 255" "factor \<le> 0 \<or> 128 / 24000 \<le> factor"
  shows "0 < inter_fragment_wait_time factor n"
proof (cases "1 < n \<and> 0 < factor")
  case True
  then have "128 \<le> factor * 24000" using assms(2) by simp
  moreover have "rat_of_nat n \<le> 255" using assms(1) by (metis of_nat_le_iff of_nat_numeral)
  ultimately have "1 / 2 * of_nat n < factor * 24000" by linarith
  then have "1 / 2 < factor * 24000 / of_nat n" using True by (simp add: less_divide_eq)
  then show ?thesis using True llrint_cases(1) by (simp add: inter_fragment_wait_time_def)
qed (auto simp: inter_fragment_wait_time_def)

subsection \<open>Sending\<close>

text \<open>All destinations are UDP destinations that resolve to \<open>addrs\<close>, and \<open>sendto\<close> succeeds.\<close>

definition udp_env_ok :: "dest_socket list \<Rightarrow> InetAddress list \<Rightarrow> send_env list \<Rightarrow> bool" where
  "udp_env_ok ss addrs envs \<longleftrightarrow>
     list_all (\<lambda>s. case s of DUdp _ _ \<Rightarrow> True | _ \<Rightarrow> False) ss \<and> length envs = length ss \<and> length addrs = length ss
     \<and> list_all2 (\<lambda>env a. dn_gai env = 0 \<and> dn_addrs env \<noteq> [] \<and> hd (dn_addrs env) = a \<and> dn_send env = None) envs addrs"

lemma send_to_all_udp:
  assumes "udp_env_ok ss addrs envs"
  shows "send_to_all ss envs data fds = (None, map (\<lambda>a. (a, data)) addrs, ss, fds)"
  using assms
proof (induction ss arbitrary: addrs envs)
  case (Cons s ss)
  obtain env envs' a addrs' where e: "envs = env # envs'" "addrs = a # addrs'"
    using Cons.prems by (cases envs; cases addrs) (auto simp: udp_env_ok_def)
  obtain u k where s: "s = DUdp u k" using Cons.prems by (cases s) (auto simp: udp_env_ok_def)
  obtain r where "dn_addrs env = a # r"
    using Cons.prems unfolding e by (cases "dn_addrs env") (auto simp: udp_env_ok_def)
  moreover have "udp_env_ok ss addrs' envs'" "dn_gai env = 0" "dn_send env = None"
    using Cons.prems unfolding e by (auto simp: udp_env_ok_def)
  ultimately show ?case
    using Cons.IH [of addrs' envs'] unfolding e s by (simp add: send_to_def resolveUdpDestination_def udp_send_to_def)
qed (simp add: udp_env_ok_def)

lemma run_loop_udp:
  assumes "length ps \<le> length envss" "\<forall>es \<in> set envss. udp_env_ok (sn_sockets s) addrs es"
  shows "\<exists>s'. run_loop s now envss ps fds = (None,
      concat (map (\<lambda>f. map (\<lambda>a. (a, f)) addrs) (map snd (filter (\<lambda>x. fst x \<le> now) ps))),
      filter (\<lambda>x. now < fst x) ps, s', fds) \<and> sn_sockets s' = sn_sockets s"
  using assms
proof (induction ps arbitrary: s envss)
  case (Cons x ps)
  obtain t f es ess where x: "x = (t, f)" "envss = es # ess" using Cons.prems(1) by (cases x; cases envss) auto
  show ?case
  proof (cases "t \<le> now")
    case True
    let ?s = "(if cf_dump (sn_conf s) then s\<lparr>sn_debug := sn_debug s @ f\<rparr> else s)\<lparr>sn_sockets := sn_sockets s\<rparr>"
    have "send_to_all (sn_sockets s) es f fds = (None, map (\<lambda>a. (a, f)) addrs, sn_sockets s, fds)"
      using Cons.prems(2) x(2) by (intro send_to_all_udp) simp
    then show ?thesis using Cons.IH [of ess ?s] Cons.prems x True by (auto simp: Let_def)
  next
    case False
    then show ?thesis using Cons.IH [of envss s] Cons.prems x by auto
  qed
qed simp

lemma run_pass_due:
  assumes "sn_running s" "length (sn_pending s) \<le> length envss" "\<forall>es \<in> set envss. udp_env_ok (sn_sockets s) addrs es"
    and "a \<in> set addrs" "distinct addrs"
  shows "\<exists>out s'. run_pass s now envss fds = (None, out, s', fds)
    \<and> map snd (filter (\<lambda>x. fst x = a) out) = map snd (filter (\<lambda>x. fst x \<le> now) (sn_pending s))
    \<and> sn_pending s' = filter (\<lambda>x. now < fst x) (sn_pending s) \<and> sn_sockets s' = sn_sockets s"
proof -
  have one: "map snd (filter (\<lambda>x. fst x = a) (map (\<lambda>a. (a, f :: bytes)) addrs)) = [f]" for f
    using assms(4,5) by (induction addrs) (auto simp: filter_empty_conv)
  have all: "map snd (filter (\<lambda>x. fst x = a) (concat (map (\<lambda>f. map (\<lambda>a. (a, f)) addrs) fs))) = fs" for fs :: "bytes list"
    by (induction fs) (simp_all add: one)
  let ?due = "map snd (filter (\<lambda>x. fst x \<le> now) (sn_pending s))"
  let ?out = "concat (map (\<lambda>f. map (\<lambda>a. (a, f)) addrs) ?due)"
  obtain s' where s': "run_loop s now envss (sn_pending s) fds = (None, ?out, filter (\<lambda>x. now < fst x) (sn_pending s), s', fds)"
    "sn_sockets s' = sn_sockets s" using run_loop_udp [OF assms(2,3)] by blast
  let ?s = "s'\<lparr>sn_pending := filter (\<lambda>x. now < fst x) (sn_pending s)\<rparr>"
  have "run_pass s now envss fds = (None, ?out, ?s, fds)" using assms(1) s'(1) by (simp only: run_pass_def) simp
  then show ?thesis using all [of ?due] s'(2) by (intro exI [of _ ?out] exI [of _ ?s]) (simp del: map_map)
qed

text \<open>A pass of the thread changes only what is pending, the state of the sockets and the debug file.\<close>

lemma run_loop_keeps:
  assumes "run_loop s now envss ps fds = (e, out, pending, s', fds')"
  shows "sn_conf s' = sn_conf s \<and> sn_af s' = sn_af s \<and> sn_pft s' = sn_pft s \<and> sn_running s' = sn_running s"
  using assms
proof (induction ps arbitrary: s envss fds e out pending s' fds')
  case (Cons x ps)
  obtain t frag where x: "x = (t, frag)" by (cases x)
  define s1 where "s1 = (if cf_dump (sn_conf s) then s\<lparr>sn_debug := sn_debug s @ frag\<rparr> else s)"
  have s1: "sn_conf s1 = sn_conf s" "sn_af s1 = sn_af s" "sn_pft s1 = sn_pft s" "sn_running s1 = sn_running s"
    by (simp_all add: s1_def)
  obtain envs rest where er: "(case envss of [] \<Rightarrow> ([], []) | e # es \<Rightarrow> (e, es)) = (envs, rest)" by fastforce
  obtain e1 out1 socks fds1 where sa: "send_to_all (sn_sockets s1) envs frag fds = (e1, out1, socks, fds1)" by (metis prod_cases4)
  obtain e2 out2 p2 s2 fds2 where r1: "run_loop (s1\<lparr>sn_sockets := socks\<rparr>) now rest ps fds1 = (e2, out2, p2, s2, fds2)"
    by (metis prod_cases5)
  obtain e3 out3 p3 s3 fds3 where r2: "run_loop s now envss ps fds = (e3, out3, p3, s3, fds3)" by (metis prod_cases5)
  have "s' = (if t \<le> now then if e1 = None then s2 else s1\<lparr>sn_sockets := socks\<rparr> else s3)"
    using Cons.prems er sa r1 r2 by (cases e1) (auto simp: x simp flip: s1_def split: if_splits)
  then show ?case using Cons.IH [OF r1] Cons.IH [OF r2] s1 by (auto split: if_splits)
qed simp

lemma run_pass_keeps:
  assumes "run_pass s now envss fds = (e, out, s', fds')"
  shows "sn_conf s' = sn_conf s" "sn_af s' = sn_af s" "sn_pft s' = sn_pft s" "sn_running s' = sn_running s"
  using assms run_loop_keeps by (auto simp: run_pass_def split: if_splits prod.splits)

subsection \<open>The thread as its users see it\<close>

text \<open>
  What the rest of the program relies on: a pass sends what is due, in the order of the times, and keeps the rest. It follows that passes
  at any times lose and repeat nothing, and that everything is sent once each fragment has seen a pass after its time.
\<close>

locale delayed_sender =
  fixes ok :: "'s \<Rightarrow> bool"
    and pending :: "'s \<Rightarrow> (int \<times> 'b) list"
    and pass :: "int \<Rightarrow> 's \<Rightarrow> 'b list \<times> 's"
  assumes pass_ok: "ok s \<Longrightarrow> ok (snd (pass now s))"
    and pass_sends: "ok s \<Longrightarrow> fst (pass now s) = map snd (filter (\<lambda>x. fst x \<le> now) (pending s))"
    and pass_keeps: "ok s \<Longrightarrow> pending (snd (pass now s)) = filter (\<lambda>x. now < fst x) (pending s)"
begin

fun passes :: "int list \<Rightarrow> 's \<Rightarrow> 'b list \<times> 's" where
  "passes [] s = ([], s)"
| "passes (now # ts) s = (case pass now s of (out, s1) \<Rightarrow> (case passes ts s1 of (outs, s2) \<Rightarrow> (out @ outs, s2)))"

lemma passes_pending: "ok s \<Longrightarrow> pending (snd (passes ts s)) = filter (\<lambda>x. \<forall>t \<in> set ts. t < fst x) (pending s)"
proof (induction ts arbitrary: s)
  case (Cons t ts)
  obtain out s1 where p: "pass t s = (out, s1)" by fastforce
  have "ok s1" "pending s1 = filter (\<lambda>x. t < fst x) (pending s)" using pass_ok [OF Cons.prems, of t] pass_keeps [OF Cons.prems, of t] p by simp_all
  then show ?case using Cons.IH [of s1] p by (simp add: split_beta conj_commute)
qed simp

lemma passes_conserve:
  "ok s \<Longrightarrow> mset (fst (passes ts s)) + mset (map snd (pending (snd (passes ts s)))) = mset (map snd (pending s))"
proof (induction ts arbitrary: s)
  case (Cons t ts)
  obtain out s1 where p: "pass t s = (out, s1)" by fastforce
  have s1: "ok s1" "out = map snd (filter (\<lambda>x. fst x \<le> t) (pending s))" "pending s1 = filter (\<lambda>x. t < fst x) (pending s)"
    using pass_ok [OF Cons.prems, of t] pass_sends [OF Cons.prems, of t] pass_keeps [OF Cons.prems, of t] p by simp_all
  have "mset (pending s) = mset (filter (\<lambda>x. fst x \<le> t) (pending s)) + mset (filter (\<lambda>x. t < fst x) (pending s))"
    using multiset_partition [of "mset (pending s)" "\<lambda>x. fst x \<le> t"] by (simp add: linorder_not_le mset_filter)
  from arg_cong [OF this, of "image_mset snd"] have "mset (map snd (pending s)) = mset out + mset (map snd (pending s1))" by (simp add: s1(2,3))
  then show ?case using Cons.IH [OF s1(1)] p by (simp add: split_beta add.assoc)
qed simp

lemma passes_all:
  assumes "ok s" "\<forall>x \<in> set (pending s). \<exists>t \<in> set ts. fst x \<le> t"
  shows "mset (fst (passes ts s)) = mset (map snd (pending s))" "pending (snd (passes ts s)) = []"
proof -
  show p: "pending (snd (passes ts s)) = []"
    using passes_pending [OF assms(1), of ts] assms(2) by (auto simp: filter_empty_conv linorder_not_less)
  show "mset (fst (passes ts s)) = mset (map snd (pending s))" using passes_conserve [OF assms(1), of ts] p by simp
qed

end

text \<open>The thread of the model, with UDP destinations that can be reached: what the destination \<open>a\<close> gets.\<close>

definition sender_reaches :: "InetAddress list \<Rightarrow> InetAddress \<Rightarrow> send_env list \<Rightarrow> Sender \<Rightarrow> bool" where
  "sender_reaches addrs a envs s \<longleftrightarrow> sn_running s \<and> udp_env_ok (sn_sockets s) addrs envs \<and> distinct addrs \<and> a \<in> set addrs"

definition thread_pass :: "InetAddress \<Rightarrow> send_env list \<Rightarrow> fdtable \<Rightarrow> int \<Rightarrow> Sender \<Rightarrow> bytes list \<times> Sender" where
  "thread_pass a envs fds now s =
     (case run_pass s now (replicate (length (sn_pending s)) envs) fds of
        (_, out, s', _) \<Rightarrow> (map snd (filter (\<lambda>x. fst x = a) out), s'))"

lemma thread_pass_due:
  assumes "sender_reaches addrs a envs s"
  shows "sender_reaches addrs a envs (snd (thread_pass a envs fds now s))"
    "fst (thread_pass a envs fds now s) = map snd (filter (\<lambda>x. fst x \<le> now) (sn_pending s))"
    "sn_pending (snd (thread_pass a envs fds now s)) = filter (\<lambda>x. now < fst x) (sn_pending s)"
proof -
  let ?e = "replicate (length (sn_pending s)) envs"
  have r: "sn_running s" "length (sn_pending s) \<le> length ?e" "\<forall>es \<in> set ?e. udp_env_ok (sn_sockets s) addrs es" "a \<in> set addrs" "distinct addrs"
    using assms by (simp_all add: sender_reaches_def)
  obtain out s' where o: "run_pass s now ?e fds = (None, out, s', fds)"
    "map snd (filter (\<lambda>x. fst x = a) out) = map snd (filter (\<lambda>x. fst x \<le> now) (sn_pending s))"
    "sn_pending s' = filter (\<lambda>x. now < fst x) (sn_pending s)" "sn_sockets s' = sn_sockets s"
    using run_pass_due [OF r, of now fds] by blast
  have t: "thread_pass a envs fds now s = (map snd (filter (\<lambda>x. fst x = a) out), s')" unfolding thread_pass_def o(1) by simp
  show "sender_reaches addrs a envs (snd (thread_pass a envs fds now s))"
    using assms run_pass_keeps(4) [OF o(1)] o(4) unfolding t by (simp add: sender_reaches_def)
  show "fst (thread_pass a envs fds now s) = map snd (filter (\<lambda>x. fst x \<le> now) (sn_pending s))"
    "sn_pending (snd (thread_pass a envs fds now s)) = filter (\<lambda>x. now < fst x) (sn_pending s)" unfolding t using o(2,3) by simp_all
qed

interpretation thread: delayed_sender "sender_reaches addrs a envs" sn_pending "thread_pass a envs fds" for addrs a envs fds
  by unfold_locales (erule thread_pass_due)+

text \<open>Passes of the thread at the times \<open>ts\<close>: what the destination \<open>a\<close> gets, and the sender.\<close>

fun thread_run :: "InetAddress \<Rightarrow> send_env list \<Rightarrow> fdtable \<Rightarrow> int list \<Rightarrow> Sender \<Rightarrow> bytes list \<times> Sender" where
  "thread_run a envs fds [] s = ([], s)"
| "thread_run a envs fds (now # ts) s =
     (case thread_pass a envs fds now s of (out, s1) \<Rightarrow> (case thread_run a envs fds ts s1 of (outs, s2) \<Rightarrow> (out @ outs, s2)))"

lemma thread_run_passes: "thread_run a envs fds ts s = thread.passes a envs fds ts s"
  by (induction ts arbitrary: s) simp_all



subsection \<open>What is delivered\<close>

text \<open>A pass of the sender thread at time \<open>now\<close>, when all destinations are reachable UDP destinations, sends to each of them
  exactly the fragments that are due, in the order of their times, and keeps exactly the others.\<close>

theorem run_pass_sends_due:
  assumes "sn_running s" "length (sn_pending s) \<le> length envss" "\<forall>es \<in> set envss. udp_env_ok (sn_sockets s) addrs es"
    and "a \<in> set addrs" "distinct addrs"
  shows "\<exists>out s'. run_pass s now envss fds = (None, out, s', fds)
    \<and> map snd (filter (\<lambda>x. fst x = a) out) = map snd (filter (\<lambda>x. fst x \<le> now) (sn_pending s))
    \<and> sn_pending s' = filter (\<lambda>x. now < fst x) (sn_pending s) \<and> sn_sockets s' = sn_sockets s"
  using assms by (rule run_pass_due)

theorem run_pass_sends_due_witness:
  "\<exists>out s'. run_pass \<lparr>sn_conf = configuration_default, sn_af = AFPacketiser_init,
       sn_pft = \<lparr>pft_k = 207, pft_m = 0, pft_pseq = 0, pft_num_chunks = 0\<rparr>,
       sn_sockets = [DUdp \<lparr>ud_dest_addr = [], ud_dest_port = 0, ud_source_addr = [], ud_source_port = 0, ud_ttl = 10\<rparr>
         \<lparr>us_sock = 3, us_port = 0\<rparr>],
       sn_running = True, sn_pending = [(5, [1]), (8, [2])], sn_debug = []\<rparr> 6
      (replicate 2 [\<lparr>dn_gai = 0, dn_addrs = [7], dn_send = None\<rparr>]) {3} = (None, out, s', {3})
    \<and> map snd (filter (\<lambda>x. fst x = 7) out) = [[1]] \<and> sn_pending s' = [(8, [2])]"
proof -
  let ?s = "\<lparr>sn_conf = configuration_default, sn_af = AFPacketiser_init,
       sn_pft = \<lparr>pft_k = 207, pft_m = 0, pft_pseq = 0, pft_num_chunks = 0\<rparr>,
       sn_sockets = [DUdp \<lparr>ud_dest_addr = [], ud_dest_port = 0, ud_source_addr = [], ud_source_port = 0, ud_ttl = 10\<rparr>
         \<lparr>us_sock = 3, us_port = 0\<rparr>],
       sn_running = True, sn_pending = [(5, [1]), (8, [2])], sn_debug = []\<rparr>"
  have "\<forall>es \<in> set (replicate 2 [\<lparr>dn_gai = 0, dn_addrs = [7], dn_send = None\<rparr>]). udp_env_ok (sn_sockets ?s) [7] es"
    by (simp add: udp_env_ok_def)
  then show ?thesis using run_pass_sends_due [of ?s _ "[7]" 7 6 "{3}"] by force
qed

lemma sender_delivers:
  assumes "cf_enable_pft (sn_conf s)" "sn_running s" "sn_pending s = []"
    and "0 < pft_k (sn_pft s)" "pft_k (sn_pft s) \<le> 207" "pft_m (sn_pft s) < 48"
    and "TagPacket_Assemble tp = Inr (payload, tp')" "CEIL_DIV (length payload + 12) (unat (pft_k (sn_pft s))) \<le> 256"
    and "cf_fragment_spreading_factor (sn_conf s) \<le> 0 \<or> 128 / 24000 \<le> cf_fragment_spreading_factor (sn_conf s)"
  shows "\<exists>s1. write_tag s now envs tp fds = (None, [], s1, tp', fds)
    \<and> (\<forall>now' envss addrs a. (\<forall>x \<in> set (sn_pending s1). fst x \<le> now') \<longrightarrow> length (sn_pending s1) \<le> length envss
         \<longrightarrow> (\<forall>es \<in> set envss. udp_env_ok (sn_sockets s) addrs es) \<longrightarrow> distinct addrs \<longrightarrow> a \<in> set addrs
         \<longrightarrow> (\<exists>out s2 af. run_pass s1 now' envss fds = (None, out, s2, fds) \<and> sn_pending s2 = []
              \<and> pf_reassemble (map snd (filter (\<lambda>x. fst x = a) out)) = Some af
              \<and> af_parse af = Some (af_seq (sn_af s), payload)))"
proof -
  obtain af a1 where af: "AFPacketiser_Assemble (sn_af s) tp = Inr (af, a1, tp')" "length af = length payload + 12"
    "length payload < 2 ^ 32 \<Longrightarrow> af_parse af = Some (af_seq (sn_af s), payload)"
    by (rule AFPacketiser_Assemble_ok [OF assms(7), of "sn_af s"]) blast
  have k: "0 < unat (pft_k (sn_pft s))" "unat (pft_k (sn_pft s)) \<le> 207"
    using assms(4,5) by (simp_all add: word_less_nat_alt word_le_nat_alt)
  have "length payload + 12 \<le> 256 * unat (pft_k (sn_pft s))" using assms(8) CEIL_DIV_le_iff [OF k(1)] by blast
  then have "length payload < 2 ^ 32" using k(2) by simp
  note parse = af(3) [OF this]
  have ne: "af \<noteq> []" and c: "CEIL_DIV (length af) (unat (pft_k (sn_pft s))) \<le> 256" using af(2) assms(8) by auto
  obtain fr pft' where fr: "PFT_Assemble (sn_pft s) af = (Inr fr, pft')" "length fr \<le> 255"
    "\<And>bs. set bs = set fr \<Longrightarrow> pf_reassemble bs = Some af"
    using pft_reassembles [OF assms(4-6) ne c] by metis
  let ?w = "inter_fragment_wait_time (cf_fragment_spreading_factor (sn_conf s)) (length fr)"
  have w: "0 < ?w" by (rule wait_positive [OF fr(2) assms(9)])
  let ?ps = "map (\<lambda>i. (now + int i * (?w * 1000), fr ! i)) [0..<length fr]"
  let ?s1 = "s\<lparr>sn_af := a1, sn_pft := pft', sn_pending := ?ps\<rparr>"
  have W: "write_tag s now envs tp fds = (None, [], ?s1, tp', fds)"
    using schedule_append [OF w, of "[]" now fr] assms(1,3) af(1) fr(1) by (simp add: write_tag_def write_af_def Let_def)
  have "\<exists>out s2 af. run_pass ?s1 now' envss fds = (None, out, s2, fds) \<and> sn_pending s2 = []
      \<and> pf_reassemble (map snd (filter (\<lambda>x. fst x = a) out)) = Some af \<and> af_parse af = Some (af_seq (sn_af s), payload)"
    if R: "\<forall>x \<in> set ?ps. fst x \<le> now'" "length ?ps \<le> length envss" "\<forall>es \<in> set envss. udp_env_ok (sn_sockets s) addrs es"
      "distinct addrs" "a \<in> set addrs" for now' envss addrs a
  proof -
    obtain out s2 where o: "run_pass ?s1 now' envss fds = (None, out, s2, fds)"
      "map snd (filter (\<lambda>x. fst x = a) out) = map snd (filter (\<lambda>x. fst x \<le> now') ?ps)"
      "sn_pending s2 = filter (\<lambda>x. now' < fst x) ?ps"
      using run_pass_due [of ?s1 envss addrs a now' fds] assms(2) R(2-5) by auto
    have all: "filter (\<lambda>x. fst x \<le> now') ?ps = ?ps" "filter (\<lambda>x. now' < fst x) ?ps = []"
      using R(1) by (auto simp: filter_id_conv filter_empty_conv)
    have "map snd ?ps = fr" by (simp add: comp_def map_nth)
    then have "map snd (filter (\<lambda>x. fst x = a) out) = fr" using o(2) all(1) by simp
    then show ?thesis using o all(2) fr(3) parse by auto
  qed
  then show ?thesis using W by (intro exI [of _ ?s1]) auto
qed



text \<open>C39: a spreading factor that is positive but so small that the time between fragments rounds to zero loses data: of
  all the fragments of a packet only the last is kept for sending.\<close>

theorem tiny_spreading_loses_fragments:
  assumes "cf_enable_pft (sn_conf s)" "sn_pending s = []" "PFT_Assemble (sn_pft s) af = (Inr (fs @ [f]), pft')" "fs \<noteq> []"
    and "0 < cf_fragment_spreading_factor (sn_conf s)"
    and "cf_fragment_spreading_factor (sn_conf s) * 24000 < of_nat (length fs + 1) / 2"
  shows "\<exists>s'. write_af s now envs af fds = (None, [], s', fds) \<and> sn_pending s' = [(now, f)]"
proof -
  let ?x = "cf_fragment_spreading_factor (sn_conf s) * 24000 / of_nat (length fs + 1)"
  have "?x < 1 / 2" using assms(6) by (simp add: divide_less_eq)
  moreover have "0 \<le> ?x" using assms(5) by simp
  ultimately have "llrint ?x = 0" by (intro llrint_cases(2))
  moreover have "1 < length (fs @ [f])" using assms(4) by simp
  ultimately have "inter_fragment_wait_time (cf_fragment_spreading_factor (sn_conf s)) (length (fs @ [f])) = 0"
    using assms(5) by (simp add: inter_fragment_wait_time_def)
  then show ?thesis using assms(1-3) schedule_zero [of now fs f] by (simp add: write_af_def)
qed

theorem tiny_spreading_loses_fragments_witness:
  "\<exists>s' f. write_af \<lparr>sn_conf = configuration_default\<lparr>cf_enable_pft := True, cf_fragment_spreading_factor := 1 / 100000\<rparr>,
       sn_af = AFPacketiser_init, sn_pft = \<lparr>pft_k = 207, pft_m = 2, pft_pseq = 0, pft_num_chunks = 0\<rparr>, sn_sockets = [],
       sn_running = True, sn_pending = [], sn_debug = []\<rparr> 0 [] [1, 2, 3] {} = (None, [], s', {}) \<and> sn_pending s' = [(0, f)]"
proof -
  let ?p = "\<lparr>pft_k = 207, pft_m = 2, pft_pseq = 0, pft_num_chunks = 0\<rparr> :: PFT"
  let ?s = "\<lparr>sn_conf = configuration_default\<lparr>cf_enable_pft := True, cf_fragment_spreading_factor := 1 / 100000\<rparr>,
       sn_af = AFPacketiser_init, sn_pft = ?p, sn_sockets = [], sn_running = True, sn_pending = [], sn_debug = []\<rparr>"
  obtain fr pft' where fr: "PFT_Assemble ?p [1, 2, 3] = (Inr fr, pft')" "length fr = 4"
    by (rule PFT_Assemble_fec [of ?p "[1, 2, 3]"]) (simp_all add: CEIL_DIV_def)
  then obtain fs f where fs: "fr = fs @ [f]" "length fs = 3" by (cases fr rule: rev_cases) auto
  have "\<exists>s'. write_af ?s 0 [] [1, 2, 3] {} = (None, [], s', {}) \<and> sn_pending s' = [(0, f)]"
    by (rule tiny_spreading_loses_fragments [of _ _ fs _ pft']) (use fr fs in auto)
  then show ?thesis by blast
qed

subsection \<open>Several packets at once\<close>

lemma map_assign_fresh: "k \<notin> fst ` set xs \<Longrightarrow> set (map_assign k v xs) = insert (k, v) (set xs)"
  by (induction k v xs rule: map_assign.induct) auto

text \<open>Time points are whole microseconds apart: fragments whose packets were written at different nanoseconds never meet.\<close>

lemma schedule_fresh:
  assumes "0 < w" "\<forall>x \<in> set ps. fst x mod 1000 \<noteq> tp mod 1000"
  shows "set (schedule tp w frags ps) = set ps \<union> {(tp + int i * (w * 1000), frags ! i) | i. i < length frags}"
proof -
  have "set (schedule tp w frags ps) = set ps \<union> {(tp + int i * (w * 1000), frags ! i) | i. i < length frags}"
    if "\<forall>x \<in> set ps. fst x mod 1000 = tp mod 1000 \<longrightarrow> fst x < tp" for tp ps
    using that
  proof (induction frags arbitrary: tp ps)
    case (Cons f frags)
    have "tp \<notin> fst ` set ps" using Cons.prems by fastforce
    note s = map_assign_fresh [OF this, of f]
    have "\<forall>x \<in> set (map_assign tp f ps). fst x mod 1000 = (tp + w * 1000) mod 1000 \<longrightarrow> fst x < tp + w * 1000"
      using Cons.prems assms(1) unfolding s by fastforce
    note IH = Cons.IH [OF this]
    have "{(tp + int i * (w * 1000), (f # frags) ! i) | i. i < length (f # frags)}
        = insert (tp, f) {(tp + w * 1000 + int i * (w * 1000), frags ! i) | i. i < length frags}" (is "?l = ?r")
    proof
      show "?l \<subseteq> ?r"
      proof
        fix x assume "x \<in> ?l"
        then obtain i where i: "x = (tp + int i * (w * 1000), (f # frags) ! i)" "i < length (f # frags)" by blast
        then show "x \<in> ?r" by (cases i) (auto simp: algebra_simps)
      qed
      show "?r \<subseteq> ?l"
      proof
        fix x assume "x \<in> ?r"
        then consider "x = (tp, f)" | i where "x = (tp + w * 1000 + int i * (w * 1000), frags ! i)" "i < length frags" by blast
        then show "x \<in> ?l"
        proof cases
          case 1
          then show ?thesis by (intro CollectI exI [of _ 0]) simp
        next
          case (2 i)
          then show ?thesis by (intro CollectI exI [of _ "Suc i"]) (simp add: algebra_simps)
        qed
      qed
    qed
    then show ?case using IH s by auto
  qed auto
  then show ?thesis using assms(2) by blast
qed

lemma PFT_Assemble_keeps: "PFT_Assemble p af = (r, p') \<Longrightarrow> pft_k p' = pft_k p \<and> pft_m p' = pft_m p"
  by (auto simp: PFT_Assemble_def ProtectAndFragment_def Protect_def Let_def split: prod.splits sum.splits if_splits option.splits)

text \<open>A sender that fragments, with a configuration in range.\<close>

definition sender_ok :: "Sender \<Rightarrow> bool" where
  "sender_ok s \<longleftrightarrow> cf_enable_pft (sn_conf s) \<and> sn_running s
     \<and> 0 < pft_k (sn_pft s) \<and> pft_k (sn_pft s) \<le> 207 \<and> pft_m (sn_pft s) < 48
     \<and> (cf_fragment_spreading_factor (sn_conf s) \<le> 0 \<or> 128 / 24000 \<le> cf_fragment_spreading_factor (sn_conf s))"

lemma write_tag_queues:
  assumes "sender_ok s" "TagPacket_Assemble tp = Inr (payload, tp')"
    and "CEIL_DIV (length payload + 12) (unat (pft_k (sn_pft s))) \<le> 256" "\<forall>x \<in> set (sn_pending s). fst x mod 1000 \<noteq> now mod 1000"
  obtains s1 fr where "write_tag s now envs tp fds = (None, [], s1, tp', fds)" "sender_ok s1" "sn_sockets s1 = sn_sockets s"
    "pft_k (sn_pft s1) = pft_k (sn_pft s)"
    "pft_pseq (sn_pft s1) = pft_pseq (sn_pft s) + 1" "af_seq (sn_af s1) = af_seq (sn_af s) + 1"
    "snd ` set (sn_pending s1) = snd ` set (sn_pending s) \<union> set fr"
    "\<And>x. x \<in> set (sn_pending s1) \<Longrightarrow> x \<in> set (sn_pending s) \<or> fst x mod 1000 = now mod 1000"
    "\<And>b. b \<in> set fr \<Longrightarrow> map_option pf_pseq (pf_parse b) = Some (pft_pseq (sn_pft s))"
    "\<And>bs. set bs = set fr \<Longrightarrow> \<exists>af. pf_reassemble bs = Some af \<and> af_parse af = Some (af_seq (sn_af s), payload)"
proof -
  note ok = assms(1) [unfolded sender_ok_def]
  obtain af a1 where af: "AFPacketiser_Assemble (sn_af s) tp = Inr (af, a1, tp')" "length af = length payload + 12"
    "length payload < 2 ^ 32 \<Longrightarrow> af_parse af = Some (af_seq (sn_af s), payload)"
    by (rule AFPacketiser_Assemble_ok [OF assms(2), of "sn_af s"]) blast
  have a1: "af_seq a1 = af_seq (sn_af s) + 1" using AFPacketiser_AssembleD [OF af(1)] by (metis AFPacketiser.simps(1) AFPacketiser.surjective AFPacketiser.update_convs(1))
  have k: "0 < unat (pft_k (sn_pft s))" "unat (pft_k (sn_pft s)) \<le> 207" using ok by (simp_all add: word_less_nat_alt word_le_nat_alt)
  have "length payload + 12 \<le> 256 * unat (pft_k (sn_pft s))" using assms(3) CEIL_DIV_le_iff [OF k(1)] by blast
  then have "length payload < 2 ^ 32" using k(2) by simp
  note parse = af(3) [OF this]
  have ne: "af \<noteq> []" and c: "CEIL_DIV (length af) (unat (pft_k (sn_pft s))) \<le> 256" using af(2) assms(3) by auto
  obtain fr pft' where fr: "PFT_Assemble (sn_pft s) af = (Inr fr, pft')" "pft_pseq pft' = pft_pseq (sn_pft s) + 1" "length fr \<le> 255"
    "\<forall>i < length fr. map_option pf_pseq (pf_parse (fr ! i)) = Some (pft_pseq (sn_pft s))"
    "\<And>bs. set bs = set fr \<Longrightarrow> pf_reassemble bs = Some af"
    using pft_reassembles [OF _ _ _ ne c] ok by blast
  let ?w = "inter_fragment_wait_time (cf_fragment_spreading_factor (sn_conf s)) (length fr)"
  have w: "0 < ?w" using wait_positive [OF fr(3)] ok by blast
  note sch = schedule_fresh [OF w assms(4), of fr]
  let ?s1 = "s\<lparr>sn_af := a1, sn_pft := pft', sn_pending := schedule now ?w fr (sn_pending s)\<rparr>"
  show thesis
  proof (rule that [of ?s1 fr])
    show "write_tag s now envs tp fds = (None, [], ?s1, tp', fds)"
      using ok af(1) fr(1) by (simp add: write_tag_def write_af_def Let_def)
    show "sender_ok ?s1" "pft_k (sn_pft ?s1) = pft_k (sn_pft s)" using ok PFT_Assemble_keeps [OF fr(1)] by (simp_all add: sender_ok_def)
    show "snd ` set (sn_pending ?s1) = snd ` set (sn_pending s) \<union> set fr"
    proof -
      have "snd ` {(f i, fr ! i) | i. i < length fr} = set fr" for f :: "nat \<Rightarrow> int" by (auto simp: set_conv_nth image_def)
      then show ?thesis by (simp add: sch image_Un)
    qed
    show "x \<in> set (sn_pending s) \<or> fst x mod 1000 = now mod 1000" if "x \<in> set (sn_pending ?s1)" for x
    proof -
      have "(now + int i * (?w * 1000)) mod 1000 = now mod 1000" for i
        using mod_mult_self1 [of now "int i * ?w" 1000] by (simp only: mult.assoc)
      then show ?thesis using that by (auto simp: sch)
    qed
    show "map_option pf_pseq (pf_parse b) = Some (pft_pseq (sn_pft s))" if "b \<in> set fr" for b
      using that fr(4) by (auto simp: in_set_conv_nth)
  qed (use fr(2,5) a1 parse in simp_all)
qed

end
