(* ===== verification/ClockTAI.thy ===== *)
theory ClockTAI
  imports Prelude
begin

text \<open>
  Model of \<open>lib/ClockTAI.h\<close> and \<open>lib/ClockTAI.cpp\<close>: the TAI-UTC offset from the leap second bulletin. A bulletin is
  parsed with two regular expressions; the clock takes the bulletin it has, the one in the cache
  file or a downloaded one, whichever is usable, and refreshes once per hour in the background.
  \<open>time(nullptr)\<close> is an argument and does not change during a call, the steady clock is in
  nanoseconds, the cache file is its content with the answers of the system calls as arguments, and
  what the download gives is a function of the URL. The remote control is in \<open>ClockRC\<close>; the log is left out.
\<close>

unbundle bit_operations_syntax

subsection \<open>Strings\<close>

text \<open>\<open>getline(ss, elem, delim)\<close> until the stream is exhausted.\<close>

function getlines :: "char \<Rightarrow> string \<Rightarrow> string list" where
  "getlines delim s =
     (if s = [] then []
      else takeWhile (\<lambda>c. c \<noteq> delim) s # getlines delim (tl (dropWhile (\<lambda>c. c \<noteq> delim) s)))"
  by pat_completeness auto
termination
proof (relation "measure (length \<circ> snd)", goal_cases)
  case (2 delim s)
  have "length (tl (dropWhile (\<lambda>c. c \<noteq> delim) s)) \<le> length s - 1"
    using length_dropWhile_le [of "\<lambda>c. c \<noteq> delim" s] by simp
  then show ?case using 2 by (cases s) auto
qed simp

declare getlines.simps [simp del]

fun join_string_with_pipe :: "string list \<Rightarrow> string" where
  "join_string_with_pipe [] = ''''"
| "join_string_with_pipe [s] = s"
| "join_string_with_pipe (s # t # ss) = s @ ''|'' @ join_string_with_pipe (t # ss)"

definition split_pipe_separated_string :: "string \<Rightarrow> string list" where
  "split_pipe_separated_string s = getlines (CHR ''|'') s"

text \<open>
  \<open>std::regex_search\<close>: the first position at which the pattern matches. For both patterns a match at a position is unique:
  a run of digits or of white space is followed by a character that cannot belong to it.
\<close>

fun regex_search :: "(string \<Rightarrow> 'a option) \<Rightarrow> string \<Rightarrow> 'a option" where
  "regex_search m [] = m []"
| "regex_search m (c # cs) = (case m (c # cs) of Some r \<Rightarrow> Some r | None \<Rightarrow> regex_search m cs)"

text \<open>\<open>[0-9]+\<close> followed by \<open>\s+\<close>: the digits and the rest.\<close>

definition match_number_space :: "string \<Rightarrow> (string \<times> string) option" where
  "match_number_space s =
     (let ds = takeWhile is_digit s; r = dropWhile is_digit s
      in if ds = [] \<or> r = [] \<or> \<not> is_space (hd r) then None else Some (ds, dropWhile is_space r))"

text \<open>\<open>([0-9]+)\s+([0-9]+)\s+#.*\<close>\<close>

definition regex_bulletin :: "string \<Rightarrow> (string \<times> string) option" where
  "regex_bulletin s =
     (case match_number_space s of
        None \<Rightarrow> None
      | Some (ts, r) \<Rightarrow>
          (case match_number_space r of
             None \<Rightarrow> None
           | Some (off, r') \<Rightarrow> if r' \<noteq> [] \<and> hd r' = CHR ''#'' then Some (ts, off) else None))"

text \<open>\<open>#@\s+([0-9]+)\<close>\<close>

definition regex_expiration :: "string \<Rightarrow> string option" where
  "regex_expiration s =
     (let r = drop 2 s; ds = takeWhile is_digit (dropWhile is_space r)
      in if take 2 s = ''#@'' \<and> r \<noteq> [] \<and> is_space (hd r) \<and> ds \<noteq> [] then Some ds else None)"

subsection \<open>Bulletins\<close>

definition NTP_UNIX_OFFSET :: int where "NTP_UNIX_OFFSET = 2208988800"

text \<open>The loop over the lines: the offset of the last line that is not in the future, if there was one.\<close>

fun bulletin_loop :: "int \<Rightarrow> string list \<Rightarrow> int option \<Rightarrow> exn + int option" where
  "bulletin_loop now [] acc = Inr acc"
| "bulletin_loop now (line # lines) acc =
     (case regex_search regex_bulletin line of
        None \<Rightarrow> bulletin_loop now lines acc
      | Some (bulletin_ntp_timestamp, bulletin_offset) \<Rightarrow>
          (case stoll bulletin_ntp_timestamp of
             Inl e \<Rightarrow> Inl e
           | Inr ts \<Rightarrow>
               (case stoi bulletin_offset of
                  Inl e \<Rightarrow> Inl e
                | Inr offset \<Rightarrow>
                    bulletin_loop now lines (if ts - NTP_UNIX_OFFSET < now then Some offset else acc))))"

definition parse_ietf_bulletin :: "int \<Rightarrow> string \<Rightarrow> exn + int" where
  "parse_ietf_bulletin now bulletin =
     (case bulletin_loop now (getlines (CHR 0x0A) bulletin) None of
        Inl e \<Rightarrow> Inl e
      | Inr None \<Rightarrow> Inl RuntimeError
      | Inr (Some tai_utc_offset) \<Rightarrow>
          if tai_utc_offset < 0 \<or> tai_utc_offset > 500 then Inl RuntimeError else Inr tai_utc_offset)"

record BulletinState =
  bs_valid :: bool
  bs_expires_at :: int
  bs_offset :: int

definition BulletinState_init :: BulletinState where
  "BulletinState_init = \<lparr>bs_valid = False, bs_expires_at = 0, bs_offset = 0\<rparr>"

definition expires_in :: "int \<Rightarrow> BulletinState \<Rightarrow> int" where
  "expires_in now s = bs_expires_at s - now"

definition usable :: "int \<Rightarrow> BulletinState \<Rightarrow> bool" where
  "usable now s \<longleftrightarrow> bs_valid s \<and> expires_in now s > 0"

definition expires_soon :: "int \<Rightarrow> BulletinState \<Rightarrow> bool" where
  "expires_soon now s \<longleftrightarrow> usable now s \<and> expires_in now s < 1 * (3600 * 24 * 30)"

record OverrideData =
  od_offset :: int
  od_expires_at :: int

datatype bulletin_data = BulletinText string | Override OverrideData

record Bulletin =
  bl_source :: string
  bl_data :: bulletin_data

definition Bulletin_init :: Bulletin where
  "Bulletin_init = \<lparr>bl_source = '''', bl_data = BulletinText ''''\<rparr>"

text \<open>Only the first line that matches is used. What \<open>ret\<close> got before an exception stays in it.\<close>

fun expiry_line :: "string list \<Rightarrow> string option" where
  "expiry_line [] = None"
| "expiry_line (line # lines) =
     (case regex_search regex_expiration line of None \<Rightarrow> expiry_line lines | Some ds \<Rightarrow> Some ds)"

definition bulletin_state :: "int \<Rightarrow> Bulletin \<Rightarrow> BulletinState" where
  "bulletin_state now b =
     (case bl_data b of
        Override od \<Rightarrow> \<lparr>bs_valid = True, bs_expires_at = od_expires_at od, bs_offset = od_offset od\<rparr>
      | BulletinText bulletin \<Rightarrow>
          (case expiry_line (getlines (CHR 0x0A) bulletin) of
             None \<Rightarrow> BulletinState_init
           | Some expiry_data_str \<Rightarrow>
               (case stoll expiry_data_str of
                  Inl e \<Rightarrow> BulletinState_init
                | Inr n \<Rightarrow>
                    (let ret = BulletinState_init\<lparr>bs_expires_at := n - NTP_UNIX_OFFSET\<rparr>
                     in case parse_ietf_bulletin now bulletin of
                          Inl e \<Rightarrow> ret
                        | Inr offset \<Rightarrow> ret\<lparr>bs_offset := offset, bs_valid := True\<rparr>))))"

text \<open>What cURL does: no handle, an error, or calls of \<open>fill_bulletin\<close> with pieces of the document. Without cURL in the build
  nothing can be downloaded.\<close>

datatype curl_result = NoCurl | NoHandle | CurlError | CurlPieces "string list"

definition fill_bulletin :: "string \<Rightarrow> string \<Rightarrow> string" where
  "fill_bulletin bulletin ptr = bulletin @ ptr"

definition download_from_url :: "(string \<Rightarrow> curl_result) \<Rightarrow> string \<Rightarrow> exn + Bulletin" where
  "download_from_url curl url =
     (case curl url of
        NoCurl \<Rightarrow> Inl RuntimeError
      | NoHandle \<Rightarrow> Inr \<lparr>bl_source = url, bl_data = BulletinText ''''\<rparr>
      | CurlError \<Rightarrow> Inl RuntimeError
      | CurlPieces ps \<Rightarrow> Inr \<lparr>bl_source = url, bl_data = BulletinText (foldl fill_bulletin '''' ps)\<rparr>)"

text \<open>\<open>expires_at\<close> of an override is an \<open>int\<close>.\<close>

definition to_int32 :: "int \<Rightarrow> int" where
  "to_int32 x = sint (word_of_int x :: u32)"

definition create_with_fixed_offset :: "int \<Rightarrow> int \<Rightarrow> Bulletin" where
  "create_with_fixed_offset now offset =
     \<lparr>bl_source = ''manual override'',
      bl_data = Override \<lparr>od_offset = offset, od_expires_at = to_int32 (now + 10 * 365 * 24 * 3600)\<rparr>\<rparr>"

definition clear_expiry_if_overridden :: "int \<Rightarrow> Bulletin \<Rightarrow> Bulletin" where
  "clear_expiry_if_overridden now b =
     (case bl_data b of
        Override od \<Rightarrow> b\<lparr>bl_data := Override (od\<lparr>od_expires_at := to_int32 now\<rparr>)\<rparr>
      | BulletinText _ \<Rightarrow> b)"

subsection \<open>The cache file\<close>

text \<open>
  The file is its content, \<open>None\<close> if it does not exist. For each use, \<open>fe_open\<close> and \<open>fe_lock\<close> say whether \<open>open\<close> and
  \<open>lockf\<close> succeed, \<open>fe_io\<close> what the calls of \<open>read\<close> or \<open>write\<close> answer: an error, or at most so many bytes. Calls beyond the
  list transfer everything there is.
\<close>

type_synonym cache = "string option"

record file_env =
  fe_open :: bool
  fe_lock :: bool
  fe_io :: "nat option list"

fun read_loop :: "nat option list \<Rightarrow> string \<Rightarrow> string \<Rightarrow> string option" where
  "read_loop [] rest acc = Some (acc @ rest)"
| "read_loop (None # as) rest acc = None"
| "read_loop (Some n # as) rest acc =
     (let chunk = take (min n 1024) rest
      in if chunk = [] then Some acc else read_loop as (drop (length chunk) rest) (acc @ chunk))"

definition load_from_file :: "file_env \<Rightarrow> cache \<Rightarrow> string \<Rightarrow> Bulletin" where
  "load_from_file env file cache_filename =
     (let bulletin = \<lparr>bl_source = cache_filename, bl_data = BulletinText ''''\<rparr>
      in case file of
           None \<Rightarrow> bulletin
         | Some content \<Rightarrow>
             if \<not> fe_open env then bulletin
             else if \<not> fe_lock env then bulletin
             else (case read_loop (fe_io env) content '''' of
                     None \<Rightarrow> bulletin
                   | Some new_bulletin_data \<Rightarrow> bulletin\<lparr>bl_data := BulletinText new_bulletin_data\<rparr>))"

text \<open>\<open>write\<close> at position \<open>pos\<close> of a file that is not truncated.\<close>

definition pwrite :: "string \<Rightarrow> nat \<Rightarrow> string \<Rightarrow> string" where
  "pwrite content pos data = take pos content @ data @ drop (pos + length data) content"

fun write_loop :: "nat option list \<Rightarrow> nat \<Rightarrow> string \<Rightarrow> string \<Rightarrow> string" where
  "write_loop as pos [] content = content"
| "write_loop [] pos (d # data) content = pwrite content pos (d # data)"
| "write_loop (None # as) pos (d # data) content = content"
| "write_loop (Some n # as) pos (d # data) content =
     write_loop as (pos + length (take n (d # data))) (drop n (d # data)) (pwrite content pos (take n (d # data)))"

definition store_to_cache :: "file_env \<Rightarrow> cache \<Rightarrow> Bulletin \<Rightarrow> exn + cache" where
  "store_to_cache env file b =
     (case bl_data b of
        Override _ \<Rightarrow> Inl BadVariantAccess
      | BulletinText bulletin \<Rightarrow>
          if \<not> fe_open env then Inr file
          else
            (let content = (case file of None \<Rightarrow> '''' | Some c \<Rightarrow> c)
             in if \<not> fe_lock env then Inr (Some content)
                else Inr (Some (write_loop (fe_io env) 0 bulletin content))))"

subsection \<open>The clock\<close>

text \<open>The background task: not started, running, or done with its result; \<open>None\<close> is \<open>download_failed\<close>.\<close>

datatype offset_future = NoFuture | Running | Ready "exn + BulletinState option"

record ClockTAI =
  ct_bulletin_urls :: "string list"
  ct_bulletin :: Bulletin
  ct_state :: "BulletinState option"
  ct_state_last_updated :: int
  ct_offset_future :: offset_future

definition default_tai_urls :: "string list" where
  "default_tai_urls = [''https://raw.githubusercontent.com/eggert/tz/master/leap-seconds.list'']"

definition tai_cache_location :: string where
  "tai_cache_location = ''/var/tmp/odr-leap-seconds.cache''"

definition ClockTAI_init :: "string list \<Rightarrow> ClockTAI" where
  "ClockTAI_init bulletin_urls =
     \<lparr>ct_bulletin_urls = (if bulletin_urls = [] then default_tai_urls else bulletin_urls), ct_bulletin = Bulletin_init,
      ct_state = None, ct_state_last_updated = 0, ct_offset_future = NoFuture\<rparr>"

text \<open>The answers of the system during one search for a bulletin.\<close>

record tai_env =
  te_load :: file_env
  te_store :: file_env
  te_curl :: "string \<Rightarrow> curl_result"

text \<open>The loop over the URLs: a usable bulletin ends it; otherwise the bulletins that were downloaded are collected. \<open>runtime_error\<close> is
  caught, anything else leaves the function.\<close>

datatype url_result = Usable Bulletin | NotFound "Bulletin list" | Failed exn

fun url_loop :: "int \<Rightarrow> tai_env \<Rightarrow> string list \<Rightarrow> Bulletin list \<Rightarrow> url_result" where
  "url_loop now env [] bulletins = NotFound bulletins"
| "url_loop now env (url # urls) bulletins =
     (case download_from_url (te_curl env) url of
        Inl e \<Rightarrow> if e = RuntimeError then url_loop now env urls bulletins else Failed e
      | Inr new_bulletin \<Rightarrow>
          if usable now (bulletin_state now new_bulletin) then Usable new_bulletin
          else url_loop now env urls (bulletins @ [new_bulletin]))"

text \<open>"Place bulletins with largest expiry first": the elements are few, so \<open>std::sort\<close> is an insertion sort.\<close>

definition sort_bulletins :: "int \<Rightarrow> Bulletin list \<Rightarrow> Bulletin list" where
  "sort_bulletins now bs = sort_key (\<lambda>b. - bs_expires_at (bulletin_state now b)) bs"

definition get_valid_offset ::
  "int \<Rightarrow> tai_env \<Rightarrow> cache \<Rightarrow> ClockTAI \<Rightarrow> (exn + BulletinState option) \<times> cache \<times> ClockTAI" where
  "get_valid_offset now env file c =
     (let state = bulletin_state now (ct_bulletin c)
      in if usable now state then (Inr (Some state), file, c)
         else
           (let cache_bulletin = load_from_file (te_load env) file tai_cache_location;
                cache_state = bulletin_state now cache_bulletin
            in if usable now cache_state then (Inr (Some cache_state), file, c\<lparr>ct_bulletin := cache_bulletin\<rparr>)
               else
                 (case url_loop now env (ct_bulletin_urls c) [ct_bulletin c, cache_bulletin] of
                    Failed e \<Rightarrow> (Inl e, file, c)
                  | Usable new_bulletin \<Rightarrow>
                      (let c1 = c\<lparr>ct_bulletin := new_bulletin\<rparr>
                       in case store_to_cache (te_store env) file new_bulletin of
                            Inl e \<Rightarrow> (Inl e, file, c1)
                          | Inr file1 \<Rightarrow> (Inr (Some (bulletin_state now new_bulletin)), file1, c1))
                  | NotFound bulletins \<Rightarrow>
                      (case find (\<lambda>b. bs_valid (bulletin_state now b)) (sort_bulletins now bulletins) of
                         Some b \<Rightarrow> (Inr (Some (bulletin_state now b)), file, c\<lparr>ct_bulletin := b\<rparr>)
                       | None \<Rightarrow> (Inr None, file, c)))))"

text \<open>The background task ends.\<close>

definition async_finish :: "int \<Rightarrow> tai_env \<Rightarrow> cache \<Rightarrow> ClockTAI \<Rightarrow> cache \<times> ClockTAI" where
  "async_finish now env file c =
     (case ct_offset_future c of
        Running \<Rightarrow> (case get_valid_offset now env file c of (r, file1, c1) \<Rightarrow> (file1, c1\<lparr>ct_offset_future := Ready r\<rparr>))
      | _ \<Rightarrow> (file, c))"

definition refresh_retry_interval_hours :: int where [simp]: "refresh_retry_interval_hours = 1"

definition hour_ns :: int where "hour_ns = 3600 * 1000000000"

text \<open>The first block of \<open>get_offset\<close>: the first call waits for the offset.\<close>

definition offset_first :: "int \<Rightarrow> int \<Rightarrow> tai_env \<Rightarrow> cache \<Rightarrow> ClockTAI \<Rightarrow> exn option \<times> cache \<times> ClockTAI" where
  "offset_first now time_now env file c =
     (case ct_state c of
        Some _ \<Rightarrow> (None, file, c)
      | None \<Rightarrow>
          (case get_valid_offset now env file c of
             (Inl e, file1, c1) \<Rightarrow> (Some e, file1, c1)
           | (Inr None, file1, c1) \<Rightarrow> (Some RuntimeError, file1, c1)
           | (Inr (Some s), file1, c1) \<Rightarrow> (None, file1, c1\<lparr>ct_state := Some s, ct_state_last_updated := time_now\<rparr>)))"

text \<open>The second block: once per hour, start the background task or look at its result.\<close>

definition offset_refresh :: "int \<Rightarrow> ClockTAI \<Rightarrow> exn option \<times> ClockTAI" where
  "offset_refresh time_now c =
     (if ct_state_last_updated c + hour_ns < time_now then
        (case ct_offset_future c of
           NoFuture \<Rightarrow> (None, c\<lparr>ct_offset_future := Running\<rparr>)
         | Running \<Rightarrow> (None, c)
         | Ready r \<Rightarrow>
             (let c1 = c\<lparr>ct_offset_future := NoFuture\<rparr>
              in case r of
                   Inr (Some s) \<Rightarrow> (None, c1\<lparr>ct_state := Some s, ct_state_last_updated := time_now\<rparr>)
                 | Inr None \<Rightarrow> (None, c1\<lparr>ct_state_last_updated := ct_state_last_updated c1 + refresh_retry_interval_hours * hour_ns\<rparr>)
                 | Inl e \<Rightarrow> (Some e, c1)))
      else (None, c))"

definition get_offset :: "int \<Rightarrow> int \<Rightarrow> tai_env \<Rightarrow> cache \<Rightarrow> ClockTAI \<Rightarrow> (exn + int) \<times> cache \<times> ClockTAI" where
  "get_offset now time_now env file c =
     (case offset_first now time_now env file c of
        (Some e, file1, c1) \<Rightarrow> (Inl e, file1, c1)
      | (None, file1, c1) \<Rightarrow>
          (case offset_refresh time_now c1 of
             (Some e, c2) \<Rightarrow> (Inl e, file1, c2)
           | (None, c2) \<Rightarrow>
               (case ct_state c2 of
                  None \<Rightarrow> (Inl LogicError, file1, c2)
                | Some s \<Rightarrow> (Inr (bs_offset s), file1, c2))))"

subsection \<open>The cache\<close>

lemma write_loop_all:
  assumes "None \<notin> set as" "pos \<le> length content"
  shows "write_loop as pos data content = take pos content @ data @ drop (pos + length data) content"
  using assms
proof (induction as pos data content rule: write_loop.induct)
  case (4 n as pos d data content)
  let ?t = "take n (d # data)"
  have "take (min (Suc (length data)) n) (d # data) @ drop n (d # data) @ xs = (d # data) @ xs" for xs
    by (metis append.assoc append_take_drop_id length_Cons length_take take_take take_all_iff order_refl)
  moreover have "length ?t + length (drop n (d # data)) = Suc (length data)" by simp
  moreover have "pos + length ?t \<le> length (pwrite content pos ?t)" using 4 by (simp add: pwrite_def)
  ultimately show ?case
    using 4 by (simp add: pwrite_def ac_simps del: take_Cons drop_Cons)
qed (simp_all add: pwrite_def)

lemma read_loop_all:
  assumes "None \<notin> set as" "Some 0 \<notin> set as"
  shows "read_loop as rest acc = Some (acc @ rest)"
  using assms
proof (induction as rest acc rule: read_loop.induct)
  case (3 n as rest acc)
  then show ?case by (auto simp: Let_def min_def)
qed simp_all

text \<open>The cache keeps a bulletin. When no system call fails, loading the cache after storing a bulletin gives the stored text,
  followed by what an older, longer file has behind it, because the file is not truncated; an older file
  that is not longer leaves nothing.\<close>

theorem cache_roundtrip:
  assumes "bl_data b = BulletinText text" "fe_open se" "fe_lock se" "None \<notin> set (fe_io se)"
    and "fe_open le" "fe_lock le" "None \<notin> set (fe_io le)" "Some 0 \<notin> set (fe_io le)"
  shows "\<exists>file'. store_to_cache se file b = Inr file'
    \<and> load_from_file le file' name = \<lparr>bl_source = name,
         bl_data = BulletinText (text @ (case file of None \<Rightarrow> '''' | Some old \<Rightarrow> drop (length text) old))\<rparr>"
  using assms write_loop_all [of "fe_io se" 0] read_loop_all [of "fe_io le"]
  by (cases "file :: cache") (auto simp: store_to_cache_def load_from_file_def Let_def)

theorem cache_roundtrip_witness:
  "\<exists>file'. store_to_cache \<lparr>fe_open = True, fe_lock = True, fe_io = [Some 1]\<rparr> (Some ''12345'') \<lparr>bl_source = ''u'', bl_data = BulletinText ''abc''\<rparr> = Inr file'
    \<and> load_from_file \<lparr>fe_open = True, fe_lock = True, fe_io = [Some 2]\<rparr> file' ''f'' = \<lparr>bl_source = ''f'', bl_data = BulletinText ''abc45''\<rparr>"
  using cache_roundtrip [of "\<lparr>bl_source = ''u'', bl_data = BulletinText ''abc''\<rparr>" "''abc''"
      "\<lparr>fe_open = True, fe_lock = True, fe_io = [Some 1]\<rparr>" "\<lparr>fe_open = True, fe_lock = True, fe_io = [Some 2]\<rparr>" "Some ''12345''" "''f''"]
  by simp

subsection \<open>Reading a bulletin\<close>

text \<open>The text of a bulletin: its expiration in NTP time and the entries, each with the NTP time of a leap second, the offset from
  then on and a comment.\<close>

definition bulletin_entry :: "nat \<times> nat \<times> string \<Rightarrow> string" where
  "bulletin_entry e = (case e of (ts, offset, comment) \<Rightarrow> dec_nat ts @ CHR 0x09 # dec_nat offset @ CHR 0x09 # CHR ''#'' # comment)"

definition bulletin_text :: "nat \<Rightarrow> (nat \<times> nat \<times> string) list \<Rightarrow> string" where
  "bulletin_text expiry es = ''#@'' @ CHR 0x09 # dec_nat expiry @ CHR 0x0A # concat (map (\<lambda>e. bulletin_entry e @ [CHR 0x0A]) es)"

lemma getlines_line: "delim \<notin> set l \<Longrightarrow> getlines delim (l @ delim # rest) = l # getlines delim rest"
  by (subst getlines.simps) (simp add: takeWhile_append dropWhile_append)

lemma getlines_empty [simp]: "getlines delim [] = []"
  by (subst getlines.simps) simp

lemma getlines_lines:
  "\<forall>l \<in> set ls. delim \<notin> set l \<Longrightarrow> getlines delim (concat (map (\<lambda>l. l @ [delim]) ls)) = ls"
  by (induction ls) (simp_all add: getlines_line)

lemma dec_nat_no_newline [simp]: "CHR 0x0A \<notin> set (dec_nat n)" "CHR ''#'' \<notin> set (dec_nat n)"
  using dec_nat_digits [of n] is_digit_no_space by blast+

lemma match_number_space_dec:
  "is_space c \<Longrightarrow> r = [] \<or> \<not> is_space (hd r) \<Longrightarrow> match_number_space (dec_nat n @ c # r) = Some (dec_nat n, r)"
proof -
  assume c: "is_space c" and r: "r = [] \<or> \<not> is_space (hd r)"
  have nd: "\<not> is_digit c" using c is_digit_no_space by blast
  have "takeWhile is_digit (dec_nat n @ c # r) = dec_nat n" "dropWhile is_digit (dec_nat n @ c # r) = c # r"
    using dec_nat_digits [of n] nd by (simp_all add: takeWhile_append2 dropWhile_append2)
  moreover have "dropWhile is_space (c # r) = r" using c r by (cases r) simp_all
  ultimately show ?thesis using c by (simp add: match_number_space_def Let_def)
qed

lemma regex_search_hit: "m s = Some r \<Longrightarrow> regex_search m s = Some r"
  by (cases s) simp_all

lemma regex_search_suffix: "regex_search m s = Some r \<Longrightarrow> \<exists>p q. s = p @ q \<and> m q = Some r"
proof (induction s)
  case (Cons c s)
  show ?case
  proof (cases "m (c # s)")
    case None
    then obtain p q where "s = p @ q" "m q = Some r" using Cons by auto
    then show ?thesis by (intro exI [of _ "c # p"] exI [of _ q]) simp
  next
    case (Some x)
    then show ?thesis using Cons.prems by (intro exI [of _ "[]"] exI [of _ "c # s"]) simp
  qed
qed auto

lemma entry_line: "regex_search regex_bulletin (bulletin_entry (ts, offset, comment)) = Some (dec_nat ts, dec_nat offset)"
proof (rule regex_search_hit)
  have sp: "is_space (CHR 0x09)" "\<not> is_space (CHR ''#'')" by (simp_all add: is_space_def)
  have "match_number_space (bulletin_entry (ts, offset, comment)) = Some (dec_nat ts, dec_nat offset @ CHR 0x09 # CHR ''#'' # comment)"
    unfolding bulletin_entry_def by (simp add: match_number_space_dec sp is_digit_no_space dec_nat_hd)
  then show "regex_bulletin (bulletin_entry (ts, offset, comment)) = Some (dec_nat ts, dec_nat offset)"
    by (simp add: regex_bulletin_def match_number_space_dec sp)
qed

lemma match_number_space_suffix:
  "match_number_space s = Some (ds, r) \<Longrightarrow> \<exists>p. s = p @ r \<and> p \<noteq> []"
proof -
  assume "match_number_space s = Some (ds, r)"
  then have "takeWhile is_digit s \<noteq> []" "r = dropWhile is_space (dropWhile is_digit s)"
    by (auto simp: match_number_space_def Let_def split: if_splits)
  then show ?thesis
    by (intro exI [of _ "takeWhile is_digit s @ takeWhile is_space (dropWhile is_digit s)"]) simp
qed

text \<open>A line with nothing but its first character a hash mark is no entry.\<close>

lemma regex_bulletin_hash: "regex_bulletin s = Some x \<Longrightarrow> CHR ''#'' \<in> set (tl s)"
proof -
  assume "regex_bulletin s = Some x"
  then obtain ts r off r' where m: "match_number_space s = Some (ts, r)" "match_number_space r = Some (off, r')"
      "r' \<noteq> []" "hd r' = CHR ''#''"
    by (auto simp: regex_bulletin_def split: option.splits if_splits)
  obtain p p' where "s = p @ p' @ r'" "p \<noteq> []"
    using match_number_space_suffix [OF m(1)] match_number_space_suffix [OF m(2)] by auto
  then show ?thesis using m(3,4) by (cases p; cases r') auto
qed

lemma no_entry: "CHR ''#'' \<notin> set (tl s) \<Longrightarrow> regex_search regex_bulletin s = None"
proof (rule ccontr)
  assume h: "CHR ''#'' \<notin> set (tl s)" and "regex_search regex_bulletin s \<noteq> None"
  then obtain p q x where "s = p @ q" "regex_bulletin q = Some x" using regex_search_suffix by (metis option.exhaust)
  then show False using h regex_bulletin_hash [of q x] by (cases p; cases q) auto
qed

lemma expiration_line: "regex_search regex_expiration (''#@'' @ CHR 0x09 # dec_nat n) = Some (dec_nat n)"
  by (rule regex_search_hit) (simp add: regex_expiration_def is_space_def)

lemma bulletin_loop_entries:
  assumes "\<forall>(ts, offset, comment) \<in> set es. ts < 2 ^ 63 \<and> offset < 2 ^ 31"
  shows "bulletin_loop now (map bulletin_entry es) acc =
    Inr (case rev (filter (\<lambda>(ts, _, _). int ts - NTP_UNIX_OFFSET < now) es) of [] \<Rightarrow> acc | (_, offset, _) # _ \<Rightarrow> Some (int offset))"
  using assms
proof (induction es arbitrary: acc)
  case (Cons e es)
  obtain ts offset comment where e: "e = (ts, offset, comment)" by (cases e)
  have "stoll (dec_nat ts) = Inr (int ts)" "stoi (dec_nat offset) = Inr (int offset)"
    using Cons.prems unfolding e by (auto simp: stoll_def stoi_def stol_range_dec_nat)
  then show ?case
    using Cons unfolding e by (auto simp: entry_line split: list.split)
qed simp

lemma bulletin_state_text:
  assumes "bl_data b = BulletinText (bulletin_text expiry es)" "expiry < 2 ^ 63"
    and "\<forall>(ts, offset, comment) \<in> set es. ts < 2 ^ 63 \<and> offset \<le> 500 \<and> CHR 0x0A \<notin> set comment"
    and "filter (\<lambda>(ts, _, _). int ts - NTP_UNIX_OFFSET < now) es = past @ [(t, offset, comment)]"
  shows "bulletin_state now b = \<lparr>bs_valid = True, bs_expires_at = int expiry - NTP_UNIX_OFFSET, bs_offset = int offset\<rparr>"
proof -
  let ?first = "''#@'' @ CHR 0x09 # dec_nat expiry"
  have "bulletin_text expiry es = concat (map (\<lambda>l. l @ [CHR 0x0A]) (?first # map bulletin_entry es))"
    by (simp add: bulletin_text_def comp_def)
  moreover have "\<forall>l \<in> set (?first # map bulletin_entry es). CHR 0x0A \<notin> set l"
    using assms(3) by (auto simp: bulletin_entry_def)
  ultimately have lines: "getlines (CHR 0x0A) (bulletin_text expiry es) = ?first # map bulletin_entry es"
    using getlines_lines by metis
  have "regex_search regex_bulletin ?first = None" by (rule no_entry) simp
  moreover have "\<forall>(ts, offset, comment) \<in> set es. ts < 2 ^ 63 \<and> offset < 2 ^ 31" using assms(3) by fastforce
  ultimately have loop: "bulletin_loop now (getlines (CHR 0x0A) (bulletin_text expiry es)) None = Inr (Some (int offset))"
    unfolding lines bulletin_loop.simps using bulletin_loop_entries [of es now None] assms(4) by simp
  have "(t, offset, comment) \<in> set (filter (\<lambda>(ts, _, _). int ts - NTP_UNIX_OFFSET < now) es)" unfolding assms(4) by simp
  then have "offset \<le> 500" using assms(3) by auto
  then have "parse_ietf_bulletin now (bulletin_text expiry es) = Inr (int offset)"
    unfolding parse_ietf_bulletin_def loop by simp
  moreover have "stoll (dec_nat expiry) = Inr (int expiry)" using assms(2) by (simp add: stoll_def stol_range_dec_nat)
  moreover have "expiry_line (getlines (CHR 0x0A) (bulletin_text expiry es)) = Some (dec_nat expiry)"
    unfolding lines expiry_line.simps expiration_line by simp
  ultimately show ?thesis using assms(1) by (simp add: bulletin_state_def BulletinState_init_def Let_def)
qed



subsection \<open>Choosing a bulletin\<close>

definition downloads :: "tai_env \<Rightarrow> string list \<Rightarrow> Bulletin list" where
  "downloads env urls = concat (map (\<lambda>url. case download_from_url (te_curl env) url of Inl _ \<Rightarrow> [] | Inr b \<Rightarrow> [b]) urls)"

text \<open>The bulletins among which the clock chooses: its own, the one in the cache and those that can be downloaded.\<close>

definition tai_candidates :: "tai_env \<Rightarrow> cache \<Rightarrow> ClockTAI \<Rightarrow> Bulletin list" where
  "tai_candidates env fl c =
     [ct_bulletin c, load_from_file (te_load env) fl tai_cache_location] @ downloads env (ct_bulletin_urls c)"

lemma download_error: "download_from_url curl url = Inl e \<Longrightarrow> e = RuntimeError"
  by (auto simp: download_from_url_def split: curl_result.splits)

lemma download_text: "download_from_url curl url = Inr b \<Longrightarrow> \<exists>t. bl_data b = BulletinText t"
  by (auto simp: download_from_url_def split: curl_result.splits)

lemma url_loop_cases:
  "case url_loop now env urls bs of
     Failed e \<Rightarrow> False
   | Usable b \<Rightarrow> b \<in> set (downloads env urls) \<and> usable now (bulletin_state now b) \<and> (\<exists>t. bl_data b = BulletinText t)
   | NotFound bs' \<Rightarrow> bs' = bs @ downloads env urls"
proof (induction urls arbitrary: bs)
  case (Cons url urls)
  show ?case
  proof (cases "download_from_url (te_curl env) url")
    case (Inl e)
    then have "downloads env (url # urls) = downloads env urls" by (simp add: downloads_def)
    then show ?thesis using Cons [of bs] download_error [OF Inl] Inl
      by (cases "url_loop now env urls bs") simp_all
  next
    case (Inr b)
    then show ?thesis
      using Cons [of "bs @ [b]"] download_text [OF Inr] by (auto simp: downloads_def split: url_result.splits)
  qed
qed (simp add: downloads_def)

lemma find_sorted:
  assumes "find P (sort_key f xs) = Some b"
  shows "b \<in> set xs \<and> P b \<and> (\<forall>x \<in> set xs. P x \<longrightarrow> f b \<le> (f x :: int))"
proof -
  let ?ys = "sort_key f xs"
  obtain i where i: "i < length ?ys" "P (?ys ! i)" "b = ?ys ! i" "\<forall>j < i. \<not> P (?ys ! j)"
    using assms by (auto simp: find_Some_iff)
  have "f b \<le> f x" if "x \<in> set xs" "P x" for x
  proof -
    have "x \<in> set ?ys" using that(1) by simp
    then obtain j where j: "j < length ?ys" "?ys ! j = x" unfolding in_set_conv_nth by blast
    then have "i \<le> j" using i(4) that(2) not_le [of i j] by metis
    then have "map f ?ys ! i \<le> map f ?ys ! j" using j(1) by (intro sorted_nth_mono) simp_all
    then show ?thesis using i(1,3) j by simp
  qed
  moreover have "b \<in> set ?ys" using i(1) unfolding i(3) by (rule nth_mem)
  ultimately show ?thesis using i(2,3) by simp
qed

lemma get_valid_offset_cases:
  obtains (ok) s fl' c' where "get_valid_offset now env fl c = (Inr (Some s), fl', c')"
      "s = bulletin_state now (ct_bulletin c')" "bs_valid s" "ct_bulletin c' \<in> set (tai_candidates env fl c)"
      "c' = c\<lparr>ct_bulletin := ct_bulletin c'\<rparr>"
      "usable now s \<or> (\<forall>b \<in> set (tai_candidates env fl c). bs_valid (bulletin_state now b)
          \<longrightarrow> bs_expires_at (bulletin_state now b) \<le> bs_expires_at s)"
    | (failed) "get_valid_offset now env fl c = (Inr None, fl, c)"
      "\<forall>b \<in> set (tai_candidates env fl c). \<not> bs_valid (bulletin_state now b)"
proof -
  let ?own = "ct_bulletin c" and ?cached = "load_from_file (te_load env) fl tai_cache_location"
  note d = get_valid_offset_def [of now env fl c] Let_def
  show thesis
  proof (cases "usable now (bulletin_state now ?own)")
    case True
    then show thesis by (intro ok [of "bulletin_state now ?own" fl c]) (auto simp: d usable_def tai_candidates_def)
  next
    case own: False
    show thesis
    proof (cases "usable now (bulletin_state now ?cached)")
      case True
      then show thesis
        using own by (intro ok [of "bulletin_state now ?cached" fl "c\<lparr>ct_bulletin := ?cached\<rparr>"])
          (auto simp: d usable_def tai_candidates_def)
    next
      case False
      show thesis
      proof (cases "url_loop now env (ct_bulletin_urls c) [?own, ?cached]")
        case (Usable b)
        then have b: "b \<in> set (downloads env (ct_bulletin_urls c))" "usable now (bulletin_state now b)"
            "\<exists>t. bl_data b = BulletinText t"
          using url_loop_cases [where urls = "ct_bulletin_urls c" and bs = "[?own, ?cached]" and now = now and env = env] by auto
        then obtain fl' where "store_to_cache (te_store env) fl b = Inr fl'"
          by (cases "fe_open (te_store env)"; cases "fe_lock (te_store env)") (auto simp: store_to_cache_def Let_def)
        then show thesis
          using own False Usable b by (intro ok [of "bulletin_state now b" fl' "c\<lparr>ct_bulletin := b\<rparr>"])
            (auto simp: d usable_def tai_candidates_def)
      next
        case (NotFound bs)
        then have bs: "bs = tai_candidates env fl c"
          using url_loop_cases [where urls = "ct_bulletin_urls c" and bs = "[?own, ?cached]" and now = now and env = env] by (simp add: tai_candidates_def)
        let ?valid = "\<lambda>b. bs_valid (bulletin_state now b)"
        show thesis
        proof (cases "find ?valid (sort_bulletins now bs)")
          case None
          then have "\<forall>b \<in> set (tai_candidates env fl c). \<not> ?valid b" using bs by (auto simp: find_None_iff sort_bulletins_def)
          moreover have "get_valid_offset now env fl c = (Inr None, fl, c)" using own False NotFound None by (simp add: d)
          ultimately show thesis by (intro failed)
        next
          case (Some b)
          then show thesis
            using own False NotFound bs find_sorted [OF Some [unfolded sort_bulletins_def]]
            by (intro ok [of "bulletin_state now b" fl "c\<lparr>ct_bulletin := b\<rparr>"]) (auto simp: d sort_bulletins_def)
        qed
      next
        case (Failed e)
        then show thesis using url_loop_cases [where urls = "ct_bulletin_urls c" and bs = "[?own, ?cached]" and now = now and env = env] by simp
      qed
    qed
  qed
qed



subsection \<open>The clock in use\<close>

text \<open>The states the clock goes through: calls of \<open>get_offset\<close> and ends of the background task, with anything in the cache file and
  on the network.\<close>

inductive tai_reach :: "ClockTAI \<Rightarrow> bool" where
  start: "tai_reach (ClockTAI_init urls)"
| get: "tai_reach c \<Longrightarrow> get_offset now time_now env fl c = (r, fl', c') \<Longrightarrow> tai_reach c'"
| finish: "tai_reach c \<Longrightarrow> async_finish now env fl c = (fl', c') \<Longrightarrow> tai_reach c'"

definition good_state :: "BulletinState \<Rightarrow> bool" where
  "good_state s \<longleftrightarrow> bs_valid s \<and> 0 \<le> bs_offset s \<and> bs_offset s \<le> 500"

definition tai_inv :: "ClockTAI \<Rightarrow> bool" where
  "tai_inv c \<longleftrightarrow> (\<exists>t. bl_data (ct_bulletin c) = BulletinText t) \<and> (\<forall>s. ct_state c = Some s \<longrightarrow> good_state s)
     \<and> (\<forall>r. ct_offset_future c = Ready r \<longrightarrow> (\<exists>x. r = Inr x \<and> (\<forall>s. x = Some s \<longrightarrow> good_state s)))"

lemma text_state_good: "bl_data b = BulletinText t \<Longrightarrow> bs_valid (bulletin_state now b) \<Longrightarrow> good_state (bulletin_state now b)"
  by (auto simp: bulletin_state_def BulletinState_init_def parse_ietf_bulletin_def good_state_def Let_def
      split: option.splits sum.splits if_splits)

lemma candidates_text:
  "b \<in> set (tai_candidates env fl c) \<Longrightarrow> b = ct_bulletin c \<or> (\<exists>t. bl_data b = BulletinText t)"
  by (auto simp: tai_candidates_def downloads_def load_from_file_def Let_def
      split: sum.splits option.splits dest!: download_text [OF sym])

lemma get_valid_offset_inv:
  assumes "tai_inv c" "get_valid_offset now env fl c = (r, fl', c')"
  shows "tai_inv c'" "\<exists>x. r = Inr x \<and> (\<forall>s. x = Some s \<longrightarrow> good_state s)" "ct_state c' = ct_state c"
    "ct_offset_future c' = ct_offset_future c"
    "r = Inr None \<Longrightarrow> \<forall>b \<in> set (tai_candidates env fl c). \<not> bs_valid (bulletin_state now b)"
proof -
  have "tai_inv c' \<and> (\<exists>x. r = Inr x \<and> (\<forall>s. x = Some s \<longrightarrow> good_state s)) \<and> ct_state c' = ct_state c
    \<and> ct_offset_future c' = ct_offset_future c
    \<and> (r = Inr None \<longrightarrow> (\<forall>b \<in> set (tai_candidates env fl c). \<not> bs_valid (bulletin_state now b)))"
  proof (cases rule: get_valid_offset_cases [of now env fl c, case_names ok failed])
    case (ok s f c1)
    obtain t where t: "bl_data (ct_bulletin c1) = BulletinText t"
      using candidates_text [OF ok(4)] assms(1) by (auto simp: tai_inv_def)
    then have "good_state s" using text_state_good [OF t] ok(2,3) by simp
    moreover have "ct_state c1 = ct_state c" "ct_offset_future c1 = ct_offset_future c" by (subst ok(5), simp)+
    ultimately show ?thesis using ok(1) assms t by (auto simp: tai_inv_def)
  next
    case failed
    then show ?thesis using assms by auto
  qed
  then show "tai_inv c'" "\<exists>x. r = Inr x \<and> (\<forall>s. x = Some s \<longrightarrow> good_state s)" "ct_state c' = ct_state c"
    "ct_offset_future c' = ct_offset_future c"
    "r = Inr None \<Longrightarrow> \<forall>b \<in> set (tai_candidates env fl c). \<not> bs_valid (bulletin_state now b)" by blast+
qed

lemma offset_first_cases:
  assumes "tai_inv c" "offset_first now time_now env fl c = (e, fl', c')"
  shows "tai_inv c'" "e = None \<Longrightarrow> ct_state c' \<noteq> None"
    "e \<noteq> None \<Longrightarrow> e = Some RuntimeError \<and> ct_state c = None
       \<and> (\<forall>b \<in> set (tai_candidates env fl c). \<not> bs_valid (bulletin_state now b))"
proof -
  obtain r f c1 where g: "get_valid_offset now env fl c = (r, f, c1)" by (metis prod_cases3)
  note i = get_valid_offset_inv [OF assms(1) g]
  obtain x where x: "r = Inr x" "\<And>s. x = Some s \<Longrightarrow> good_state s" using i(2) by blast
  show "tai_inv c'" "e = None \<Longrightarrow> ct_state c' \<noteq> None"
    "e \<noteq> None \<Longrightarrow> e = Some RuntimeError \<and> ct_state c = None
       \<and> (\<forall>b \<in> set (tai_candidates env fl c). \<not> bs_valid (bulletin_state now b))"
    using assms i(1,5) x by (auto simp: offset_first_def g tai_inv_def split: option.splits)
qed

lemma offset_refresh_cases:
  assumes "tai_inv c" "offset_refresh time_now c = (e, c')" "ct_state c \<noteq> None"
  shows "tai_inv c'" "e = None" "ct_state c' \<noteq> None"
proof -
  consider (stay) "e = None" "c' = c" | (start) "e = None" "c' = c\<lparr>ct_offset_future := Running\<rparr>"
    | (ready) x where "ct_offset_future c = Ready (Inr x)" "\<And>s. x = Some s \<Longrightarrow> good_state s"
        "ct_state_last_updated c + hour_ns < time_now"
    using assms(1,2) by (auto simp: offset_refresh_def tai_inv_def split: if_splits offset_future.splits)
  then have "tai_inv c' \<and> e = None \<and> ct_state c' \<noteq> None"
  proof cases
    case (ready x)
    then show ?thesis using assms by (cases x) (auto simp: offset_refresh_def tai_inv_def)
  qed (use assms in \<open>auto simp: tai_inv_def\<close>)
  then show "tai_inv c'" "e = None" "ct_state c' \<noteq> None" by blast+
qed

lemma get_offset_cases:
  assumes "tai_inv c" "get_offset now time_now env fl c = (r, fl', c')"
  shows "tai_inv c'"
    "case r of Inl e \<Rightarrow> e = RuntimeError \<and> ct_state c = None \<and> (\<forall>b \<in> set (tai_candidates env fl c). \<not> bs_valid (bulletin_state now b))
       | Inr offset \<Rightarrow> 0 \<le> offset \<and> offset \<le> 500 \<and> ct_state c' \<noteq> None"
proof -
  obtain e f c1 where g: "offset_first now time_now env fl c = (e, f, c1)" by (metis prod_cases3)
  note i = offset_first_cases [OF assms(1) g]
  have "tai_inv c' \<and> (case r of Inl e \<Rightarrow> e = RuntimeError \<and> ct_state c = None \<and> (\<forall>b \<in> set (tai_candidates env fl c). \<not> bs_valid (bulletin_state now b))
       | Inr offset \<Rightarrow> 0 \<le> offset \<and> offset \<le> 500 \<and> ct_state c' \<noteq> None)"
  proof (cases e)
    case None
    obtain e2 c2 where h: "offset_refresh time_now c1 = (e2, c2)" by (metis surj_pair)
    note j = offset_refresh_cases [OF i(1) h i(2) [OF None]]
    obtain s where "ct_state c2 = Some s" using j(3) by blast
    then show ?thesis using assms(2) g h None j(1,2) by (auto simp: get_offset_def tai_inv_def good_state_def)
  next
    case (Some x)
    then show ?thesis using assms(2) g i by (auto simp: get_offset_def)
  qed
  then show "tai_inv c'"
    "case r of Inl e \<Rightarrow> e = RuntimeError \<and> ct_state c = None \<and> (\<forall>b \<in> set (tai_candidates env fl c). \<not> bs_valid (bulletin_state now b))
       | Inr offset \<Rightarrow> 0 \<le> offset \<and> offset \<le> 500 \<and> ct_state c' \<noteq> None" by blast+
qed

subsection \<open>The clock as its users see it\<close>

text \<open>
  What the EDI output relies on: once the offset is known, asking for it always gives one, and it stays known. \<open>f\<close> is the cache file.
\<close>

locale offset_clock =
  fixes inv :: "'c \<Rightarrow> bool"
    and known :: "'c \<Rightarrow> bool"
    and get :: "'e \<Rightarrow> 'f \<Rightarrow> 'c \<Rightarrow> (exn + int) \<times> 'f \<times> 'c"
  assumes get_inv: "inv c \<Longrightarrow> get e f c = (r, f', c') \<Longrightarrow> inv c'"
    and get_fails: "inv c \<Longrightarrow> get e f c = (Inl x, f', c') \<Longrightarrow> \<not> known c"
    and get_gives: "inv c \<Longrightarrow> get e f c = (Inr off, f', c') \<Longrightarrow> known c' \<and> 0 \<le> off \<and> off \<le> 500"
begin

lemma get_known:
  assumes "inv c" "known c"
  obtains off f' c' where "get e f c = (Inr off, f', c')" "inv c'" "known c'" "0 \<le> off" "off \<le> 500"
proof -
  obtain r f' c' where g: "get e f c = (r, f', c')" by (metis prod_cases3)
  then obtain off where "r = Inr off" using get_fails [OF assms(1), of e f] assms(2) by (cases r) blast+
  then show thesis using that g get_inv [OF assms(1)] get_gives [OF assms(1)] by metis
qed

end

interpretation tai: offset_clock tai_inv "\<lambda>c. ct_state c \<noteq> None" "\<lambda>(now, time_now, env) fl c. get_offset now time_now env fl c"
proof (unfold_locales, goal_cases)
  case (1 c e f r f' c')
  then show ?case using get_offset_cases(1) by (cases e) auto
next
  case (2 c e f x f' c')
  then show ?case using get_offset_cases(2) [of c] by (cases e) fastforce
next
  case (3 c e f off f' c')
  then show ?case using get_offset_cases(2) [of c] by (cases e) fastforce
qed

lemma async_finish_inv:
  assumes "tai_inv c" "async_finish now env fl c = (fl', c')"
  shows "tai_inv c'"
proof (cases "ct_offset_future c = Running")
  case True
  obtain r f c1 where g: "get_valid_offset now env fl c = (r, f, c1)" by (metis prod_cases3)
  note i = get_valid_offset_inv(1,2) [OF assms(1) g]
  have "c' = c1\<lparr>ct_offset_future := Ready r\<rparr>" using assms(2) True g by (simp add: async_finish_def)
  then show ?thesis using i by (simp add: tai_inv_def)
next
  case False
  then have "c' = c" using assms(2) by (simp add: async_finish_def split: offset_future.splits)
  then show ?thesis using assms(1) by simp
qed

lemma tai_reach_inv: "tai_reach c \<Longrightarrow> tai_inv c"
proof (induction rule: tai_reach.induct)
  case (start urls)
  then show ?case by (simp add: tai_inv_def ClockTAI_init_def Bulletin_init_def)
next
  case (get c now time_now env fl r fl' c')
  then show ?case using get_offset_cases(1) by blast
next
  case (finish c now env fl fl' c')
  then show ?case using async_finish_inv by blast
qed

text \<open>C21: the clock is reliable. In every state it can get into, asking for the offset either gives one between 0 and 500, or fails
  with the announced \<open>runtime_error\<close>; that only happens before the first success and when there is no
  valid bulletin anywhere. A success is kept.\<close>

theorem tai_offset_safe:
  assumes "tai_reach c"
  shows "case get_offset now time_now env fl c of
     (Inl e, _, c') \<Rightarrow> e = RuntimeError \<and> ct_state c = None
       \<and> list_all (\<lambda>b. \<not> bs_valid (bulletin_state now b)) (tai_candidates env fl c)
   | (Inr offset, _, c') \<Rightarrow> 0 \<le> offset \<and> offset \<le> 500 \<and> ct_state c' \<noteq> None"
proof -
  obtain r f c' where g: "get_offset now time_now env fl c = (r, f, c')" by (metis prod_cases3)
  then show ?thesis using get_offset_cases(2) [OF tai_reach_inv [OF assms] g] by (auto simp: list_all_iff split: sum.splits)
qed

theorem tai_offset_safe_witness:
  "\<exists>f c'. get_offset 5 7 \<lparr>te_load = \<lparr>fe_open = True, fe_lock = True, fe_io = []\<rparr>, te_store = \<lparr>fe_open = True, fe_lock = True, fe_io = []\<rparr>,
      te_curl = \<lambda>_. CurlError\<rparr> None (ClockTAI_init []) = (Inl RuntimeError, f, c')"
proof -
  let ?env = "\<lparr>te_load = \<lparr>fe_open = True, fe_lock = True, fe_io = []\<rparr>, te_store = \<lparr>fe_open = True, fe_lock = True, fe_io = []\<rparr>,
      te_curl = \<lambda>_. CurlError\<rparr>"
  have v: "bulletin_state 5 Bulletin_init = BulletinState_init"
    "bulletin_state 5 (load_from_file (te_load ?env) None tai_cache_location) = BulletinState_init"
    by (simp_all add: bulletin_state_def Bulletin_init_def load_from_file_def Let_def)
  have s: "sort_bulletins 5 [Bulletin_init, load_from_file (te_load ?env) None tai_cache_location]
      = [Bulletin_init, load_from_file (te_load ?env) None tai_cache_location]"
    using v by (simp add: sort_bulletins_def)
  have "get_valid_offset 5 ?env None (ClockTAI_init []) = (Inr None, None, ClockTAI_init [])"
    unfolding get_valid_offset_def using v s
    by (simp add: Let_def ClockTAI_init_def usable_def BulletinState_init_def default_tai_urls_def download_from_url_def)
  then have "\<exists>e f c'. get_offset 5 7 ?env None (ClockTAI_init []) = (Inl e, f, c')"
    by (simp add: get_offset_def offset_first_def ClockTAI_init_def)
  then show ?thesis using tai_offset_safe [OF tai_reach.start [of "[]"], where now = 5 and time_now = 7 and env = ?env and fl = None] by auto
qed

end
