(* ===== verification/Outputs.thy ===== *)
theory Outputs
  imports Transport ClockTAI
begin

text \<open>
  Model of \<open>src/Outputs.h\<close>, \<open>src/Outputs.cpp\<close> and \<open>src/encryption.c\<close>: the outputs of the program. The file and ZeroMQ outputs
  record what they hand over; the answers of the C library and of ZeroMQ are arguments. The EDI
  output builds a TAG packet for every 24 ms and gives it to the sender. The header of a ZeroMQ frame has the
  byte order of a little-endian machine. Times are in nanoseconds. Prints are left out.
\<close>

unbundle bit_operations_syntax

subsection \<open>The base class and the file output\<close>

text \<open>The audio levels are \<open>int16_t\<close>, held by their 16-bit patterns.\<close>

record Output_Base =
  ob_audio_left :: u16
  ob_audio_right :: u16

definition update_audio_levels :: "'z Output_Base_scheme \<Rightarrow> u16 \<Rightarrow> u16 \<Rightarrow> 'z Output_Base_scheme" where
  "update_audio_levels b audiolevel_left audiolevel_right =
     b\<lparr>ob_audio_left := audiolevel_left, ob_audio_right := audiolevel_right\<rparr>"

text \<open>The stream of a file is what has been written to it; \<open>None\<close> is a closed file.\<close>

record Output_File = Output_Base +
  fo_fd :: "bytes option"

definition File_init :: "bool \<Rightarrow> exn + Output_File" where
  "File_init opened =
     (if opened then Inr \<lparr>ob_audio_left = 0, ob_audio_right = 0, fo_fd = Some []\<rparr> else Inl RuntimeError)"

definition File_of :: "bytes option \<Rightarrow> Output_File" where
  "File_of fd = \<lparr>ob_audio_left = 0, ob_audio_right = 0, fo_fd = fd\<rparr>"

definition File_destroy :: "Output_File \<Rightarrow> Output_File" where
  "File_destroy f = f\<lparr>fo_fd := None\<rparr>"

text \<open>\<open>written\<close> is how many bytes \<open>fwrite\<close> manages to write; it returns 1 only for a whole, non-empty block.\<close>

definition File_write_frame :: "Output_File \<Rightarrow> nat \<Rightarrow> bytes \<Rightarrow> exn + bool \<times> Output_File" where
  "File_write_frame f written buf =
     (case fo_fd f of
        None \<Rightarrow> Inl LogicError
      | Some content \<Rightarrow>
          Inr (buf \<noteq> [] \<and> length buf \<le> written, f\<lparr>fo_fd := Some (content @ take written buf)\<rparr>))"

subsection \<open>The ZeroMQ output\<close>

datatype codec_selection_t = dabplus | mpeg_layer_2

definition CURVE_KEYLEN :: nat where "CURVE_KEYLEN = 40"

text \<open>\<open>readkey\<close>: whether the file can be opened, what \<open>read\<close> gives (\<open>None\<close> is an error), and the buffer of \<open>CURVE_KEYLEN + 1\<close> characters.
  The result is whether it succeeded.\<close>

definition readkey :: "bool \<Rightarrow> bytes option \<Rightarrow> bytes \<Rightarrow> bool \<times> bytes" where
  "readkey opened content key =
     (if \<not> opened then (False, key)
      else (case content of
              None \<Rightarrow> (False, key)
            | Some bs \<Rightarrow>
                (let got = take CURVE_KEYLEN bs
                 in (True, (got @ drop (length got) key)[CURVE_KEYLEN := 0]))))"

definition ZMQ_ENCODER_AACPLUS :: u16 where "ZMQ_ENCODER_AACPLUS = 1"
definition ZMQ_ENCODER_MPEG_L2 :: u16 where "ZMQ_ENCODER_MPEG_L2 = 2"

record zmq_frame_header_t =
  zh_version :: u16
  zh_encoder :: u16
  zh_datasize :: u32
  zh_audiolevel_left :: u16
  zh_audiolevel_right :: u16

definition le16 :: "u16 \<Rightarrow> bytes" where
  "le16 x = [ucast x, ucast (drop_bit 8 x)]"

definition le32 :: "u32 \<Rightarrow> bytes" where
  "le32 x = [ucast x, ucast (drop_bit 8 x), ucast (drop_bit 16 x), ucast (drop_bit 24 x)]"

definition zmq_header_bytes :: "zmq_frame_header_t \<Rightarrow> bytes" where
  "zmq_header_bytes h = le16 (zh_version h) @ le16 (zh_encoder h) @ le32 (zh_datasize h)
     @ le16 (zh_audiolevel_left h) @ le16 (zh_audiolevel_right h)"

definition ZMQ_HEADER_SIZE :: nat where "ZMQ_HEADER_SIZE = 12"

text \<open>The socket is its curve key, if encryption is enabled, the endpoints it is connected to, and the messages it has accepted.\<close>

record Output_ZMQ = Output_Base +
  zo_bitrate :: int
  zo_secretkey :: bytes
  zo_encoder :: codec_selection_t
  zo_framebuf :: bytes
  zo_curve :: "bytes option"
  zo_endpoints :: "string list"
  zo_sent :: "bytes list"

text \<open>\<open>key\<close> is what the uninitialised buffer contains.\<close>

definition ZMQ_init :: "bytes \<Rightarrow> Output_ZMQ" where
  "ZMQ_init key = \<lparr>ob_audio_left = 0, ob_audio_right = 0, zo_bitrate = 0, zo_secretkey = key, zo_encoder = dabplus,
     zo_framebuf = [], zo_curve = None, zo_endpoints = [], zo_sent = []\<rparr>"

text \<open>\<open>curve_ok\<close> and \<open>connect_ok\<close>: whether ZeroMQ accepts the options and the endpoint; if not, it throws.\<close>

definition ZMQ_connect ::
  "Output_ZMQ \<Rightarrow> string \<Rightarrow> (bool \<times> bytes option) option \<Rightarrow> bool \<Rightarrow> bool \<Rightarrow> exn option \<times> Output_ZMQ" where
  "ZMQ_connect z uri keyfile curve_ok connect_ok =
     (case (case keyfile of
              None \<Rightarrow> (None, z)
            | Some (opened, content) \<Rightarrow>
                (let (ok, key) = readkey opened content (zo_secretkey z); z1 = z\<lparr>zo_secretkey := key\<rparr>
                 in if \<not> ok then (Some RuntimeError, z1)
                    else if \<not> curve_ok then (Some ZmqError, z1)
                    else (None, z1\<lparr>zo_curve := Some (take CURVE_KEYLEN key)\<rparr>))) of
        (Some e, z2) \<Rightarrow> (Some e, z2)
      | (None, z2) \<Rightarrow>
          if connect_ok then (None, z2\<lparr>zo_endpoints := zo_endpoints z2 @ [uri]\<rparr>) else (Some ZmqError, z2))"

definition ZMQ_set_encoder_type :: "Output_ZMQ \<Rightarrow> codec_selection_t \<Rightarrow> int \<Rightarrow> Output_ZMQ" where
  "ZMQ_set_encoder_type z enc bitrate = z\<lparr>zo_encoder := enc, zo_bitrate := bitrate\<rparr>"

text \<open>What \<open>send\<close> does: it takes the message, it would have to wait, or it throws.\<close>

datatype zmq_answer = ZmqSent | ZmqAgain | ZmqThrows

definition ZMQ_write_frame :: "Output_ZMQ \<Rightarrow> zmq_answer \<Rightarrow> bytes \<Rightarrow> exn + bool \<times> Output_ZMQ" where
  "ZMQ_write_frame z answer buf =
     (let n = ZMQ_HEADER_SIZE + length buf;
          framebuf = take n (zo_framebuf z) @ replicate (n - length (zo_framebuf z)) 0;
          h = \<lparr>zh_version = 1,
               zh_encoder = (case zo_encoder z of dabplus \<Rightarrow> ZMQ_ENCODER_AACPLUS | mpeg_layer_2 \<Rightarrow> ZMQ_ENCODER_MPEG_L2),
               zh_datasize = of_nat (length buf),
               zh_audiolevel_left = ob_audio_left z, zh_audiolevel_right = ob_audio_right z\<rparr>;
          frame_size = ZMQ_HEADER_SIZE + unat (zh_datasize h);
          framebuf1 = zmq_header_bytes h @ drop ZMQ_HEADER_SIZE framebuf
      in if \<not> frame_size \<le> length framebuf1 then Inl AssertFailed
         else
           (let framebuf2 = take ZMQ_HEADER_SIZE framebuf1 @ buf @ drop (ZMQ_HEADER_SIZE + length buf) framebuf1;
                z1 = z\<lparr>zo_framebuf := framebuf2\<rparr>
            in case answer of
                 ZmqSent \<Rightarrow> Inr (True, z1\<lparr>zo_sent := zo_sent z @ [take frame_size framebuf2]\<rparr>)
               | ZmqAgain \<Rightarrow> Inr (True, z1)
               | ZmqThrows \<Rightarrow> Inr (False, z1)))"

subsection \<open>The EDI output\<close>

text \<open>Members as their initialisers leave them; \<open>rfad\<close> has none and is never sent.\<close>

definition TagDSTI_init :: TagDSTI where
  "TagDSTI_init = \<lparr>dsti_stihf = False, dsti_atstf = False, dsti_rfadf = False, dsti_dlfc = 0, dsti_stat = 0, dsti_spid = 0,
     dsti_utco = 0, dsti_seconds = 0, dsti_tsta = 0xFFFFFF, dsti_rfad = replicate 9 0\<rparr>"

definition TagSSm_init :: "bytes \<Rightarrow> TagSSm" where
  "TagSSm_init buf = \<lparr>ss_rfa = 0, ss_tid = 0, ss_tidext = 0, ss_crcstf = False, ss_stid = 0, ss_istd_data = buf,
     ss_istd_length = length buf, ss_id = 1\<rparr>"

record Output_EDI = Output_Base +
  eo_odr_version_tag :: string
  eo_edi_conf :: configuration_t
  eo_edi_sender :: "Sender option"
  eo_timestamp :: u32
  eo_num_frames_sent :: u32
  eo_edi_time :: int
  eo_time_last_version_sent :: int
  eo_edi_tagDSTI :: TagDSTI
  eo_clock_tai :: ClockTAI
  eo_tist :: bool
  eo_delay_ms :: u32

definition EDI_init :: "int \<Rightarrow> Output_EDI" where
  "EDI_init now = \<lparr>ob_audio_left = 0, ob_audio_right = 0, eo_odr_version_tag = '''', eo_edi_conf = configuration_default,
     eo_edi_sender = None, eo_timestamp = 0, eo_num_frames_sent = 0, eo_edi_time = 0, eo_time_last_version_sent = now,
     eo_edi_tagDSTI = TagDSTI_init, eo_clock_tai = ClockTAI_init [], eo_tist = False, eo_delay_ms = 0\<rparr>"

definition set_odr_version_tag :: "Output_EDI \<Rightarrow> string \<Rightarrow> Output_EDI" where
  "set_odr_version_tag e odr_version_tag = e\<lparr>eo_odr_version_tag := odr_version_tag\<rparr>"

text \<open>The destructor destroys the sender, if there is one.\<close>

definition EDI_destroy :: "Output_EDI \<Rightarrow> fdtable \<Rightarrow> fdtable" where
  "EDI_destroy e fds = (case eo_edi_sender e of None \<Rightarrow> fds | Some s \<Rightarrow> snd (Sender_destroy s fds))"

text \<open>Ports are \<open>unsigned int\<close>.\<close>

definition add_udp_destination :: "Output_EDI \<Rightarrow> string \<Rightarrow> u32 \<Rightarrow> Output_EDI" where
  "add_udp_destination e host port =
     (let dest = \<lparr>ud_dest_addr = host, ud_dest_port = uint port, ud_source_addr = '''', ud_source_port = 0, ud_ttl = 10\<rparr>;
          c = eo_edi_conf e
      in e\<lparr>eo_edi_conf := c\<lparr>cf_destinations := cf_destinations c @ [UdpDestination dest], cf_enable_pft := True\<rparr>\<rparr>)"

definition add_tcp_destination :: "Output_EDI \<Rightarrow> string \<Rightarrow> u32 \<Rightarrow> exn + Output_EDI" where
  "add_tcp_destination e host port =
     (let dest = \<lparr>tct_dest_addr = host, tct_dest_port = 0, tct_max_frames_queued = 1024\<rparr>;
          c = eo_edi_conf e
      in if tct_dest_port dest \<noteq> 0 \<and> tct_dest_port dest \<noteq> uint port then Inl RuntimeError
         else Inr (e\<lparr>eo_edi_conf := c\<lparr>cf_destinations := cf_destinations c @ [TcpClient (dest\<lparr>tct_dest_port := uint port\<rparr>)],
                       cf_dump := False\<rparr>\<rparr>))"

definition set_fec :: "Output_EDI \<Rightarrow> int \<Rightarrow> Output_EDI" where
  "set_fec e fec = e\<lparr>eo_edi_conf := (eo_edi_conf e)\<lparr>cf_enable_pft := True, cf_fec := word_of_int fec\<rparr>\<rparr>"

definition EDI_enabled :: "Output_EDI \<Rightarrow> bool" where
  "EDI_enabled e \<longleftrightarrow> cf_destinations (eo_edi_conf e) \<noteq> []"

definition set_tist :: "Output_EDI \<Rightarrow> bool \<Rightarrow> u32 \<Rightarrow> int \<Rightarrow> exn option \<times> Output_EDI" where
  "set_tist e enable delay_ms ts =
     (let e1 = e\<lparr>eo_tist := enable, eo_delay_ms := delay_ms\<rparr>;
          ts_with_delay = ts + uint (eo_delay_ms e1) * 1000000;
          ts_s = cdiv ts_with_delay 1000000000;
          remainder = ts_with_delay - ts_s * 1000000000
      in if remainder < 0 then (Some LogicError, e1)
         else
           (let remainder_ms = (word_of_int (remainder div 1000000) :: u32)
            in (None, e1\<lparr>eo_edi_time := ts_s, eo_timestamp := eo_timestamp e1 + push_bit 14 remainder_ms\<rparr>)))"

text \<open>The parts of \<open>write_frame\<close>: the \<open>dsti\<close> item and the TAG packet.\<close>

definition edi_tagDSTI :: "Output_EDI \<Rightarrow> int \<Rightarrow> TagDSTI" where
  "edi_tagDSTI e tai_offset =
     (TagDSTI_set_edi_time ((eo_edi_tagDSTI e)\<lparr>dsti_stihf := False, dsti_atstf := eo_tist e\<rparr>) (eo_edi_time e) tai_offset)
       \<lparr>dsti_tsta := eo_timestamp e AND 0xffffff, dsti_rfadf := False\<rparr>"

definition num_seconds_sent :: "Output_EDI \<Rightarrow> u32" where
  "num_seconds_sent e = eo_num_frames_sent e * 1000 div 24"

definition version_due :: "Output_EDI \<Rightarrow> int \<Rightarrow> bool" where
  "version_due e now \<longleftrightarrow> eo_time_last_version_sent e + 10 * 1000000000 < now"

definition edi_tagpacket :: "Output_EDI \<Rightarrow> int \<Rightarrow> int \<Rightarrow> bytes \<Rightarrow> TagPacket" where
  "edi_tagpacket e tai_offset now buf =
     (TagPacket_init (cf_tagpacket_alignment (eo_edi_conf e)))\<lparr>tp_tag_items :=
        [StarPTR ''DSTI'', DSTI (edi_tagDSTI e tai_offset), SSm (TagSSm_init buf),
         ODRAudioLevels \<lparr>odra_left = ob_audio_left e, odra_right = ob_audio_right e\<rparr>]
        @ (if version_due e now
           then [ODRVersion \<lparr>odrv_version = eo_odr_version_tag e, odrv_uptime = num_seconds_sent e\<rparr>] else [])\<rparr>"

text \<open>The \<open>dsti\<close> item is a member that the packet points to: assembling the packet advances its frame counter.\<close>

definition dsti_of :: "TagPacket \<Rightarrow> TagDSTI \<Rightarrow> TagDSTI" where
  "dsti_of p d = (case tp_tag_items p of _ # DSTI d' # _ \<Rightarrow> d' | _ \<Rightarrow> d)"

text \<open>What the system answers during one \<open>write_frame\<close>: while the sockets are set up (the first time), the clocks, the search
  for a bulletin, and the sockets.\<close>

record edi_env =
  ee_setup :: "setup_env list"
  ee_time :: int
  ee_steady :: int
  ee_tai :: tai_env
  ee_send :: "send_env list"

definition EDI_write_frame ::
  "edi_env \<Rightarrow> Output_EDI \<Rightarrow> bytes \<Rightarrow> cache \<Rightarrow> fdtable
    \<Rightarrow> (exn + bool) \<times> (InetAddress \<times> bytes) list \<times> Output_EDI \<times> cache \<times> fdtable" where
  "EDI_write_frame env e buf cache fds =
     (case (case eo_edi_sender e of
              Some s \<Rightarrow> (Inr s, fds)
            | None \<Rightarrow> Sender_init (eo_edi_conf e) (ee_setup env) fds) of
        (Inl x, fds1) \<Rightarrow> (Inl x, [], e, cache, fds1)
      | (Inr s, fds1) \<Rightarrow>
          (case get_offset (ee_time env) (ee_steady env) (ee_tai env) cache (eo_clock_tai e) of
             (Inl x, cache1, clk) \<Rightarrow> 
               (Inl x, [], e\<lparr>eo_edi_sender := Some s, eo_clock_tai := clk,
                  eo_edi_tagDSTI := (eo_edi_tagDSTI e)\<lparr>dsti_stihf := False, dsti_atstf := eo_tist e\<rparr>\<rparr>, cache1, fds1)
           | (Inr offset, cache1, clk) \<Rightarrow>
               (let e1 = e\<lparr>eo_edi_sender := Some s, eo_clock_tai := clk, eo_edi_tagDSTI := edi_tagDSTI e offset,
                      eo_time_last_version_sent := eo_time_last_version_sent e
                        + (if version_due e (ee_steady env) then 10 * 1000000000 else 0)\<rparr>
                in case write_tag s (ee_steady env) (ee_send env) (edi_tagpacket e offset (ee_steady env) buf) fds1 of
                     (x, out, s1, p1, fds2) \<Rightarrow>
                       (let e2 = e1\<lparr>eo_edi_sender := Some s1, eo_edi_tagDSTI := dsti_of p1 (eo_edi_tagDSTI e1)\<rparr>
                        in case x of
                             Some y \<Rightarrow> (Inl y, out, e2, cache1, fds2)
                           | None \<Rightarrow> (Inr True, out, e2\<lparr>eo_num_frames_sent := eo_num_frames_sent e2 + 1\<rparr>, cache1, fds2)))))"

subsection \<open>Reading a ZeroMQ frame\<close>

definition rdl16 :: "bytes \<Rightarrow> u16" where
  "rdl16 bs = ucast (bs ! 0) OR push_bit 8 (ucast (bs ! 1))"

definition rdl32 :: "bytes \<Rightarrow> u32" where
  "rdl32 bs = ucast (bs ! 0) OR push_bit 8 (ucast (bs ! 1)) OR push_bit 16 (ucast (bs ! 2)) OR push_bit 24 (ucast (bs ! 3))"

lemma length_le [simp]: "length (le16 x) = 2" "length (le32 y) = 4"
  by (simp_all add: le16_def le32_def)

lemma rdl_le [simp]: "rdl16 (le16 x @ rest) = x" "rdl32 (le32 y @ rest) = y"
proof -
  have "rdl16 (le16 x @ rest) = rd16 (be16 x @ [])" "rdl32 (le32 y @ rest) = rd32 (be32 y @ [])"
    by (simp_all add: rdl16_def le16_def rd16_def be16_def rdl32_def le32_def rd32_def be32_def ac_simps)
  then show "rdl16 (le16 x @ rest) = x" "rdl32 (le32 y @ rest) = y" by (simp_all only: be_simps)
qed

text \<open>The receiver: the header, then exactly the announced data.\<close>

definition zmq_parse :: "bytes \<Rightarrow> (zmq_frame_header_t \<times> bytes) option" where
  "zmq_parse m =
     (if length m < ZMQ_HEADER_SIZE then None
      else
        (let h = \<lparr>zh_version = rdl16 m, zh_encoder = rdl16 (drop 2 m), zh_datasize = rdl32 (drop 4 m),
                  zh_audiolevel_left = rdl16 (drop 8 m), zh_audiolevel_right = rdl16 (drop 10 m)\<rparr>
         in if length m = ZMQ_HEADER_SIZE + unat (zh_datasize h) then Some (h, drop ZMQ_HEADER_SIZE m) else None))"

lemma zmq_header_bytes_length [simp]: "length (zmq_header_bytes h) = 12"
  by (simp add: zmq_header_bytes_def)

lemma zmq_parse_frame:
  assumes "length buf < 2 ^ 32" "zh_datasize h = of_nat (length buf)"
  shows "zmq_parse (zmq_header_bytes h @ buf) = Some (h, buf)"
proof -
  have n: "unat (of_nat (length buf) :: u32) = length buf" using assms(1) by (intro unat_of_nat_id) simp
  have d: "drop 2 (zmq_header_bytes h @ buf) = le16 (zh_encoder h) @ le32 (zh_datasize h) @ le16 (zh_audiolevel_left h) @ le16 (zh_audiolevel_right h) @ buf"
    "drop 4 (zmq_header_bytes h @ buf) = le32 (zh_datasize h) @ le16 (zh_audiolevel_left h) @ le16 (zh_audiolevel_right h) @ buf"
    "drop 8 (zmq_header_bytes h @ buf) = le16 (zh_audiolevel_left h) @ le16 (zh_audiolevel_right h) @ buf"
    "drop 10 (zmq_header_bytes h @ buf) = le16 (zh_audiolevel_right h) @ buf"
    "zmq_header_bytes h @ buf = le16 (zh_version h) @ le16 (zh_encoder h) @ le32 (zh_datasize h) @ le16 (zh_audiolevel_left h) @ le16 (zh_audiolevel_right h) @ buf"
    by (simp_all add: zmq_header_bytes_def)
  have v: "rdl16 (zmq_header_bytes h @ buf) = zh_version h" unfolding d(5) by simp
  show ?thesis unfolding zmq_parse_def d(1-4) v using assms(2) n by (simp add: Let_def ZMQ_HEADER_SIZE_def)
qed

text \<open>C24: a frame of less than \<open>2^32\<close> bytes that ZeroMQ accepts reaches the receiver unchanged, whatever the previous frames left in
  the buffer, with version 1, the codec, the length and the current audio levels in its header.\<close>

theorem zmq_frame_roundtrip:
  assumes "length buf < 2 ^ 32"
  shows "\<exists>z' m. ZMQ_write_frame z ZmqSent buf = Inr (True, z') \<and> zo_sent z' = zo_sent z @ [m]
    \<and> zmq_parse m = Some (\<lparr>zh_version = 1, zh_encoder = (case zo_encoder z of dabplus \<Rightarrow> 1 | mpeg_layer_2 \<Rightarrow> 2),
         zh_datasize = of_nat (length buf), zh_audiolevel_left = ob_audio_left z, zh_audiolevel_right = ob_audio_right z\<rparr>, buf)"
proof -
  have n: "unat (of_nat (length buf) :: u32) = length buf" using assms by (intro unat_of_nat_id) simp
  let ?h = "\<lparr>zh_version = 1, zh_encoder = (case zo_encoder z of dabplus \<Rightarrow> ZMQ_ENCODER_AACPLUS | mpeg_layer_2 \<Rightarrow> ZMQ_ENCODER_MPEG_L2),
         zh_datasize = of_nat (length buf), zh_audiolevel_left = ob_audio_left z, zh_audiolevel_right = ob_audio_right z\<rparr>"
  have "\<exists>z'. ZMQ_write_frame z ZmqSent buf = Inr (True, z') \<and> zo_sent z' = zo_sent z @ [zmq_header_bytes ?h @ buf]"
    unfolding ZMQ_write_frame_def Let_def by (auto simp: n ZMQ_HEADER_SIZE_def)
  moreover have "zmq_parse (zmq_header_bytes ?h @ buf) = Some (?h, buf)" by (rule zmq_parse_frame [OF assms]) simp
  ultimately show ?thesis unfolding ZMQ_ENCODER_AACPLUS_def ZMQ_ENCODER_MPEG_L2_def by blast
qed

theorem zmq_frame_roundtrip_witness:
  "\<exists>z' m. ZMQ_write_frame ((ZMQ_init [])\<lparr>zo_framebuf := replicate 20 7\<rparr>) ZmqSent [1, 2, 3] = Inr (True, z') \<and> zo_sent z' = [m]
    \<and> zmq_parse m = Some (\<lparr>zh_version = 1, zh_encoder = 1, zh_datasize = 3, zh_audiolevel_left = 0, zh_audiolevel_right = 0\<rparr>, [1, 2, 3])"
  using zmq_frame_roundtrip [of "[1, 2, 3]" "(ZMQ_init [])\<lparr>zo_framebuf := replicate 20 7\<rparr>"] by (simp add: ZMQ_init_def)

subsection \<open>The TAG packet of a frame\<close>

definition edi_expected_items :: "Output_EDI \<Rightarrow> int \<Rightarrow> int \<Rightarrow> bytes \<Rightarrow> (bytes \<times> bytes) list" where
  "edi_expected_items e tai_offset now buf =
     [(str_bytes ''*ptr'', str_bytes ''DSTI'' @ [0, 0, 0, 0]),
      (str_bytes ''dsti'', drop 8 (fst (TagDSTI_Assemble (edi_tagDSTI e tai_offset)))),
      (str_bytes ''ss'' @ [0, 1], [0, 0, 0] @ buf),
      (str_bytes ''ODRa'', be16 (ob_audio_left e) @ be16 (ob_audio_right e))]
     @ (if version_due e now
        then [(str_bytes ''ODRv'', str_bytes (eo_odr_version_tag e) @ be32 (num_seconds_sent e))] else [])"

lemma tag_item_star_ptr: "tag_name (StarPTR ''DSTI'') = str_bytes ''*ptr''" "tag_value (StarPTR ''DSTI'') = str_bytes ''DSTI'' @ [0, 0, 0, 0]"
  by (simp_all add: tag_name_def tag_value_def tag_bytes_def TagItem_Assemble_def TagStarPTR_Assemble_def)

lemma tag_item_dsti: "tag_name (DSTI d) = str_bytes ''dsti''" "tag_value (DSTI d) = drop 8 (fst (TagDSTI_Assemble d))"
  by (simp_all add: tag_name_def tag_value_def tag_bytes_def TagItem_Assemble_def TagDSTI_Assemble_def Let_def tag_tlv_def)

lemma tag_item_ss:
  "TagSSm_Assemble (TagSSm_init buf) = Inr (tag_tlv (str_bytes ''ss'' @ [0, 1]) ([0, 0, 0] @ buf))"
  by (simp add: TagSSm_Assemble_def TagSSm_init_def ss_istc_def bool_bit_def be24_def be16_def)
    (simp add: write_taglength_def tag_tlv_def)

lemma tag_item_ss_parts:
  "tag_name (SSm (TagSSm_init buf)) = str_bytes ''ss'' @ [0, 1]" "tag_value (SSm (TagSSm_init buf)) = [0, 0, 0] @ buf"
  by (simp_all add: tag_name_def tag_value_def tag_bytes_def TagItem_Assemble_def tag_item_ss tag_tlv_def)

lemma tag_item_odr:
  "tag_name (ODRAudioLevels a) = str_bytes ''ODRa''" "tag_value (ODRAudioLevels a) = be16 (odra_left a) @ be16 (odra_right a)"
  "tag_name (ODRVersion v) = str_bytes ''ODRv''" "tag_value (ODRVersion v) = str_bytes (odrv_version v) @ be32 (odrv_uptime v)"
  by (simp_all add: tag_name_def tag_value_def tag_bytes_def TagItem_Assemble_def TagODRAudioLevels_Assemble_def
      TagODRVersion_Assemble_def Let_def)

lemmas tag_item_parts = tag_item_star_ptr tag_item_dsti tag_item_ss_parts tag_item_odr

lemma dsti_value_length: "length (drop 8 (fst (TagDSTI_Assemble d))) \<le> 13 + length (dsti_rfad d)"
  by (simp add: TagDSTI_Assemble_def Let_def tag_tlv_def)

lemma edi_tagDSTI_parts [simp]:
  "dsti_dlfc (edi_tagDSTI e off) = dsti_dlfc (eo_edi_tagDSTI e)" "dsti_rfad (edi_tagDSTI e off) = dsti_rfad (eo_edi_tagDSTI e)"
  "dsti_rfadf (edi_tagDSTI e off) = False" "dsti_stihf (edi_tagDSTI e off) = False" "dsti_atstf (edi_tagDSTI e off) = eo_tist e"
  by (simp_all add: edi_tagDSTI_def TagDSTI_set_edi_time_def Let_def)

lemma edi_tagpacket_assembles:
  assumes "cf_tagpacket_alignment (eo_edi_conf e) = 0" "length buf < 2 ^ 28" "length (eo_odr_version_tag e) < 2 ^ 28"
  obtains payload p where "TagPacket_Assemble (edi_tagpacket e off now buf) = Inr (payload, p)"
    "tag_parse payload = Some (edi_expected_items e off now buf)"
    "dsti_of p d = (edi_tagDSTI e off)\<lparr>dsti_dlfc := dlfc_next (dsti_dlfc (eo_edi_tagDSTI e))\<rparr>"
    "length payload \<le> length buf + length (eo_odr_version_tag e) + 71"
proof -
  let ?p = "edi_tagpacket e off now buf"
  obtain payload p where p: "TagPacket_Assemble ?p = Inr (payload, p)"
      "dsti_of p d = (edi_tagDSTI e off)\<lparr>dsti_dlfc := dlfc_next (dsti_dlfc (eo_edi_tagDSTI e))\<rparr>"
      "length payload \<le> length buf + length (eo_odr_version_tag e) + 71"
    using assms(1) by (cases "version_due e now")
      (auto simp: edi_tagpacket_def TagPacket_Assemble_def TagPacket_init_def TagItem_Assemble_def tag_item_ss tag_padding_def
        TagDSTI_Assemble_def dsti_of_def TagStarPTR_Assemble_def TagODRAudioLevels_Assemble_def TagODRVersion_Assemble_def
        tag_tlv_def Let_def)
  have "length (tag_value i) < 2 ^ 29 \<and> tag_ok i" if "i \<in> set (tp_tag_items ?p)" for i
  proof -
    have "length (tag_value (DSTI (edi_tagDSTI e off))) < 2 ^ 29"
      by (simp add: tag_item_dsti TagDSTI_Assemble_def Let_def tag_tlv_def)
    then show ?thesis
      using that assms(2,3) by (auto simp: edi_tagpacket_def tag_item_parts tag_ok_def split: if_splits)
  qed
  then have "tag_parse payload = Some (map (\<lambda>i. (tag_name i, tag_value i)) (tp_tag_items ?p))"
    using tag_packet_parse [OF p(1)] assms(1) by (simp add: edi_tagpacket_def TagPacket_init_def)
  also have "map (\<lambda>i. (tag_name i, tag_value i)) (tp_tag_items ?p) = edi_expected_items e off now buf"
    by (simp add: edi_tagpacket_def edi_expected_items_def tag_item_parts)
  finally show thesis using p that by blast
qed

subsection \<open>Delivery\<close>

text \<open>A sender that fragments, is running and has nothing left to send.\<close>

definition edi_sender_idle :: "Sender \<Rightarrow> bool" where
  "edi_sender_idle s \<longleftrightarrow> sender_ok s \<and> sn_pending s = []"

lemma edi_write_delivers:
  assumes "eo_edi_sender e = Some s" "edi_sender_idle s" "cf_tagpacket_alignment (eo_edi_conf e) = 0"
    and "get_offset (ee_time env) (ee_steady env) (ee_tai env) cache (eo_clock_tai e) = (Inr off, cache1, clk)"
    and "CEIL_DIV (length buf + length (eo_odr_version_tag e) + 83) (unat (pft_k (sn_pft s))) \<le> 256"
  obtains e' s1 where "EDI_write_frame env e buf cache fds = (Inr True, [], e', cache1, fds)" "eo_edi_sender e' = Some s1"
    "dsti_dlfc (eo_edi_tagDSTI e') = dlfc_next (dsti_dlfc (eo_edi_tagDSTI e))"
    "\<And>now' envss addrs a. \<forall>x \<in> set (sn_pending s1). fst x \<le> now' \<Longrightarrow> length (sn_pending s1) \<le> length envss
       \<Longrightarrow> \<forall>es \<in> set envss. udp_env_ok (sn_sockets s) addrs es \<Longrightarrow> distinct addrs \<Longrightarrow> a \<in> set addrs
       \<Longrightarrow> \<exists>out s2 af payload. run_pass s1 now' envss fds = (None, out, s2, fds) \<and> sn_pending s2 = []
          \<and> pf_reassemble (map snd (filter (\<lambda>x. fst x = a) out)) = Some af
          \<and> af_parse af = Some (af_seq (sn_af s), payload)
          \<and> tag_parse payload = Some (edi_expected_items e off (ee_steady env) buf)"
proof -
  let ?k = "unat (pft_k (sn_pft s))" and ?p = "edi_tagpacket e off (ee_steady env) buf"
  have i: "0 < ?k" "?k \<le> 207" using assms(2) by (auto simp: edi_sender_idle_def sender_ok_def word_less_nat_alt word_le_nat_alt)
  have "length buf + length (eo_odr_version_tag e) + 83 \<le> 256 * ?k" using assms(5) CEIL_DIV_le_iff [OF i(1)] by blast
  then have len: "length buf < 2 ^ 28" "length (eo_odr_version_tag e) < 2 ^ 28" using i(2) by auto
  obtain payload p where p: "TagPacket_Assemble ?p = Inr (payload, p)"
    "tag_parse payload = Some (edi_expected_items e off (ee_steady env) buf)"
    "dsti_of p (edi_tagDSTI e off) = (edi_tagDSTI e off)\<lparr>dsti_dlfc := dlfc_next (dsti_dlfc (eo_edi_tagDSTI e))\<rparr>"
    "length payload \<le> length buf + length (eo_odr_version_tag e) + 71"
    using edi_tagpacket_assembles [OF assms(3) len] by metis
  have "CEIL_DIV (length payload + 12) ?k \<le> 256" using p(4) assms(5) unfolding CEIL_DIV_le_iff [OF i(1)] by linarith
  then obtain s1 where s1: "write_tag s (ee_steady env) (ee_send env) ?p fds = (None, [], s1, p, fds)"
    and r: "\<forall>now' envss addrs a. (\<forall>x \<in> set (sn_pending s1). fst x \<le> now') \<longrightarrow> length (sn_pending s1) \<le> length envss
         \<longrightarrow> (\<forall>es \<in> set envss. udp_env_ok (sn_sockets s) addrs es) \<longrightarrow> distinct addrs \<longrightarrow> a \<in> set addrs
         \<longrightarrow> (\<exists>out s2 af. run_pass s1 now' envss fds = (None, out, s2, fds) \<and> sn_pending s2 = []
              \<and> pf_reassemble (map snd (filter (\<lambda>x. fst x = a) out)) = Some af
              \<and> af_parse af = Some (af_seq (sn_af s), payload))"
    using sender_delivers [of s ?p payload p "ee_steady env" "ee_send env" fds] assms(2) p(1)
    unfolding edi_sender_idle_def sender_ok_def by blast
  obtain e' where e': "EDI_write_frame env e buf cache fds = (Inr True, [], e', cache1, fds)" "eo_edi_sender e' = Some s1"
      "eo_edi_tagDSTI e' = dsti_of p (edi_tagDSTI e off)"
    using assms(1,4) s1 by (simp add: EDI_write_frame_def Let_def)
  show thesis by (rule that [OF e'(1,2)]) (use e'(3) p(2,3) r in \<open>simp_all, blast\<close>)
qed

text \<open>C8: a frame given to the EDI output reaches every destination. With an idle sender, UDP destinations that can be reached and a
  TAI offset, the frame is accepted; once its fragments are due, a pass of the sender thread sends them, and every
  destination can reassemble from its datagrams an AF packet whose TAG items are the protocol, the \<open>dsti\<close> item, the
  frame itself, the audio levels and, every ten seconds, the version. The frame counter advances.\<close>

theorem edi_frame_delivered:
  assumes "eo_edi_sender e = Some s" "edi_sender_idle s" "cf_tagpacket_alignment (eo_edi_conf e) = 0"
    and "get_offset (ee_time env) (ee_steady env) (ee_tai env) cache (eo_clock_tai e) = (Inr off, cache1, clk)"
    and "CEIL_DIV (length buf + length (eo_odr_version_tag e) + 83) (unat (pft_k (sn_pft s))) \<le> 256"
  shows "\<exists>e' s1. EDI_write_frame env e buf cache fds = (Inr True, [], e', cache1, fds) \<and> eo_edi_sender e' = Some s1
    \<and> dsti_dlfc (eo_edi_tagDSTI e') = dlfc_next (dsti_dlfc (eo_edi_tagDSTI e))
    \<and> (\<forall>now' envss addrs a. (\<forall>x \<in> set (sn_pending s1). fst x \<le> now') \<longrightarrow> length (sn_pending s1) \<le> length envss
         \<longrightarrow> (\<forall>es \<in> set envss. udp_env_ok (sn_sockets s) addrs es) \<longrightarrow> distinct addrs \<longrightarrow> a \<in> set addrs
         \<longrightarrow> (\<exists>out s2 af payload. run_pass s1 now' envss fds = (None, out, s2, fds) \<and> sn_pending s2 = []
              \<and> pf_reassemble (map snd (filter (\<lambda>x. fst x = a) out)) = Some af
              \<and> af_parse af = Some (af_seq (sn_af s), payload)
              \<and> tag_parse payload = Some (edi_expected_items e off (ee_steady env) buf)))"
  by (rule edi_write_delivers [OF assms, where fds = fds]) blast

theorem edi_frame_delivered_witness:
  "\<exists>e' s1 out s2 af payload. EDI_write_frame
      \<lparr>ee_setup = [], ee_time = 0, ee_steady = 0, ee_tai = \<lparr>te_load = \<lparr>fe_open = True, fe_lock = True, fe_io = []\<rparr>,
        te_store = \<lparr>fe_open = True, fe_lock = True, fe_io = []\<rparr>, te_curl = \<lambda>_. CurlError\<rparr>, ee_send = []\<rparr>
      ((EDI_init 0)\<lparr>eo_clock_tai := (ClockTAI_init [])\<lparr>ct_state := Some \<lparr>bs_valid = True, bs_expires_at = 9, bs_offset = 37\<rparr>\<rparr>,
        eo_edi_sender := Some \<lparr>sn_conf = configuration_default\<lparr>cf_enable_pft := True\<rparr>, sn_af = AFPacketiser_init,
          sn_pft = \<lparr>pft_k = 207, pft_m = 2, pft_pseq = 0, pft_num_chunks = 0\<rparr>, sn_sockets =
            [DUdp \<lparr>ud_dest_addr = [], ud_dest_port = 0, ud_source_addr = [], ud_source_port = 0, ud_ttl = 10\<rparr> \<lparr>us_sock = 3, us_port = 0\<rparr>],
          sn_running = True, sn_pending = [], sn_debug = []\<rparr>\<rparr>) [1, 2, 3] None {3}
      = (Inr True, [], e', None, {3}) \<and> eo_edi_sender e' = Some s1
    \<and> run_pass s1 (Max (insert 0 (fst ` set (sn_pending s1))))
        (replicate (length (sn_pending s1)) [\<lparr>dn_gai = 0, dn_addrs = [7], dn_send = None\<rparr>]) {3} = (None, out, s2, {3})
    \<and> pf_reassemble (map snd (filter (\<lambda>x. fst x = 7) out)) = Some af \<and> af_parse af = Some (0, payload)
    \<and> (\<exists>items. tag_parse payload = Some items \<and> items ! 2 = (str_bytes ''ss'' @ [0, 1], [0, 0, 0, 1, 2, 3]))"
proof -
  let ?tai = "\<lparr>te_load = \<lparr>fe_open = True, fe_lock = True, fe_io = []\<rparr>,
        te_store = \<lparr>fe_open = True, fe_lock = True, fe_io = []\<rparr>, te_curl = \<lambda>_. CurlError\<rparr>"
  let ?env = "\<lparr>ee_setup = [], ee_time = 0, ee_steady = 0, ee_tai = ?tai, ee_send = []\<rparr>"
  let ?c = "(ClockTAI_init [])\<lparr>ct_state := Some \<lparr>bs_valid = True, bs_expires_at = 9, bs_offset = 37\<rparr>\<rparr>"
  let ?s = "\<lparr>sn_conf = configuration_default\<lparr>cf_enable_pft := True\<rparr>, sn_af = AFPacketiser_init,
          sn_pft = \<lparr>pft_k = 207, pft_m = 2, pft_pseq = 0, pft_num_chunks = 0\<rparr>, sn_sockets =
            [DUdp \<lparr>ud_dest_addr = [], ud_dest_port = 0, ud_source_addr = [], ud_source_port = 0, ud_ttl = 10\<rparr> \<lparr>us_sock = 3, us_port = 0\<rparr>],
          sn_running = True, sn_pending = [], sn_debug = []\<rparr>"
  let ?e = "(EDI_init 0)\<lparr>eo_clock_tai := ?c, eo_edi_sender := Some ?s\<rparr>" and ?r = "[\<lparr>dn_gai = 0, dn_addrs = [7], dn_send = None\<rparr>]"
  have g: "get_offset (ee_time ?env) (ee_steady ?env) (ee_tai ?env) None (eo_clock_tai ?e) = (Inr 37, None, ?c)"
    by (simp add: get_offset_def offset_first_def offset_refresh_def ClockTAI_init_def hour_ns_def)
  have idle: "edi_sender_idle ?s" by (simp add: edi_sender_idle_def sender_ok_def configuration_default_def)
  have al: "cf_tagpacket_alignment (eo_edi_conf ?e) = 0" by (simp add: EDI_init_def configuration_default_def)
  have es: "eo_edi_sender ?e = Some ?s" by simp
  have len: "CEIL_DIV (length [1 :: byte, 2, 3] + length (eo_odr_version_tag ?e) + 83) (unat (pft_k (sn_pft ?s))) \<le> 256"
    by (simp add: EDI_init_def CEIL_DIV_def)
  obtain e' s1 where w: "EDI_write_frame ?env ?e [1, 2, 3] None {3} = (Inr True, [], e', None, {3})" "eo_edi_sender e' = Some s1"
    and r: "\<forall>now' envss addrs a. (\<forall>x \<in> set (sn_pending s1). fst x \<le> now') \<longrightarrow> length (sn_pending s1) \<le> length envss
         \<longrightarrow> (\<forall>es \<in> set envss. udp_env_ok (sn_sockets ?s) addrs es) \<longrightarrow> distinct addrs \<longrightarrow> a \<in> set addrs
         \<longrightarrow> (\<exists>out s2 af payload. run_pass s1 now' envss {3} = (None, out, s2, {3}) \<and> sn_pending s2 = []
              \<and> pf_reassemble (map snd (filter (\<lambda>x. fst x = a) out)) = Some af
              \<and> af_parse af = Some (af_seq (sn_af ?s), payload)
              \<and> tag_parse payload = Some (edi_expected_items ?e 37 (ee_steady ?env) [1, 2, 3]))"
    using edi_frame_delivered [OF es idle al g len, of "{3}"] by blast
  let ?m = "Max (insert 0 (fst ` set (sn_pending s1)))"
  have due: "\<forall>x \<in> set (sn_pending s1). fst x \<le> ?m" by auto
  have ok: "\<forall>es \<in> set (replicate (length (sn_pending s1)) ?r). udp_env_ok (sn_sockets ?s) [7] es" by (simp add: udp_env_ok_def)
  obtain out s2 af payload where "run_pass s1 ?m (replicate (length (sn_pending s1)) ?r) {3} = (None, out, s2, {3})"
    "pf_reassemble (map snd (filter (\<lambda>x. fst x = 7) out)) = Some af" "af_parse af = Some (af_seq (sn_af ?s), payload)"
    "tag_parse payload = Some (edi_expected_items ?e 37 (ee_steady ?env) [1, 2, 3])"
    using r [THEN spec [of _ ?m], THEN spec [of _ "replicate (length (sn_pending s1)) ?r"], THEN spec [of _ "[7]"], THEN spec [of _ 7]]
      due ok by auto
  moreover have "edi_expected_items ?e 37 (ee_steady ?env) [1, 2, 3] ! 2 = (str_bytes ''ss'' @ [0, 1], [0, 0, 0, 1, 2, 3])"
    by (simp add: edi_expected_items_def)
  moreover have "af_seq (sn_af ?s) = 0" by (simp add: AFPacketiser_init_def)
  ultimately show ?thesis using w by metis
qed

text \<open>Without any valid bulletin the EDI output cannot send its first frame, even if timestamps are disabled: the offset is
  asked for in any case, and its absence is a \<open>runtime_error\<close> that leaves \<open>write_frame\<close>.\<close>

theorem edi_needs_bulletin:
  assumes "ct_state (eo_clock_tai e) = None" "tai_reach (eo_clock_tai e)" "eo_edi_sender e = Some s" "\<not> eo_tist e"
    and "list_all (\<lambda>b. \<not> bs_valid (bulletin_state (ee_time env) b)) (tai_candidates (ee_tai env) cache (eo_clock_tai e))"
  shows "\<exists>e' cache'. EDI_write_frame env e buf cache fds = (Inl RuntimeError, [], e', cache', fds)"
proof -
  let ?c = "eo_clock_tai e"
  have "get_valid_offset (ee_time env) (ee_tai env) cache ?c = (Inr None, cache, ?c)"
    by (cases rule: get_valid_offset_cases [of "ee_time env" "ee_tai env" cache ?c])
      (use assms(5) in \<open>auto simp: list_all_iff\<close>)
  then show ?thesis using assms(1,3) by (simp add: EDI_write_frame_def get_offset_def offset_first_def)
qed

theorem edi_needs_bulletin_witness:
  "\<exists>e' cache'. EDI_write_frame
      \<lparr>ee_setup = [], ee_time = 0, ee_steady = 0, ee_tai = \<lparr>te_load = \<lparr>fe_open = True, fe_lock = True, fe_io = []\<rparr>,
        te_store = \<lparr>fe_open = True, fe_lock = True, fe_io = []\<rparr>, te_curl = \<lambda>_. CurlError\<rparr>, ee_send = []\<rparr>
      ((EDI_init 0)\<lparr>eo_edi_sender := Some \<lparr>sn_conf = configuration_default, sn_af = AFPacketiser_init,
          sn_pft = \<lparr>pft_k = 207, pft_m = 0, pft_pseq = 0, pft_num_chunks = 0\<rparr>, sn_sockets = [],
          sn_running = False, sn_pending = [], sn_debug = []\<rparr>\<rparr>) [1, 2, 3] None {} = (Inl RuntimeError, [], e', cache', {})"
proof -
  have v: "bulletin_state 0 Bulletin_init = BulletinState_init"
    "bulletin_state 0 (load_from_file \<lparr>fe_open = True, fe_lock = True, fe_io = []\<rparr> None tai_cache_location) = BulletinState_init"
    by (simp_all add: bulletin_state_def Bulletin_init_def load_from_file_def Let_def)
  show ?thesis
    by (rule edi_needs_bulletin)
      (simp_all add: EDI_init_def tai_reach.start, simp_all add: ClockTAI_init_def tai_candidates_def downloads_def v
        BulletinState_init_def default_tai_urls_def download_from_url_def)
qed

text \<open>The timestamp is accumulated. For a time from the epoch on, \<open>set_tist\<close> sets the second and \<^emph>\<open>adds\<close> the milliseconds within
  it, in units of \<open>2^-14\<close> ms, to what earlier calls left, so that a second call with the same time gives another timestamp.\<close>

theorem set_tist_accumulates:
  assumes "0 \<le> ts" "0 < ms" "ms = (ts + uint delay * 1000000) mod 1000000000 div 1000000"
  shows "\<exists>e1 e2. set_tist e enable delay ts = (None, e1) \<and> set_tist e1 enable delay ts = (None, e2)
    \<and> eo_edi_time e1 = (ts + uint delay * 1000000) div 1000000000 \<and> eo_edi_time e2 = eo_edi_time e1
    \<and> eo_timestamp e1 = eo_timestamp e + word_of_int (ms * 2 ^ 14)
    \<and> eo_timestamp e2 = eo_timestamp e + word_of_int (2 * (ms * 2 ^ 14)) \<and> eo_timestamp e2 \<noteq> eo_timestamp e1"
proof -
  let ?t = "ts + uint delay * 1000000"
  have t: "0 \<le> ?t" using assms(1) by simp
  then have c: "cdiv ?t 1000000000 = ?t div 1000000000" by (simp add: cdiv_def sgn_if)
  have rem: "?t - ?t div 1000000000 * 1000000000 = ?t mod 1000000000" by (simp add: minus_div_mult_eq_mod)
  have nn: "\<not> ?t mod 1000000000 < 0" by (simp add: not_less)
  have "?t mod 1000000000 div 1000000 \<le> 999999999 div 1000000" by (rule zdiv_mono1) (simp_all add: zle_diff1_eq [symmetric] pos_mod_bound)
  then have ms: "0 \<le> ms" "ms < 1000" using assms(2,3) by simp_all
  have sh: "push_bit 14 (word_of_int ms :: u32) = word_of_int (ms * 2 ^ 14)" by (simp add: push_bit_eq_mult)
  have one: "set_tist e' enable delay ts = (None, e'\<lparr>eo_tist := enable, eo_delay_ms := delay, eo_edi_time := ?t div 1000000000,
      eo_timestamp := eo_timestamp e' + word_of_int (ms * 2 ^ 14)\<rparr>)" for e'
    unfolding set_tist_def Let_def using nn by (simp add: c rem sh flip: assms(3))
  have "(word_of_int (ms * 2 ^ 14) :: u32) \<noteq> 0"
  proof
    assume "(word_of_int (ms * 2 ^ 14) :: u32) = 0"
    then have "uint (word_of_int (ms * 2 ^ 14) :: u32) = 0" by simp
    moreover have "uint (word_of_int (ms * 2 ^ 14) :: u32) = ms * 2 ^ 14"
      unfolding uint_word_of_int_eq by (rule take_bit_int_eq_self) (use ms in simp_all)
    ultimately show False using assms(2) by simp
  qed
  then show ?thesis by (simp add: one)
qed

theorem set_tist_accumulates_witness:
  "\<exists>e1 e2. set_tist (EDI_init 0) True 100 1700000000500000000 = (None, e1) \<and> set_tist e1 True 100 1700000000500000000 = (None, e2)
    \<and> eo_timestamp e1 = word_of_int (600 * 2 ^ 14) \<and> eo_timestamp e2 = word_of_int (2 * (600 * 2 ^ 14))"
proof -
  have z: "eo_timestamp (EDI_init 0) = 0" by (simp add: EDI_init_def)
  have "\<exists>e1 e2. set_tist (EDI_init 0) True 100 1700000000500000000 = (None, e1) \<and> set_tist e1 True 100 1700000000500000000 = (None, e2)
    \<and> eo_edi_time e1 = (1700000000500000000 + uint (100 :: u32) * 1000000) div 1000000000 \<and> eo_edi_time e2 = eo_edi_time e1
    \<and> eo_timestamp e1 = eo_timestamp (EDI_init 0) + word_of_int (600 * 2 ^ 14)
    \<and> eo_timestamp e2 = eo_timestamp (EDI_init 0) + word_of_int (2 * (600 * 2 ^ 14)) \<and> eo_timestamp e2 \<noteq> eo_timestamp e1"
    by (rule set_tist_accumulates) simp_all
  then show ?thesis unfolding z add_0 by blast
qed

end
