(* ===== verification/OrderedQueue.thy ===== *)
theory OrderedQueue
  imports Prelude "HOL-Library.Multiset"
begin

text \<open>
  Model of \<open>src/OrderedQueue.h\<close> and \<open>src/OrderedQueue.cpp\<close>: the jitter buffer that receives
  24 ms frames indexed modulo \<open>maxIndex\<close>, possibly out of order, and returns them in order.
  \<open>std::map\<close> is a finite map; \<open>pop\<close> searches in a loop and is therefore defined in the option
  monad of \<^theory_text>\<open>partial_function\<close>, where \<open>None\<close> is a search that never ends. The counters
  that only feed the debug output (\<open>_duplicated\<close>, \<open>_overruns\<close>) are kept, the prints are not.
\<close>

subsection \<open>State\<close>

text \<open>\<open>timestamp_t\<close> is a point in time, in nanoseconds since the epoch of the clock.\<close>

type_synonym timestamp_t = int

record OrderedQueueData =
  oqd_buf :: bytes
  oqd_capture_timestamp :: timestamp_t

record OrderedQueue =
  oq_maxIndex :: int
  oq_capacity :: nat
  oq_duplicated :: u64
  oq_overruns :: u64
  oq_lastIndexPop :: int
  oq_stock :: "(int, OrderedQueueData) fmap"

definition oqd_default :: OrderedQueueData where
  "oqd_default = \<lparr>oqd_buf = [], oqd_capture_timestamp = 0\<rparr>"

abbreviation oq_size :: "OrderedQueue \<Rightarrow> nat" where
  "oq_size q \<equiv> fcard (fmdom (oq_stock q))"

subsection \<open>Operations\<close>

definition OrderedQueue_init :: "int \<Rightarrow> nat \<Rightarrow> OrderedQueue" where
  "OrderedQueue_init maxIndex capacity =
     \<lparr>oq_maxIndex = maxIndex, oq_capacity = capacity, oq_duplicated = 0, oq_overruns = 0,
      oq_lastIndexPop = -1, oq_stock = fmempty\<rparr>"

definition oq_push :: "OrderedQueue \<Rightarrow> int \<Rightarrow> bytes \<Rightarrow> timestamp_t \<Rightarrow> OrderedQueue" where
  "oq_push q index0 buf ts =
     (let maxI = oq_maxIndex q;
          index = crem (index0 + maxI) maxI;
          q1 = (if oq_lastIndexPop q = -1
                then q\<lparr>oq_lastIndexPop := crem (index + maxI - 1) maxI\<rparr> else q)
      in if oq_size q1 < oq_capacity q1 then
           (let q2 = (if fmlookup (oq_stock q1) index \<noteq> None
                      then q1\<lparr>oq_duplicated := oq_duplicated q1 + 1\<rparr> else q1);
                oqd = \<lparr>oqd_buf = buf, oqd_capture_timestamp = ts\<rparr>
            in q2\<lparr>oq_stock := fmupd index oqd (oq_stock q2)\<rparr>)
         else q1\<lparr>oq_overruns := oq_overruns q1 + 1\<rparr>)"

definition oq_availableData :: "OrderedQueue \<Rightarrow> bool" where
  "oq_availableData q = (oq_size q > 0)"

text \<open>
  The \<open>while (not found)\<close> loop of \<open>pop\<close>. The result holds the queue, the returned buffer and
  the value written to \<open>*returnedIndex\<close>, if any.
\<close>

partial_function (option) pop_loop ::
  "OrderedQueue \<Rightarrow> int \<Rightarrow> (OrderedQueue \<times> OrderedQueueData \<times> int option) option" where
  "pop_loop q nextIndex =
     (case fmlookup (oq_stock q) nextIndex of
        Some oqd \<Rightarrow>
          Some (q\<lparr>oq_stock := fmdrop nextIndex (oq_stock q), oq_lastIndexPop := nextIndex\<rparr>,
                oqd, Some nextIndex)
      | None \<Rightarrow>
          if oq_size q < oq_capacity q then Some (q, oqd_default, None)
          else pop_loop q (crem (nextIndex + 1) (oq_maxIndex q)))"

definition oq_pop :: "OrderedQueue \<Rightarrow> (OrderedQueue \<times> OrderedQueueData \<times> int option) option" where
  "oq_pop q =
     (if oq_size q > 0 then pop_loop q (crem (oq_lastIndexPop q + 1) (oq_maxIndex q))
      else Some (q, oqd_default, None))"

subsection \<open>Invariant\<close>

definition oq_inv :: "OrderedQueue \<Rightarrow> bool" where
  "oq_inv q \<longleftrightarrow> 0 < oq_maxIndex q
     \<and> -1 \<le> oq_lastIndexPop q \<and> oq_lastIndexPop q < oq_maxIndex q
     \<and> (\<forall>k. k |\<in>| fmdom (oq_stock q) \<longrightarrow> 0 \<le> k \<and> k < oq_maxIndex q)
     \<and> oq_size q \<le> oq_capacity q
     \<and> (oq_size q > 0 \<longrightarrow> oq_lastIndexPop q \<noteq> -1)"

text \<open>The number of slots after the last popped index at which index \<open>k\<close> comes up.\<close>

definition oq_dist :: "OrderedQueue \<Rightarrow> int \<Rightarrow> int" where
  "oq_dist q k = (k - oq_lastIndexPop q - 1) mod oq_maxIndex q"

lemma oq_init_inv: "0 < m \<Longrightarrow> oq_inv (OrderedQueue_init m c)"
  by (simp add: oq_inv_def OrderedQueue_init_def)

lemma oq_push_maxIndex [simp]:
  "oq_maxIndex (oq_push q i b ts) = oq_maxIndex q"
  "oq_capacity (oq_push q i b ts) = oq_capacity q"
  by (simp_all add: oq_push_def Let_def)

lemma oq_push_stock:
  "oq_stock (oq_push q i b ts) =
    (if oq_size q < oq_capacity q
     then fmupd (crem (i + oq_maxIndex q) (oq_maxIndex q))
            \<lparr>oqd_buf = b, oqd_capture_timestamp = ts\<rparr> (oq_stock q)
     else oq_stock q)"
  by (simp add: oq_push_def Let_def)

lemma oq_push_last:
  "oq_lastIndexPop (oq_push q i b ts) =
    (if oq_lastIndexPop q = -1
     then crem (crem (i + oq_maxIndex q) (oq_maxIndex q) + oq_maxIndex q - 1) (oq_maxIndex q)
     else oq_lastIndexPop q)"
  by (simp add: oq_push_def Let_def)

lemma oq_push_inv:
  assumes "oq_inv q" "- oq_maxIndex q \<le> i"
  shows "oq_inv (oq_push q i b ts)"
proof -
  let ?m = "oq_maxIndex q"
  have m: "0 < ?m" using assms(1) by (simp add: oq_inv_def)
  have i: "crem (i + ?m) ?m = i mod ?m" using assms(2) m by (simp add: crem_nonneg)
  have r: "0 \<le> i mod ?m" "i mod ?m < ?m" using m by auto
  have l: "crem (i mod ?m + ?m - 1) ?m = (i mod ?m - 1) mod ?m"
    using m r by (simp add: crem_nonneg) (metis diff_add_eq mod_add_self2)
  have s: "0 \<le> (i mod ?m - 1) mod ?m" "(i mod ?m - 1) mod ?m < ?m" using m by auto
  then have s': "-1 \<le> (i mod ?m - 1) mod ?m" "(i mod ?m - 1) mod ?m \<noteq> -1" by linarith+
  show ?thesis
    using assms(1) m r s s'
    by (auto simp: oq_inv_def oq_push_stock oq_push_last i l fcard_finsert_if
        intro: order_less_imp_le split: if_splits)
qed


subsection \<open>What a pop returns\<close>

definition oq_popped :: "OrderedQueue \<Rightarrow> int \<Rightarrow> OrderedQueue" where
  "oq_popped q k = q\<lparr>oq_stock := fmdrop k (oq_stock q), oq_lastIndexPop := k\<rparr>"

lemma oq_popped_sel [simp]:
  "oq_maxIndex (oq_popped q k) = oq_maxIndex q" "oq_capacity (oq_popped q k) = oq_capacity q"
  "oq_lastIndexPop (oq_popped q k) = k"
  by (simp_all add: oq_popped_def)

text \<open>\<open>k\<close> is the stored index that comes up first after the last popped one.\<close>

definition oq_first :: "OrderedQueue \<Rightarrow> int \<Rightarrow> bool" where
  "oq_first q k \<longleftrightarrow> k |\<in>| fmdom (oq_stock q)
     \<and> (\<forall>k'. k' |\<in>| fmdom (oq_stock q) \<longrightarrow> oq_dist q k \<le> oq_dist q k')"

lemma oq_first_ex: "oq_size q > 0 \<Longrightarrow> \<exists>k. oq_first q k"
  unfolding oq_first_def fcard_pos_iff by (metis ex_fset_min)

lemma pop_loop_hit:
  "fmlookup (oq_stock q) k = Some d \<Longrightarrow> pop_loop q k = Some (oq_popped q k, d, Some k)"
  by (subst pop_loop.simps) (simp add: oq_popped_def)

lemma pop_loop_wait:
  "fmlookup (oq_stock q) n = None \<Longrightarrow> oq_size q < oq_capacity q
    \<Longrightarrow> pop_loop q n = Some (q, oqd_default, None)"
  by (subst pop_loop.simps) simp

lemma pop_loop_full:
  assumes "0 < oq_maxIndex q" "\<not> oq_size q < oq_capacity q"
    and "fmlookup (oq_stock q) k = Some v" "0 \<le> k" "k < oq_maxIndex q"
    and "\<And>k'. k' |\<in>| fmdom (oq_stock q) \<Longrightarrow> int d \<le> (k' - n) mod oq_maxIndex q"
    and "(k - n) mod oq_maxIndex q = int d" "0 \<le> n" "n < oq_maxIndex q"
  shows "pop_loop q n = Some (oq_popped q k, v, Some k)"
  using assms(6-9)
proof (induction d arbitrary: n)
  case 0
  then have "k = n" using assms(4,5) by (intro mod_diff_inj [of k n _ n]) simp_all
  then show ?case using assms(3) by (simp add: pop_loop_hit)
next
  case (Suc d)
  let ?m = "oq_maxIndex q" and ?n' = "crem (n + 1) (oq_maxIndex q)"
  have n': "?n' = (n + 1) mod ?m" using Suc.prems by (simp add: crem_nonneg)
  have step: "(x - ?n') mod ?m = ((x - n) mod ?m - 1) mod ?m" for x
    unfolding n' by (simp add: mod_simps algebra_simps)
  have sub: "(y - 1) mod ?m = y - 1" if "1 \<le> y" "y < ?m" for y :: int
    using that by simp
  have far: "int d \<le> (k' - ?n') mod ?m" if "k' |\<in>| fmdom (oq_stock q)" for k'
  proof -
    have "int (Suc d) \<le> (k' - n) mod ?m" "(k' - n) mod ?m < ?m"
      using Suc.prems(1) [OF that] assms(1) by auto
    then show ?thesis unfolding step using sub [of "(k' - n) mod ?m"] by simp
  qed
  have "n |\<notin>| fmdom (oq_stock q)"
    using Suc.prems(1) [of n] by auto
  then have miss: "fmlookup (oq_stock q) n = None" by (simp add: fmlookup_dom_iff)
  have "pop_loop q n = pop_loop q ?n'"
    using miss assms(2) by (subst pop_loop.simps) simp
  also have "\<dots> = Some (oq_popped q k, v, Some k)"
  proof (rule Suc.IH)
    show "(k - ?n') mod ?m = int d"
      unfolding step Suc.prems(2) using sub [of "int (Suc d)"] Suc.prems(2) assms(1)
      by (metis add_diff_cancel_left' of_nat_Suc pos_mod_bound le_add1 of_nat_1 of_nat_add of_nat_le_iff plus_1_eq_Suc)
  qed (use far assms(1) n' in auto)
  finally show ?case .
qed

text \<open>Whatever the queue: a search that ends has removed the frame it returns, or changed nothing.\<close>

lemma pop_loop_result:
  assumes "pop_loop q n = Some r"
  shows "r = (q, oqd_default, None)
    \<or> (\<exists>k d. fmlookup (oq_stock q) k = Some d \<and> r = (oq_popped q k, d, Some k))"
proof (rule pop_loop.raw_induct [where P = "\<lambda>q n r. r = (q, oqd_default, None)
    \<or> (\<exists>k d. fmlookup (oq_stock q) k = Some d \<and> r = (oq_popped q k, d, Some k))", OF _ assms])
qed (auto simp: oq_popped_def split: option.splits if_splits)

lemma oq_pop_result:
  assumes "oq_pop q = Some (q', d, r)"
  shows "(q' = q \<and> d = oqd_default \<and> r = None)
    \<or> (\<exists>k. fmlookup (oq_stock q) k = Some d \<and> q' = oq_popped q k \<and> r = Some k)"
  using assms by (auto simp: oq_pop_def dest!: pop_loop_result split: if_splits)

lemma oq_first_unique:
  assumes "oq_inv q" "oq_first q k" "oq_first q k'"
  shows "k = k'"
proof -
  have "oq_dist q k = oq_dist q k'" using assms(2,3) by (auto simp: oq_first_def intro: order_antisym)
  then have "(k - (oq_lastIndexPop q + 1)) mod oq_maxIndex q
      = (k' - (oq_lastIndexPop q + 1)) mod oq_maxIndex q"
    by (simp add: oq_dist_def algebra_simps)
  then show ?thesis
    using assms by (intro mod_diff_inj [of k "oq_lastIndexPop q + 1" "oq_maxIndex q" k'])
      (auto simp: oq_inv_def oq_first_def)
qed

lemma oq_pop_start:
  "oq_inv q \<Longrightarrow> crem (oq_lastIndexPop q + 1) (oq_maxIndex q) = (oq_lastIndexPop q + 1) mod oq_maxIndex q"
  by (simp add: oq_inv_def crem_nonneg)

lemma oq_dist_start:
  "oq_dist q k = (k - (oq_lastIndexPop q + 1) mod oq_maxIndex q) mod oq_maxIndex q"
  by (simp add: oq_dist_def mod_simps algebra_simps)

text \<open>The next frame is there, or the buffer is full: the first stored frame is returned.\<close>

lemma oq_pop_first:
  assumes inv: "oq_inv q" and first: "oq_first q k"
    and ready: "oq_dist q k = 0 \<or> \<not> oq_size q < oq_capacity q"
  shows "oq_pop q = Some (oq_popped q k, the (fmlookup (oq_stock q) k), Some k)"
proof -
  let ?n = "(oq_lastIndexPop q + 1) mod oq_maxIndex q"
  have m: "0 < oq_maxIndex q" using inv by (simp add: oq_inv_def)
  have dom: "k |\<in>| fmdom (oq_stock q)" using first by (simp add: oq_first_def)
  then obtain v where v: "fmlookup (oq_stock q) k = Some v" by (auto simp: fmlookup_dom_iff)
  have k: "0 \<le> k" "k < oq_maxIndex q" using inv dom by (auto simp: oq_inv_def)
  have size: "oq_size q > 0" using dom by (auto simp: fcard_pos_iff)
  have "pop_loop q ?n = Some (oq_popped q k, v, Some k)"
  proof (cases "oq_dist q k = 0")
    case True
    then have "k = ?n"
      unfolding oq_dist_start
      using k pos_mod_bound [OF m] by (intro mod_diff_inj [of k ?n "oq_maxIndex q" ?n]) simp_all
    then show ?thesis using v pop_loop_hit by simp
  next
    case False
    then have full: "\<not> oq_size q < oq_capacity q" using ready by simp
    have d: "(k - ?n) mod oq_maxIndex q = int (nat (oq_dist q k))"
      using m by (simp add: oq_dist_start)
    have min: "int (nat (oq_dist q k)) \<le> (k' - ?n) mod oq_maxIndex q"
      if "k' |\<in>| fmdom (oq_stock q)" for k'
      using first that m by (auto simp: oq_first_def oq_dist_start)
    show ?thesis
      by (rule pop_loop_full [OF m full v k min d]) (use m in auto)
  qed
  then show ?thesis using size by (simp add: oq_pop_def oq_pop_start [OF inv] v)
qed

text \<open>Otherwise the queue waits for the gap to fill: nothing is returned and nothing changes.\<close>

lemma oq_pop_wait:
  assumes inv: "oq_inv q" and wait: "oq_size q < oq_capacity q"
    and gap: "\<And>k. oq_first q k \<Longrightarrow> oq_dist q k \<noteq> 0"
  shows "oq_pop q = Some (q, oqd_default, None)"
proof (cases "oq_size q > 0")
  case False
  then show ?thesis by (simp add: oq_pop_def)
next
  case True
  let ?n = "(oq_lastIndexPop q + 1) mod oq_maxIndex q"
  have "\<not> oq_first q ?n" using gap [of ?n] by (auto simp: oq_dist_start)
  then have "?n |\<notin>| fmdom (oq_stock q)"
    using inv by (auto simp: oq_first_def oq_dist_start oq_inv_def)
  then have "pop_loop q ?n = Some (q, oqd_default, None)"
    using wait by (intro pop_loop_wait) (auto simp: fmlookup_dom_iff)
  then show ?thesis using True by (simp add: oq_pop_def oq_pop_start [OF inv])
qed

lemma oq_popped_inv:
  assumes "oq_inv q" "k |\<in>| fmdom (oq_stock q)"
  shows "oq_inv (oq_popped q k)"
proof -
  have "fcard (fmdom (oq_stock q) |-| {|k|}) \<le> oq_size q" by (rule fcard_mono) auto
  moreover have "0 \<le> k" "k < oq_maxIndex q" using assms by (auto simp: oq_inv_def)
  ultimately show ?thesis using assms by (auto simp: oq_inv_def oq_popped_def)
qed

lemma oq_pop_cases:
  assumes "oq_inv q"
  obtains (Pop) k v where "oq_first q k" "fmlookup (oq_stock q) k = Some v"
      "oq_dist q k = 0 \<or> \<not> oq_size q < oq_capacity q"
      "oq_pop q = Some (oq_popped q k, v, Some k)"
    | (Wait) "oq_pop q = Some (q, oqd_default, None)" "oq_size q < oq_capacity q \<or> oq_size q = 0"
      "\<And>k. oq_first q k \<Longrightarrow> oq_dist q k \<noteq> 0"
proof (cases "\<exists>k. oq_first q k \<and> (oq_dist q k = 0 \<or> \<not> oq_size q < oq_capacity q)")
  case True
  then obtain k where k: "oq_first q k" "oq_dist q k = 0 \<or> \<not> oq_size q < oq_capacity q" by blast
  then obtain v where "fmlookup (oq_stock q) k = Some v" by (auto simp: oq_first_def fmlookup_dom_iff)
  with k oq_pop_first [OF assms k] show ?thesis by (intro Pop) auto
next
  case False
  then have gap: "\<And>k. oq_first q k \<Longrightarrow> oq_dist q k \<noteq> 0" by blast
  show ?thesis
  proof (cases "oq_size q = 0")
    case True
    then show ?thesis using gap by (intro Wait) (simp_all add: oq_pop_def)
  next
    case nonempty: False
    then have "oq_size q < oq_capacity q" using False oq_first_ex [of q] by blast
    then show ?thesis using gap oq_pop_wait [OF assms] by (intro Wait) auto
  qed
qed

subsection \<open>The interface used by the AVT input\<close>

text \<open>
  A client sees a jitter buffer: pushes and pops keep the invariant, a pop always returns, a
  returned buffer was pushed before and leaves the buffer, and an empty answer changes nothing.
\<close>

locale jitter_buffer =
  fixes inv :: "'q \<Rightarrow> bool"
    and push :: "'q \<Rightarrow> int \<Rightarrow> bytes \<Rightarrow> timestamp_t \<Rightarrow> 'q"
    and pop :: "'q \<Rightarrow> ('q \<times> OrderedQueueData \<times> int option) option"
    and size :: "'q \<Rightarrow> nat"
    and range :: "'q \<Rightarrow> int"
    and contents :: "'q \<Rightarrow> (int \<times> OrderedQueueData) set"
  assumes push_inv: "inv q \<Longrightarrow> 0 \<le> i \<Longrightarrow> inv (push q i b ts)"
    and push_range: "range (push q i b ts) = range q"
    and push_contents: "inv q \<Longrightarrow> 0 \<le> i \<Longrightarrow> contents (push q i b ts) \<subseteq>
          insert (i mod range q, \<lparr>oqd_buf = b, oqd_capture_timestamp = ts\<rparr>) (contents q)"
    and pop_total: "inv q \<Longrightarrow> \<exists>res. pop q = Some res"
    and pop_inv: "inv q \<Longrightarrow> pop q = Some (q', d, r) \<Longrightarrow> inv q' \<and> range q' = range q"
    and pop_none: "inv q \<Longrightarrow> pop q = Some (q', d, None) \<Longrightarrow> q' = q \<and> d = oqd_default"
    and pop_some: "inv q \<Longrightarrow> pop q = Some (q', d, Some k) \<Longrightarrow>
          (k, d) \<in> contents q \<and> contents q' \<subseteq> contents q \<and> size q' < size q \<and> 0 \<le> k \<and> k < range q"
begin

text \<open>A property of all stored frames survives a push that has it, and holds of every popped frame.\<close>

lemma push_all_contents:
  assumes "inv q" "0 \<le> i" "\<forall>e \<in> contents q. P e"
    and "P (i mod range q, \<lparr>oqd_buf = b, oqd_capture_timestamp = ts\<rparr>)"
  shows "\<forall>e \<in> contents (push q i b ts). P e"
  using push_contents [OF assms(1,2), of b ts] assms(3,4) by blast

lemma pop_result:
  assumes "inv q" "\<forall>e \<in> contents q. P e"
  obtains (none) "pop q = Some (q, oqd_default, None)"
    | (some) q' d k where "pop q = Some (q', d, Some k)" "P (k, d)" "inv q'" "\<forall>e \<in> contents q'. P e"
        "size q' < size q" "0 \<le> k" "k < range q" "range q' = range q"
proof -
  obtain q' d i where p: "pop q = Some (q', d, i)" using pop_total [OF assms(1)] by (metis prod_cases3)
  show ?thesis
  proof (cases i)
    case None
    then show ?thesis using p pop_none [OF assms(1)] none by blast
  next
    case (Some k)
    then show ?thesis
      using p pop_some [OF assms(1)] pop_inv [OF assms(1)] assms(2) by (intro some) blast+
  qed
qed

end

definition oq_contents :: "OrderedQueue \<Rightarrow> (int \<times> OrderedQueueData) set" where
  "oq_contents q = {(k, d). fmlookup (oq_stock q) k = Some d}"

lemma oq_first_dom: "oq_first q k \<Longrightarrow> k |\<in>| fmdom (oq_stock q)"
  by (simp add: oq_first_def)

lemma oq_popped_size: "k |\<in>| fmdom (oq_stock q) \<Longrightarrow> oq_size (oq_popped q k) < oq_size q"
  using fcard_pos_iff [of "fmdom (oq_stock q)"] by (auto simp: oq_popped_def)

interpretation jb: jitter_buffer oq_inv oq_push oq_pop "\<lambda>q. oq_size q" oq_maxIndex oq_contents
proof (unfold_locales, goal_cases)
  case (1 q i b ts)
  then show ?case by (intro oq_push_inv) (auto simp: oq_inv_def)
next
  case (2 q i b ts)
  show ?case by simp
next
  case (3 q i b ts)
  then show ?case
    by (auto simp: oq_contents_def oq_push_stock oq_inv_def crem_nonneg split: if_splits)
next
  case (4 q)
  then show ?case by (cases rule: oq_pop_cases) auto
next
  case (5 q q' d i)
  then show ?case
    by (cases rule: oq_pop_cases [OF 5(1)]) (auto simp: oq_popped_inv oq_first_dom)
next
  case (6 q q' d)
  then show ?case by (cases rule: oq_pop_cases) auto
next
  case (7 q q' d k)
  from 7 have "oq_first q k" "fmlookup (oq_stock q) k = Some d" "q' = oq_popped q k"
    by (cases rule: oq_pop_cases; auto)+
  moreover from this have "k |\<in>| fmdom (oq_stock q)" by (simp add: oq_first_dom)
  ultimately show ?case
    using 7(1) oq_popped_size
    by (auto simp: oq_contents_def oq_inv_def oq_popped_def split: if_splits)
qed

subsection \<open>In-order delivery\<close>

text \<open>Popping \<open>n\<close> times; \<open>None\<close> if a pop does not return or returns nothing.\<close>

fun oq_pops :: "nat \<Rightarrow> OrderedQueue \<Rightarrow> (OrderedQueue \<times> (int \<times> OrderedQueueData) list) option" where
  "oq_pops 0 q = Some (q, [])"
| "oq_pops (Suc n) q =
     (case oq_pop q of
        Some (q', d, Some k) \<Rightarrow>
          (case oq_pops n q' of Some (q'', ds) \<Rightarrow> Some (q'', (k, d) # ds) | None \<Rightarrow> None)
      | _ \<Rightarrow> None)"

text \<open>Pushing a list of indexed frames, in the order of arrival.\<close>

definition oq_push_all :: "OrderedQueue \<Rightarrow> (int \<times> OrderedQueueData) list \<Rightarrow> OrderedQueue" where
  "oq_push_all = foldl (\<lambda>q (i, d). oq_push q i (oqd_buf d) (oqd_capture_timestamp d))"

text \<open>The \<open>j\<close>-th index after the last popped one.\<close>

definition oq_index :: "OrderedQueue \<Rightarrow> nat \<Rightarrow> int" where
  "oq_index q j = (oq_lastIndexPop q + 1 + int j) mod oq_maxIndex q"

lemma oq_dist_index: "0 < oq_maxIndex q \<Longrightarrow> int j < oq_maxIndex q \<Longrightarrow> oq_dist q (oq_index q j) = int j"
  unfolding oq_dist_def oq_index_def diff_diff_eq mod_diff_left_eq by simp

lemma oq_pops_gapless:
  assumes "oq_inv q" "fset (fmdom (oq_stock q)) = oq_index q ` {..<n}" "int n \<le> oq_maxIndex q"
  shows "\<exists>q'. oq_pops n q = Some (q', map (\<lambda>j. (oq_index q j, the (fmlookup (oq_stock q) (oq_index q j)))) [0..<n])
    \<and> oq_inv q' \<and> oq_stock q' = fmempty \<and> oq_maxIndex q' = oq_maxIndex q \<and> oq_capacity q' = oq_capacity q
    \<and> (0 < n \<longrightarrow> oq_lastIndexPop q' = oq_index q (n - 1))"
  using assms
proof (induction n arbitrary: q)
  case 0
  then have "oq_stock q = fmempty" by (metis fmdom_empty fmrestrict_fset_dom fmrestrict_fset_null fset_inverse image_empty lessThan_0 bot_fset.rep_eq)
  then show ?case using 0 by simp
next
  case (Suc n)
  let ?k = "oq_index q 0" and ?q = "oq_popped q (oq_index q 0)"
  have m: "0 < oq_maxIndex q" using Suc.prems by (simp add: oq_inv_def)
  have dist0: "oq_dist q ?k = 0" using oq_dist_index [OF m, of 0] m by simp
  have dom: "?k |\<in>| fmdom (oq_stock q)" using Suc.prems(2) by auto
  have first: "oq_first q ?k"
    using dom dist0 m by (auto simp: oq_first_def oq_dist_def)
  have shift: "oq_index ?q j = oq_index q (Suc j)" for j
    using mod_add_left_eq [of "oq_lastIndexPop q + 1" "oq_maxIndex q" "1 + int j"]
    by (simp add: oq_index_def oq_popped_def algebra_simps)
  have inj: "inj_on (oq_index q) {..<Suc n}"
    using oq_dist_index [OF m] Suc.prems(3)
    by (intro inj_onI) (metis lessThan_iff of_nat_eq_iff of_nat_less_iff order_less_le_trans)
  have "fset (fmdom (oq_stock ?q)) = oq_index q ` ({..<Suc n} - {0})"
    using Suc.prems(2) inj_on_image_set_diff [OF inj, of "{..<Suc n}" "{0}"]
    by (auto simp: oq_popped_def)
  also have "{..<Suc n} - {0} = Suc ` {..<n}" by (auto simp: image_iff less_Suc_eq_0_disj)
  finally have dom': "fset (fmdom (oq_stock ?q)) = oq_index ?q ` {..<n}"
    by (simp add: image_image shift)
  obtain q' where q': "oq_pops n ?q = Some (q', map (\<lambda>j. (oq_index ?q j, the (fmlookup (oq_stock ?q) (oq_index ?q j)))) [0..<n])"
      "oq_inv q'" "oq_stock q' = fmempty" "oq_maxIndex q' = oq_maxIndex q" "oq_capacity q' = oq_capacity q"
      "0 < n \<longrightarrow> oq_lastIndexPop q' = oq_index ?q (n - 1)"
    using Suc.IH [OF oq_popped_inv [OF Suc.prems(1) dom] dom'] Suc.prems(3) by auto
  have last: "oq_lastIndexPop q' = oq_index q n"
    using q'(1,6) shift [of "n - 1"] by (cases n) auto
  have look: "fmlookup (oq_stock ?q) (oq_index q (Suc j)) = fmlookup (oq_stock q) (oq_index q (Suc j))"
    if "j < n" for j
    using inj_onD [OF inj, of "Suc j" 0] that by (auto simp: oq_popped_def)
  have "oq_pops (Suc n) q = Some (q', (?k, the (fmlookup (oq_stock q) ?k)) #
      map (\<lambda>j. (oq_index q (Suc j), the (fmlookup (oq_stock q) (oq_index q (Suc j))))) [0..<n])"
    using oq_pop_first [OF Suc.prems(1) first] dist0 q'(1) look by (simp add: shift)
  also have "\<dots> = Some (q', map (\<lambda>j. (oq_index q j, the (fmlookup (oq_stock q) (oq_index q j)))) [0..<Suc n])"
    by (simp add: upt_conv_Cons map_Suc_upt [symmetric] del: upt_Suc)
  finally show ?case using q'(2-5) last by (intro exI [of _ q']) simp
qed

lemma oq_push_all_spec:
  assumes "oq_inv q" "oq_lastIndexPop q \<noteq> -1" "\<forall>i \<in> fst ` set fs. 0 \<le> i \<and> i < oq_maxIndex q"
    and "oq_size q + length fs \<le> oq_capacity q"
  shows "oq_inv (oq_push_all q fs) \<and> oq_lastIndexPop (oq_push_all q fs) = oq_lastIndexPop q
    \<and> oq_maxIndex (oq_push_all q fs) = oq_maxIndex q
    \<and> oq_capacity (oq_push_all q fs) = oq_capacity q
    \<and> fmlookup (oq_stock (oq_push_all q fs)) = fmlookup (oq_stock q) ++ map_of (rev fs)"
  using assms
proof (induction fs arbitrary: q)
  case Nil
  then show ?case by (simp add: oq_push_all_def)
next
  case (Cons f fs)
  obtain i d where f: "f = (i, d)" by (cases f)
  let ?q = "oq_push q i (oqd_buf d) (oqd_capture_timestamp d)"
  have i: "0 \<le> i" "i < oq_maxIndex q" using Cons.prems(3) f by auto
  have stock: "oq_stock ?q = fmupd i d (oq_stock q)"
    using Cons.prems i by (cases d) (simp add: oq_push_stock crem_nonneg)
  have size: "oq_size ?q \<le> Suc (oq_size q)" by (simp add: stock fcard_finsert_if)
  have last: "oq_lastIndexPop ?q = oq_lastIndexPop q" using Cons.prems(2) by (simp add: oq_push_last)
  have "oq_inv ?q" using Cons.prems(1) i by (intro oq_push_inv) auto
  then have "oq_inv (oq_push_all ?q fs) \<and> oq_lastIndexPop (oq_push_all ?q fs) = oq_lastIndexPop ?q
    \<and> oq_maxIndex (oq_push_all ?q fs) = oq_maxIndex ?q \<and> oq_capacity (oq_push_all ?q fs) = oq_capacity ?q
    \<and> fmlookup (oq_stock (oq_push_all ?q fs)) = fmlookup (oq_stock ?q) ++ map_of (rev fs)"
    using Cons.prems size last by (intro Cons.IH) auto
  moreover have "oq_push_all q (f # fs) = oq_push_all ?q fs" by (simp add: oq_push_all_def f)
  ultimately show ?case using last by (auto simp: stock f map_add_def fun_eq_iff split: option.split)
qed

lemma oq_push_pops:
  assumes "oq_inv q" "oq_lastIndexPop q \<noteq> -1" "oq_stock q = fmempty"
    and perm: "mset (map fst fs) = mset (map (oq_index q) [0..<n])"
    and "n \<le> oq_capacity q" "int n \<le> oq_maxIndex q"
  shows "\<exists>q'. oq_pops n (oq_push_all q fs) =
      Some (q', map (\<lambda>j. (oq_index q j, the (map_of fs (oq_index q j)))) [0..<n])
    \<and> oq_inv q' \<and> oq_stock q' = fmempty \<and> oq_maxIndex q' = oq_maxIndex q \<and> oq_capacity q' = oq_capacity q
    \<and> (0 < n \<longrightarrow> oq_lastIndexPop q' = oq_index q (n - 1))"
proof -
  let ?q = "oq_push_all q fs"
  have m: "0 < oq_maxIndex q" using assms(1) by (simp add: oq_inv_def)
  have set: "fst ` set fs = oq_index q ` {..<n}"
    using mset_eq_setD [OF perm] by (simp add: atLeast0LessThan)
  have len: "length fs = n" using mset_eq_length [OF perm] by simp
  have inj: "inj_on (oq_index q) {..<n}"
    using oq_dist_index [OF m] assms(6)
    by (intro inj_onI) (metis lessThan_iff of_nat_eq_iff of_nat_less_iff order_less_le_trans)
  have "distinct (map (oq_index q) [0..<n])"
    using inj by (simp add: distinct_map atLeast0LessThan)
  then have dist: "distinct (map fst fs)" using perm by (metis mset_eq_imp_distinct_iff)
  have "\<forall>i \<in> fst ` set fs. 0 \<le> i \<and> i < oq_maxIndex q"
    unfolding set using m by (auto simp: oq_index_def)
  then have spec: "oq_inv ?q" "oq_lastIndexPop ?q = oq_lastIndexPop q" "oq_maxIndex ?q = oq_maxIndex q"
    "fmlookup (oq_stock ?q) = fmlookup (oq_stock q) ++ map_of (rev fs)" "oq_capacity ?q = oq_capacity q"
    using oq_push_all_spec [of q fs] assms len by auto
  have look: "fmlookup (oq_stock ?q) = map_of fs"
    using spec(4) assms(3) map_of_rev_distinct [OF dist] by (simp add: map_add_def fun_eq_iff split: option.split)
  have ix: "oq_index ?q = oq_index q" using spec by (simp add: oq_index_def fun_eq_iff)
  have "fset (fmdom (oq_stock ?q)) = oq_index ?q ` {..<n}"
    unfolding fmdom.rep_eq fmdom'_alt_def [symmetric] ix set [symmetric]
    using look by (simp add: dom_map_of_conv_image_fst)
  then show ?thesis
    using oq_pops_gapless [OF spec(1), of n] assms(6) spec(3,5) by (simp add: ix look)
qed

subsection \<open>Properties\<close>

text \<open>C19: frames that arrive in any order come out in index order. Whatever permutation of the
  next \<open>n\<close> consecutive indices (modulo \<open>maxIndex\<close>) is pushed into a drained queue with room for
  them, \<open>n\<close> pops return exactly these frames, in increasing index order, and drain the queue.\<close>

theorem oq_reorders:
  assumes "oq_inv q" "oq_lastIndexPop q \<noteq> -1" "oq_stock q = fmempty"
    and "mset (map fst fs) = mset (map (oq_index q) [0..<n])"
    and "n \<le> oq_capacity q" "int n \<le> oq_maxIndex q"
  shows "\<exists>q'. oq_pops n (oq_push_all q fs) =
      Some (q', map (\<lambda>j. (oq_index q j, the (map_of fs (oq_index q j)))) [0..<n])
    \<and> oq_stock q' = fmempty"
  using oq_push_pops [OF assms] by blast

theorem oq_reorders_witness:
  "\<exists>q'. oq_pops 2 (oq_push_all ((OrderedQueue_init 5000 40)\<lparr>oq_lastIndexPop := 4998\<rparr>)
        [(0, \<lparr>oqd_buf = [2], oqd_capture_timestamp = 7\<rparr>),
         (4999, \<lparr>oqd_buf = [1], oqd_capture_timestamp = 9\<rparr>)]) =
      Some (q', [(4999, \<lparr>oqd_buf = [1], oqd_capture_timestamp = 9\<rparr>),
                 (0, \<lparr>oqd_buf = [2], oqd_capture_timestamp = 7\<rparr>)])
    \<and> oq_stock q' = fmempty"
  using oq_reorders [of "(OrderedQueue_init 5000 40)\<lparr>oq_lastIndexPop := 4998\<rparr>"
      "[(0, \<lparr>oqd_buf = [2], oqd_capture_timestamp = 7\<rparr>),
        (4999, \<lparr>oqd_buf = [1], oqd_capture_timestamp = 9\<rparr>)]" 2]
  by (simp add: OrderedQueue_init_def oq_inv_def oq_index_def upt_rec numeral_2_eq_2)

text \<open>On a well-formed queue \<open>pop\<close> always returns. It returns the stored frame that comes up
  first after the last popped one, when that is the next index or the buffer is full; otherwise
  the buffer is empty or still waits for the missing next frame, and nothing changes.\<close>

theorem oq_pop_spec:
  assumes "oq_inv q"
  shows "\<exists>q' d r. oq_pop q = Some (q', d, r) \<and>
    (case r of
       Some k \<Rightarrow> oq_first q k \<and> fmlookup (oq_stock q) k = Some d \<and> q' = oq_popped q k
                 \<and> (oq_dist q k = 0 \<or> oq_capacity q \<le> oq_size q)
     | None \<Rightarrow> q' = q \<and> d = oqd_default
                 \<and> (oq_size q = 0 \<or> oq_size q < oq_capacity q \<and> (\<forall>k. oq_first q k \<longrightarrow> oq_dist q k \<noteq> 0)))"
  using assms by (cases rule: oq_pop_cases) (auto simp: not_less)

theorem oq_pop_spec_witness:
  "\<exists>q'. oq_pop (oq_push (OrderedQueue_init 5000 1) 12 [7] 3)
     = Some (q', \<lparr>oqd_buf = [7], oqd_capture_timestamp = 3\<rparr>, Some 12)"
proof -
  let ?q = "oq_push (OrderedQueue_init 5000 1) 12 [7] 3"
  have stock: "oq_stock ?q = fmupd 12 \<lparr>oqd_buf = [7], oqd_capture_timestamp = 3\<rparr> fmempty"
    by (simp add: oq_push_stock OrderedQueue_init_def crem_nonneg)
  have inv: "oq_inv ?q" by (intro jb.push_inv oq_init_inv) simp_all
  have cap: "oq_capacity ?q = 1" by (simp add: OrderedQueue_init_def)
  show ?thesis
    using oq_pop_spec [OF inv] cap unfolding stock
    by (auto simp: fcard_finsert_if split: option.splits if_splits)
qed

subsection \<open>Reachable queues\<close>

text \<open>Every queue the program can hold: built by the constructor, then any sequence of pushes of
  frame numbers (never negative) and pops.\<close>

inductive oq_reachable :: "int \<Rightarrow> nat \<Rightarrow> OrderedQueue \<Rightarrow> bool" for m c where
  start: "oq_reachable m c (OrderedQueue_init m c)"
| pushed: "oq_reachable m c q \<Longrightarrow> 0 \<le> i \<Longrightarrow> oq_reachable m c (oq_push q i b ts)"
| pop: "oq_reachable m c q \<Longrightarrow> oq_pop q = Some (q', d, r) \<Longrightarrow> oq_reachable m c q'"

lemma oq_reachable_inv:
  assumes "oq_reachable m c q" "0 < m"
  shows "oq_inv q \<and> oq_maxIndex q = m \<and> oq_capacity q = c"
  using assms
proof (induction rule: oq_reachable.induct)
  case start
  then show ?case using oq_init_inv by (simp add: OrderedQueue_init_def)
next
  case (pushed q i b ts)
  then show ?case by (auto intro: jb.push_inv)
next
  case (pop q q' d r)
  then have inv: "oq_inv q" by simp
  then have "oq_inv q'" using pop jb.pop_inv by blast
  moreover have "oq_maxIndex q' = m \<and> oq_capacity q' = c"
    using pop by (cases rule: oq_pop_cases [OF inv]) auto
  ultimately show ?case by simp
qed

text \<open>C20: in every reachable queue the stock never exceeds the configured capacity, every stored
  index lies in \<open>[0, maxIndex)\<close>, and a full queue with room for at least one frame always
  delivers a frame: a lost frame cannot block the stream for ever.\<close>

theorem oq_reachable_bounded_and_live:
  assumes "oq_reachable m c q" "0 < m"
  shows "oq_size q \<le> c \<and> (\<forall>k. k |\<in>| fmdom (oq_stock q) \<longrightarrow> 0 \<le> k \<and> k < m)
    \<and> (0 < c \<and> oq_size q = c \<longrightarrow> (\<exists>q' d k. oq_pop q = Some (q', d, Some k)))"
proof -
  have inv: "oq_inv q" "oq_maxIndex q = m" "oq_capacity q = c"
    using oq_reachable_inv [OF assms] by auto
  have "\<exists>q' d k. oq_pop q = Some (q', d, Some k)" if "0 < c" "oq_size q = c"
    using that oq_first_ex [of q] oq_pop_first [OF inv(1)] inv(3) by (metis less_irrefl)
  then show ?thesis using inv by (auto simp: oq_inv_def)
qed

theorem oq_reachable_bounded_and_live_witness:
  "oq_size (oq_push (OrderedQueue_init 5000 1) 12 [7] 0) \<le> 1
   \<and> (\<exists>q' d k. oq_pop (oq_push (OrderedQueue_init 5000 1) 12 [7] 0) = Some (q', d, Some k))"
proof -
  have "oq_reachable 5000 1 (oq_push (OrderedQueue_init 5000 1) 12 [7] 0)"
    by (intro oq_reachable.intros) simp
  moreover have "oq_size (oq_push (OrderedQueue_init 5000 1) 12 [7] 0) = 1"
    by (simp add: oq_push_stock OrderedQueue_init_def fcard_finsert_if)
  ultimately show ?thesis using oq_reachable_bounded_and_live [of 5000 1] by auto
qed

end
