(* ===== verification/AVTInput.thy ===== *)
theory AVTInput
  imports OrderedQueue Sockets
begin

text \<open>
  Model of \<open>src/AVTInput.h\<close> and \<open>src/AVTInput.cpp\<close>: the connection to the AVT encoder. It
  receives UDP (optionally RTP) packets carrying STI frames, extracts the 24 ms DAB frame, pushes
  it into the jitter buffer, assembles five frames into a superframe, answers PAD requests and
  sends the control message. The answers of the sockets are scripts in the state (\<open>w_frames\<close>,
  \<open>w_pad\<close>, \<open>w_sendres\<close>), what the program sent is a log (\<open>w_sent\<close>); the script of the frame
  socket also holds the clock reading taken after each receive. Reads and writes outside a buffer
  are the error \<open>OutOfBounds\<close>. Prints are not modelled.
\<close>

unbundle bit_operations_syntax

subsection \<open>Constants and state\<close>

definition MAX_AVT_FRAME_SIZE :: nat where "MAX_AVT_FRAME_SIZE = 1500"
definition MAX_QUEUE_SIZE :: int where "MAX_QUEUE_SIZE = 5000"
definition MAX_PAD_FRAME_QUEUE_SIZE :: nat where "MAX_PAD_FRAME_QUEUE_SIZE = 6"

definition STI_FSync0 :: bytes where "STI_FSync0 = [0x1F, 0x90, 0xCA]"
definition STI_FSync1 :: bytes where "STI_FSync1 = [0xE0, 0x6F, 0x35]"

definition AVT_Mono :: int where "AVT_Mono = 0"
definition AVT_Mono_SBR :: int where "AVT_Mono_SBR = 1"
definition AVT_Stereo :: int where "AVT_Stereo = 2"
definition AVT_Stereo_SBR :: int where "AVT_Stereo_SBR = 3"
definition AVT_Stereo_SBR_PS :: int where "AVT_Stereo_SBR_PS = 4"
definition AVT_DAC_32 :: int where "AVT_DAC_32 = 0"
definition AVT_DAC_48 :: int where "AVT_DAC_48 = 1"

datatype frameType = typeSTI | typeSTIRTP | typeCantExtract

datatype avt_socket = OutputSocket | PadSocket

record AVTInput =
  avt_input_uri :: string
  avt_output_uri :: string
  avt_pad_port :: u32
  avt_jitterBufferSize :: nat
  avt_input_socket :: UDPSocket
  avt_input_pad_socket :: UDPSocket
  avt_output_packet :: UDPPacket
  avt_pad_packet :: UDPPacket
  avt_ordered :: OrderedQueue
  avt_padFrameQueue :: "bytes list"
  avt_subChannelIndex :: int
  avt_bitRate :: int
  avt_audioMode :: int
  avt_monoMode :: int
  avt_dac :: int
  avt_dab24msFrameSize :: nat
  avt_frameAligned :: bool
  avt_currentFrame :: bytes
  avt_nbFrames :: int
  avt_expectedFrameIndex :: int
  avt_previousRtpIndex :: int
  avt_frameZeroTimestamp :: timestamp_t
  avt_currentFrameSize :: nat
  avt_lastInfoFrameType :: frameType
  avt_lastInfoSize :: nat
  avt_infoNbFrame :: nat
  w_fds :: fdtable
  w_frames :: "(recv_result \<times> timestamp_t) list"
  w_pad :: "recv_result list"
  w_sendres :: "errno option list"
  w_sent :: "(avt_socket \<times> UDPPacket) list"

text \<open>The constructor; \<open>DEF_BR\<close> is 64. The sockets are created unbound by their constructors.\<close>

definition AVTInput_init :: "string \<Rightarrow> string \<Rightarrow> u32 \<Rightarrow> nat \<Rightarrow> AVTInput" where
  "AVTInput_init input_uri output_uri pad_port jitterBufferSize =
     \<lparr>avt_input_uri = input_uri, avt_output_uri = output_uri, avt_pad_port = pad_port,
      avt_jitterBufferSize = jitterBufferSize,
      avt_input_socket = \<lparr>us_sock = 3, us_port = 0\<rparr>,
      avt_input_pad_socket = \<lparr>us_sock = 4, us_port = 0\<rparr>,
      avt_output_packet = UDPPacket_init 2048, avt_pad_packet = UDPPacket_init 2048,
      avt_ordered = OrderedQueue_init MAX_QUEUE_SIZE jitterBufferSize,
      avt_padFrameQueue = [], avt_subChannelIndex = 64 div 8, avt_bitRate = 64 * 1000,
      avt_audioMode = AVT_Mono, avt_monoMode = 0, avt_dac = AVT_DAC_48,
      avt_dab24msFrameSize = 64 * 3, avt_frameAligned = False, avt_currentFrame = [],
      avt_nbFrames = 0, avt_expectedFrameIndex = 0, avt_previousRtpIndex = -1,
      avt_frameZeroTimestamp = 0, avt_currentFrameSize = 0,
      avt_lastInfoFrameType = typeCantExtract, avt_lastInfoSize = 0, avt_infoNbFrame = 0,
      w_fds = {3, 4}, w_frames = [], w_pad = [], w_sendres = [], w_sent = []\<rparr>"

subsection \<open>Addresses\<close>

definition LONG_MAX :: int where "LONG_MAX = 2 ^ 63 - 1"
definition LONG_MIN :: int where "LONG_MIN = - (2 ^ 63)"

text \<open>\<open>strtol(s, NULL, 10)\<close> of the C library: white space, a sign, digits, saturation.\<close>

definition strtol :: "string \<Rightarrow> int" where
  "strtol s =
     (let s1 = dropWhile is_space s;
          neg = (s1 \<noteq> [] \<and> hd s1 = CHR ''-'');
          s2 = (if s1 \<noteq> [] \<and> (hd s1 = CHR ''-'' \<or> hd s1 = CHR ''+'') then tl s1 else s1);
          v = int (digits_val (takeWhile is_digit s2));
          w = (if neg then - v else v)
      in max LONG_MIN (min LONG_MAX w))"

definition parseURI :: "string \<Rightarrow> (string \<times> int) option" where
  "parseURI uri =
     (let address = (if take 6 uri = ''udp://'' then drop 6 uri else uri)
      in if CHR '':'' \<notin> set address then None
         else
           (let pos = length (takeWhile (\<lambda>c. c \<noteq> CHR '':'') address);
                port = strtol (drop (pos + 1) address)
            in if port = LONG_MIN \<or> port = LONG_MAX then None
               else if port \<le> 0 \<or> port \<ge> 65536 then None
               else Some (take pos address, port)))"

text \<open>What the operating system answers while the sockets are opened.\<close>

record net_env =
  ne_bind :: "int \<Rightarrow> bind_env"
  ne_group :: "string \<Rightarrow> bool \<times> bool \<times> bool"
  ne_nonblock_ok :: bool
  ne_resolve :: "string \<Rightarrow> int \<Rightarrow> int \<times> InetAddress list"

definition openSocketSrv ::
  "net_env \<Rightarrow> UDPSocket \<Rightarrow> string \<Rightarrow> fdtable \<Rightarrow> exn + int \<times> UDPSocket \<times> fdtable" where
  "openSocketSrv env socket uri fds =
     (case parseURI uri of
        None \<Rightarrow> Inr (-1, socket, fds)
      | Some (address, port) \<Rightarrow>
          (case udp_reinit socket port (ne_bind env port) fds of
             (Some e, _, _) \<Rightarrow> Inl e
           | (None, socket', fds') \<Rightarrow>
               (case (if address \<noteq> []
                      then (case ne_group env address of (g, mc, so) \<Rightarrow> udp_joinGroup g mc so)
                      else None) of
                  Some e \<Rightarrow> Inl e
                | None \<Rightarrow> if ne_nonblock_ok env then Inr (0, socket', fds') else Inl RuntimeError)))"

definition openSocketCli :: "net_env \<Rightarrow> AVTInput \<Rightarrow> exn + int \<times> AVTInput" where
  "openSocketCli env a =
     (case parseURI (avt_output_uri a) of
        None \<Rightarrow> Inr (-1, a)
      | Some (address, port) \<Rightarrow>
          (case resolveUdpDestination (fst (ne_resolve env address port))
                  (snd (ne_resolve env address port)) of
             Inl e \<Rightarrow> Inl e
           | Inr addr \<Rightarrow>
               Inr (0, a\<lparr>avt_output_packet := (avt_output_packet a)\<lparr>pkt_address := addr\<rparr>\<rparr>)))"

subsection \<open>PAD requests\<close>

definition sendPADFrame :: "AVTInput \<Rightarrow> exn + AVTInput" where
  "sendPADFrame a =
     (case avt_padFrameQueue a of
        [] \<Rightarrow> Inr a
      | frame # rest \<Rightarrow>
          (let buf = [0xFD, 0x18, of_nat (length frame + 2), 0xAD, of_nat (length frame)];
               pkt = (avt_pad_packet a)\<lparr>pkt_buffer := buf @ frame\<rparr>;
               (ret, res) = next_send (w_sendres a);
               a' = a\<lparr>avt_padFrameQueue := rest, avt_pad_packet := pkt, w_sendres := res\<rparr>
           in (case udp_send ret of
                 Inl e \<Rightarrow> Inl e
               | Inr _ \<Rightarrow> Inr (if ret = None then a'\<lparr>w_sent := w_sent a @ [(PadSocket, pkt)]\<rparr>
                              else a'))))"

definition interpretMessage :: "AVTInput \<Rightarrow> bytes \<Rightarrow> exn + AVTInput" where
  "interpretMessage a data =
     (if length data \<ge> 2 \<and> data ! 0 = 0xFD \<and> data ! 1 = 0x17 then sendPADFrame a else Inr a)"

definition checkMessage :: "AVTInput \<Rightarrow> exn + bool \<times> AVTInput" where
  "checkMessage a =
     (let (r, rest) = next_recv (w_pad a) in
      case udp_receive 2048 r of
        Inl e \<Rightarrow> Inl e
      | Inr pkt \<Rightarrow>
          (let a' = a\<lparr>w_pad := rest, avt_pad_packet := pkt\<rparr>
           in if pkt_buffer pkt = [] then Inr (False, a')
              else (case interpretMessage a' (pkt_buffer pkt) of
                      Inl e \<Rightarrow> Inl e | Inr a'' \<Rightarrow> Inr (True, a''))))"

text \<open>The do-while loop of \<open>_purgeMessages\<close>, over the answers still to come.\<close>

fun purge_loop :: "recv_result list \<Rightarrow> exn + UDPPacket \<times> recv_result list" where
  "purge_loop [] = Inr (UDPPacket_init 0, [])"
| "purge_loop (r # rest) =
     (case udp_receive 2048 r of
        Inl e \<Rightarrow> Inl e
      | Inr pkt \<Rightarrow> if pkt_buffer pkt \<noteq> [] then purge_loop rest else Inr (pkt, rest))"

definition purgeMessages :: "AVTInput \<Rightarrow> exn + AVTInput" where
  "purgeMessages a =
     (case purge_loop (w_pad a) of
        Inl e \<Rightarrow> Inl e
      | Inr (pkt, rest) \<Rightarrow> Inr (a\<lparr>avt_pad_packet := pkt, w_pad := rest\<rparr>))"

definition pushPADFrame :: "AVTInput \<Rightarrow> bytes \<Rightarrow> AVTInput" where
  "pushPADFrame a buf =
     (if avt_pad_port a = 0 then a
      else if length buf > 0
           then a\<lparr>avt_padFrameQueue := avt_padFrameQueue a @ [rev buf]\<rparr>
           else a)"

definition padQueueFull :: "AVTInput \<Rightarrow> bool" where
  "padQueueFull a = (length (avt_padFrameQueue a) \<ge> MAX_PAD_FRAME_QUEUE_SIZE)"

subsection \<open>Opening the input and setting the encoder parameters\<close>

definition prepare :: "net_env \<Rightarrow> AVTInput \<Rightarrow> exn + int \<times> AVTInput" where
  "prepare env a0 =
     (case openSocketSrv env (avt_input_socket a0) (avt_input_uri a0) (w_fds a0) of
        Inl e \<Rightarrow> Inl e
      | Inr (ret1, s1, fds1) \<Rightarrow>
          (let a1 = a0\<lparr>avt_input_socket := s1, w_fds := fds1\<rparr> in
           case (if ret1 = 0 \<and> avt_output_uri a1 \<noteq> [] then openSocketCli env a1
                 else Inr (ret1, a1)) of
             Inl e \<Rightarrow> Inl e
           | Inr (ret2, a2) \<Rightarrow>
               if ret2 = 0 \<and> avt_pad_port a2 > 0 then
                 (case openSocketSrv env (avt_input_pad_socket a2)
                         (''udp://:'' @ dec_nat (unat (avt_pad_port a2))) (w_fds a2) of
                    Inl e \<Rightarrow> Inl e
                  | Inr (ret3, s3, fds3) \<Rightarrow>
                      (case purgeMessages (a2\<lparr>avt_input_pad_socket := s3, w_fds := fds3\<rparr>) of
                         Inl e \<Rightarrow> Inl e | Inr a3 \<Rightarrow> Inr (ret3, a3)))
               else Inr (ret2, a2)))"

definition sendCtrlMessage :: "AVTInput \<Rightarrow> exn + AVTInput" where
  "sendCtrlMessage a =
     (if avt_output_uri a \<noteq> [] then
        (let buf = [0xFD, 0x07, word_of_int (avt_subChannelIndex a), word_of_int (avt_audioMode a),
                    word_of_int (avt_dac a), word_of_int (avt_monoMode a)];
             pkt = (avt_output_packet a)\<lparr>pkt_buffer := buf\<rparr>;
             (ret, res) = next_send (w_sendres a);
             a' = a\<lparr>avt_output_packet := pkt, w_sendres := res\<rparr>
         in (case udp_send ret of
               Inl e \<Rightarrow> Inl e
             | Inr _ \<Rightarrow> Inr (if ret = None then a'\<lparr>w_sent := w_sent a @ [(OutputSocket, pkt)]\<rparr>
                            else a')))
      else Inr a)"

definition setDabPlusParameters ::
  "AVTInput \<Rightarrow> int \<Rightarrow> int \<Rightarrow> int \<Rightarrow> bool \<Rightarrow> bool \<Rightarrow> exn + int \<times> AVTInput" where
  "setDabPlusParameters a bitrate channels sample_rate sbr ps =
     (let a1 = a\<lparr>avt_subChannelIndex := cdiv bitrate 8, avt_bitRate := bitrate * 1000,
                 avt_dab24msFrameSize := to_size_t (bitrate * 3)\<rparr>;
          sub = avt_subChannelIndex a1
      in if sub * 8 \<noteq> bitrate \<or> sub < 1 \<or> sub > 24 then Inr (1, a1)
         else if sample_rate \<noteq> 48000 \<and> sample_rate \<noteq> 32000 then Inr (1, a1)
         else
           (let a2 = a1\<lparr>avt_dac := if sample_rate = 48000 then AVT_DAC_48 else AVT_DAC_32\<rparr>
            in if channels \<noteq> 1 \<and> channels \<noteq> 2 then Inr (1, a2)
               else
                 (let mode = (if channels = 1 then (if sbr then AVT_Mono_SBR else AVT_Mono)
                              else (if ps then AVT_Stereo_SBR_PS
                                    else if sbr then AVT_Stereo_SBR else AVT_Stereo));
                      a3 = a2\<lparr>avt_audioMode := mode,
                              avt_ordered := OrderedQueue_init MAX_QUEUE_SIZE (avt_jitterBufferSize a2),
                              avt_currentFrame := replicate (nat (sub * 8 * 5 * 3)) 0\<rparr>
                  in (case sendCtrlMessage a3 of Inl e \<Rightarrow> Inl e | Inr a4 \<Rightarrow> Inr (0, a4)))))"

subsection \<open>Finding the DAB frame in a packet\<close>

definition unpack2 :: "bytes \<Rightarrow> nat \<Rightarrow> u32" where
  "unpack2 buf i = push_bit 8 (ucast (buf ! i)) OR ucast (buf ! (i + 1))"

definition isSTI :: "bytes \<Rightarrow> nat \<Rightarrow> exn + bool" where
  "isSTI buf index =
     (if index + 3 < length buf
      then Inr (take 3 (drop (index + 1) buf) = STI_FSync0
                \<or> take 3 (drop (index + 1) buf) = STI_FSync1)
      else Inl OutOfBounds)"

text \<open>
  The part of \<open>_findDABFrameFromUDP\<close> after the STI header was recognised at \<open>index\<close>: the frame
  number, the data size and the offset of the data, or \<open>None\<close> when there is no stream.
  \<open>buf[index+3] & 0x80 >> 7\<close> is \<open>buf[index+3] & 1\<close>, as \<open>>>\<close> binds stronger than \<open>&\<close>.
\<close>

definition sti_fields :: "bytes \<Rightarrow> nat \<Rightarrow> exn + (int \<times> nat \<times> nat) option" where
  "sti_fields buf index =
     (let i = index + 4 + 2 + 2 + 5
      in if length buf \<le> i + 2 then Inl OutOfBounds
         else
           (let DFCTL = (ucast (buf ! i) :: u32);
                DFCTH = (ucast (drop_bit 3 (buf ! (i + 1))) :: u32);
                NST = unpack2 buf (i + 1) AND 0x7FF;
                j = i + 3
            in if NST \<ge> 1 then
                 (if length buf \<le> j + 3 then Inl OutOfBounds
                  else
                    (let STL = unpack2 buf j AND 0x1FFF;
                         CRCSTF = (ucast (buf ! (j + 3) AND drop_bit 7 0x80) :: u32);
                         off = j + unat NST * 4 + 4
                     in Inr (Some (sint (DFCTH * 250 + DFCTL), unat (STL - 2 * CRCSTF), off))))
               else Inr None))"

definition avt_info :: "frameType \<Rightarrow> nat \<Rightarrow> AVTInput \<Rightarrow> AVTInput" where
  "avt_info ty sz a =
     (let a1 = (if avt_lastInfoFrameType a \<noteq> ty \<or> avt_lastInfoSize a \<noteq> sz
                then a\<lparr>avt_lastInfoFrameType := ty, avt_lastInfoSize := sz\<rparr> else a)
      in if avt_lastInfoFrameType a1 \<noteq> typeCantExtract
         then a1\<lparr>avt_infoNbFrame := avt_infoNbFrame a1 + 1\<rparr> else a1)"

text \<open>Where the STI frame starts: at once, or after a 12-byte RTP header of payload type 34.\<close>

definition rtp_header :: "bytes \<Rightarrow> bool" where
  "rtp_header buf \<longleftrightarrow> length buf \<ge> 12
     \<and> drop_bit 6 (buf ! 0 AND 0xC0) = 2 \<and> buf ! 1 AND 0x7F = 34"

definition findDABFrameFromUDP ::
  "AVTInput \<Rightarrow> bytes \<Rightarrow> exn + (int \<times> nat \<times> nat) option \<times> AVTInput" where
  "findDABFrameFromUDP a buf =
     (case isSTI buf 0 of
        Inl e \<Rightarrow> Inl e
      | Inr sti \<Rightarrow>
          (let rtp = (\<not> sti \<and> rtp_header buf);
               a1 = (if rtp
                     then a\<lparr>avt_previousRtpIndex :=
                              uint (push_bit 8 (ucast (buf ! 2)) OR (ucast (buf ! 3) :: u16))\<rparr>
                     else a);
               index = (if rtp then 12 else 0)
           in case (if rtp then isSTI buf 12 else Inr sti) of
                Inl e \<Rightarrow> Inl e
              | Inr ok \<Rightarrow>
                  if \<not> ok then Inr (None, a1)
                  else
                    (case sti_fields buf index of
                       Inl e \<Rightarrow> Inl e
                     | Inr None \<Rightarrow> Inr (None, a1)
                     | Inr (Some (frameNumber, dataSize, off)) \<Rightarrow>
                         Inr (Some (frameNumber, dataSize, off),
                              avt_info (if rtp then typeSTIRTP else typeSTI) dataSize a1))))"

subsection \<open>Receiving frames\<close>

text \<open>\<open>_readFrame\<close> on a datagram \<open>buf\<close> that is not empty, received at \<open>ts\<close>, and as a whole.\<close>

definition readFrame_packet :: "AVTInput \<Rightarrow> bytes \<Rightarrow> timestamp_t \<Rightarrow> exn + bool \<times> AVTInput" where
  "readFrame_packet a buf ts =
     (case (if length buf > avt_dab24msFrameSize a then findDABFrameFromUDP a buf
            else Inr (None, a)) of
        Inl e \<Rightarrow> Inl e
      | Inr (None, a1) \<Rightarrow> Inr (True, avt_info typeCantExtract 0 a1)
      | Inr (Some (frameNumber, dataSize, off), a1) \<Rightarrow>
          if dataSize = avt_dab24msFrameSize a1 then
            (if length buf < off + dataSize then Inl OutOfBounds
             else Inr (True, a1\<lparr>avt_ordered :=
                    oq_push (avt_ordered a1) frameNumber (take dataSize (drop off buf)) ts\<rparr>))
          else Inr (True, a1))"

definition readFrame :: "AVTInput \<Rightarrow> exn + bool \<times> AVTInput" where
  "readFrame a =
     (let (r, ts, rest) = (case w_frames a of [] \<Rightarrow> (RecvError EAGAIN, 0, [])
                                            | (r, ts) # rest \<Rightarrow> (r, ts, rest)) in
      case udp_receive MAX_AVT_FRAME_SIZE r of
        Inl e \<Rightarrow> Inl e
      | Inr pkt \<Rightarrow>
          if pkt_buffer pkt = [] then Inr (False, a\<lparr>w_frames := rest\<rparr>)
          else readFrame_packet (a\<lparr>w_frames := rest\<rparr>) (pkt_buffer pkt) ts)"

subsection \<open>What the message handlers leave alone\<close>

text \<open>\<open>a'\<close> differs from \<open>a\<close> only in the PAD queue, the PAD packet and the traffic on the PAD socket.\<close>

definition pad_only :: "AVTInput \<Rightarrow> AVTInput \<Rightarrow> bool" where
  "pad_only a a' \<longleftrightarrow>
     a' = a\<lparr>avt_padFrameQueue := avt_padFrameQueue a', avt_pad_packet := avt_pad_packet a',
            w_pad := w_pad a', w_sendres := w_sendres a', w_sent := w_sent a'\<rparr>"

lemma pad_only_refl [simp]: "pad_only a a"
  by (simp add: pad_only_def)

lemma pad_only_trans: "pad_only a b \<Longrightarrow> pad_only b c \<Longrightarrow> pad_only a c"
  unfolding pad_only_def by (cases a, cases b, cases c) simp

lemma pad_only_same:
  assumes "pad_only a a'"
  shows "avt_ordered a' = avt_ordered a" "avt_dab24msFrameSize a' = avt_dab24msFrameSize a"
    "avt_currentFrame a' = avt_currentFrame a" "avt_currentFrameSize a' = avt_currentFrameSize a"
    "avt_nbFrames a' = avt_nbFrames a" "avt_frameAligned a' = avt_frameAligned a"
    "avt_frameZeroTimestamp a' = avt_frameZeroTimestamp a" "w_frames a' = w_frames a"
    "avt_expectedFrameIndex a' = avt_expectedFrameIndex a"
  using assms unfolding pad_only_def by (cases a, cases a', simp)+

lemma sendPADFrame_only:
  "sendPADFrame a = Inr a' \<Longrightarrow> pad_only a a' \<and> w_pad a' = w_pad a"
  by (auto simp: sendPADFrame_def pad_only_def Let_def
      split: list.splits prod.splits sum.splits if_splits)

lemma interpretMessage_only:
  "interpretMessage a d = Inr a' \<Longrightarrow> pad_only a a' \<and> w_pad a' = w_pad a"
  by (auto simp: interpretMessage_def dest: sendPADFrame_only split: if_splits)

lemma checkMessage_only:
  assumes "checkMessage a = Inr (b, a')"
  shows "pad_only a a' \<and> (b \<longrightarrow> length (w_pad a') < length (w_pad a))
    \<and> length (w_pad a') \<le> length (w_pad a)"
proof -
  obtain r rest where r: "next_recv (w_pad a) = (r, rest)" by (cases "next_recv (w_pad a)")
  obtain pkt where pkt: "udp_receive 2048 r = Inr pkt"
    using assms r by (auto simp: checkMessage_def split: sum.splits)
  let ?a = "a\<lparr>w_pad := rest, avt_pad_packet := pkt\<rparr>"
  have only: "pad_only a ?a" by (simp add: pad_only_def)
  show ?thesis
  proof (cases "pkt_buffer pkt = []")
    case True
    then have "a' = ?a" "\<not> b" using assms r pkt by (auto simp: checkMessage_def)
    then show ?thesis using only next_recv_length [OF r] by simp
  next
    case False
    then have "interpretMessage ?a (pkt_buffer pkt) = Inr a'" "b"
      using assms r pkt by (auto simp: checkMessage_def split: sum.splits)
    then have "pad_only ?a a' \<and> w_pad a' = rest" using interpretMessage_only by fastforce
    then show ?thesis using only pad_only_trans next_recv_data [OF r pkt False] by force
  qed
qed

lemma avt_info_same [simp]:
  "avt_ordered (avt_info ty n a) = avt_ordered a"
  "avt_dab24msFrameSize (avt_info ty n a) = avt_dab24msFrameSize a"
  "avt_currentFrame (avt_info ty n a) = avt_currentFrame a"
  "avt_currentFrameSize (avt_info ty n a) = avt_currentFrameSize a"
  "avt_nbFrames (avt_info ty n a) = avt_nbFrames a"
  "avt_frameAligned (avt_info ty n a) = avt_frameAligned a"
  "w_frames (avt_info ty n a) = w_frames a" "w_pad (avt_info ty n a) = w_pad a"
  by (simp_all add: avt_info_def Let_def)

text \<open>Extraction changes only the RTP index and the statistics; its result depends on the packet alone.\<close>

definition sti_extract :: "bytes \<Rightarrow> exn + (int \<times> nat \<times> nat) option" where
  "sti_extract buf =
     (case findDABFrameFromUDP (AVTInput_init [] [] 0 0) buf of Inl e \<Rightarrow> Inl e | Inr (r, _) \<Rightarrow> Inr r)"

lemma findDAB_same:
  assumes "findDABFrameFromUDP a buf = Inr (r, a')"
  shows "avt_ordered a' = avt_ordered a \<and> avt_dab24msFrameSize a' = avt_dab24msFrameSize a
    \<and> avt_currentFrame a' = avt_currentFrame a \<and> avt_currentFrameSize a' = avt_currentFrameSize a
    \<and> avt_nbFrames a' = avt_nbFrames a \<and> avt_frameAligned a' = avt_frameAligned a
    \<and> w_frames a' = w_frames a \<and> w_pad a' = w_pad a"
  using assms
  by (auto simp: findDABFrameFromUDP_def Let_def split: sum.splits if_splits option.splits prod.splits)

lemma findDAB_extract:
  "(case findDABFrameFromUDP a buf of Inl e \<Rightarrow> Inl e | Inr (r, _) \<Rightarrow> Inr r) = sti_extract buf"
  unfolding sti_extract_def
  by (auto simp: findDABFrameFromUDP_def Let_def split: sum.splits option.splits prod.splits)

lemma readFrame_packet_cases:
  assumes "readFrame_packet a buf ts = Inr (b, a')"
  obtains (skip) a1 where "a' = avt_info typeCantExtract 0 a1" "b"
        "findDABFrameFromUDP a buf = Inr (None, a1) \<or> a1 = a"
    | (wrong) x where "findDABFrameFromUDP a buf = Inr (Some x, a')" "b"
    | (push) fn off a1 where "b"
        "findDABFrameFromUDP a buf = Inr (Some (fn, avt_dab24msFrameSize a, off), a1)"
        "off + avt_dab24msFrameSize a \<le> length buf"
        "a' = a1\<lparr>avt_ordered := oq_push (avt_ordered a1) fn
               (take (avt_dab24msFrameSize a) (drop off buf)) ts\<rparr>"
proof -
  obtain r a1 where x: "(if length buf > avt_dab24msFrameSize a then findDABFrameFromUDP a buf
      else Inr (None, a)) = Inr (r, a1)"
    using assms unfolding readFrame_packet_def by (cases rule: sum.exhaust) (auto split: sum.splits)
  show ?thesis
  proof (cases r)
    case None
    then have "findDABFrameFromUDP a buf = Inr (None, a1) \<or> a1 = a" using x by (simp split: if_splits)
    then show ?thesis
      using assms None unfolding readFrame_packet_def x by (intro skip [of a1]) simp_all
  next
    case (Some y)
    then have find: "findDABFrameFromUDP a buf = Inr (Some y, a1)" using x by (simp split: if_splits)
    obtain fn ds off where y: "y = (fn, ds, off)" by (cases y)
    have sz: "avt_dab24msFrameSize a1 = avt_dab24msFrameSize a" using findDAB_same [OF find] by simp
    have eq: "(if ds = avt_dab24msFrameSize a1 then
            (if length buf < off + ds then Inl OutOfBounds
             else Inr (True, a1\<lparr>avt_ordered := oq_push (avt_ordered a1) fn (take ds (drop off buf)) ts\<rparr>))
          else Inr (True, a1)) = Inr (b, a')"
      using assms unfolding readFrame_packet_def x Some y sum.case prod.case option.case .
    show ?thesis
    proof (cases "ds = avt_dab24msFrameSize a1")
      case True
      then show ?thesis using eq find y sz push [of fn off a1] by (simp split: if_splits)
    next
      case False
      then show ?thesis using eq find wrong [of y] by simp
    qed
  qed
qed

lemma readFrame_cases:
  assumes "readFrame a = Inr (b, a')"
  obtains (none) "a' = a\<lparr>w_frames := tl (w_frames a)\<rparr>" "\<not> b"
    | (packet) bs adr ts rest where "w_frames a = (RecvData bs adr, ts) # rest"
        "readFrame_packet (a\<lparr>w_frames := rest\<rparr>) (take MAX_AVT_FRAME_SIZE bs) ts = Inr (b, a')"
  using assms
  by (auto simp: readFrame_def udp_receive_def UDPPacket_init_def
      split: list.splits prod.splits sum.splits if_splits recv_result.splits)

lemma readFrame_lengths:
  assumes "readFrame a = Inr (b, a')"
  shows "w_pad a' = w_pad a \<and> length (w_frames a') \<le> length (w_frames a)
    \<and> (b \<longrightarrow> length (w_frames a') < length (w_frames a))"
  using assms
proof (cases rule: readFrame_cases)
  case (packet bs adr ts rest)
  from packet(2) show ?thesis
    by (cases rule: readFrame_packet_cases) (use packet(1) in \<open>auto dest: findDAB_same\<close>)
qed simp

subsection \<open>The receive loops\<close>

text \<open>\<open>while (_checkMessage() || _readFrame());\<close>\<close>

function receive_loop :: "AVTInput \<Rightarrow> exn + AVTInput" where
  "receive_loop a =
     (case checkMessage a of
        Inl e \<Rightarrow> Inl e
      | Inr (True, a') \<Rightarrow> receive_loop a'
      | Inr (False, a') \<Rightarrow>
          (case readFrame a' of
             Inl e \<Rightarrow> Inl e
           | Inr (True, a'') \<Rightarrow> receive_loop a''
           | Inr (False, a'') \<Rightarrow> Inr a''))"
  by pat_completeness auto
termination
proof (relation "measure (\<lambda>a. length (w_pad a) + length (w_frames a))", goal_cases)
  case 1
  show ?case by simp
next
  case (2 a p b a')
  then show ?case using checkMessage_only [of a True a'] pad_only_same(8) by fastforce
next
  case (3 a p b a' p' b' a'')
  then show ?case
    using checkMessage_only [of a False a'] pad_only_same(8) [of a a'] readFrame_lengths [of a' True a'']
    by fastforce
qed

text \<open>\<open>while (_checkMessage()) {};\<close>\<close>

function message_loop :: "AVTInput \<Rightarrow> exn + AVTInput" where
  "message_loop a =
     (case checkMessage a of
        Inl e \<Rightarrow> Inl e
      | Inr (True, a') \<Rightarrow> message_loop a'
      | Inr (False, a') \<Rightarrow> Inr a')"
  by pat_completeness auto
termination
  by (relation "measure (\<lambda>a. length (w_pad a))") (auto dest: checkMessage_only)

declare receive_loop.simps [simp del] message_loop.simps [simp del]

subsection \<open>Assembling superframes\<close>

text \<open>The two \<open>memcpy\<close> into \<open>_currentFrame\<close>, with the updates that follow them.\<close>

definition append_part :: "AVTInput \<Rightarrow> bytes \<Rightarrow> exn + AVTInput" where
  "append_part a part =
     (let n = avt_currentFrameSize a; cf = avt_currentFrame a
      in if length cf < n + length part then Inl OutOfBounds
         else Inr (a\<lparr>avt_currentFrame := take n cf @ part @ drop (n + length part) cf,
                     avt_currentFrameSize := n + length part,
                     avt_nbFrames := avt_nbFrames a + 1\<rparr>))"

text \<open>The body of the assembly loop after a non-empty pop: align, append, or reset.\<close>

definition superframe_part :: "AVTInput \<Rightarrow> int \<Rightarrow> OrderedQueueData \<Rightarrow> exn + AVTInput" where
  "superframe_part a returnedIndex d =
     (if \<not> avt_frameAligned a then
        (if crem returnedIndex 5 = 0 then
           (case append_part (a\<lparr>avt_frameAligned := True,
                                avt_frameZeroTimestamp := oqd_capture_timestamp d\<rparr>) (oqd_buf d) of
              Inl e \<Rightarrow> Inl e
            | Inr a' \<Rightarrow> Inr (a'\<lparr>avt_expectedFrameIndex := crem (returnedIndex + 1) MAX_QUEUE_SIZE\<rparr>))
         else Inr a)
      else
        (if crem returnedIndex 5 = avt_nbFrames a then
           (case append_part a (oqd_buf d) of
              Inl e \<Rightarrow> Inl e
            | Inr a' \<Rightarrow>
                Inr (a'\<lparr>avt_frameZeroTimestamp := avt_frameZeroTimestamp a' + 24 * 1000000,
                        avt_expectedFrameIndex := crem (returnedIndex + 1) MAX_QUEUE_SIZE\<rparr>))
         else Inr (a\<lparr>avt_nbFrames := 0, avt_currentFrameSize := 0, avt_frameAligned := False,
                     avt_expectedFrameIndex := 0\<rparr>)))"

lemma superframe_part_ordered: "superframe_part a k d = Inr a' \<Longrightarrow> avt_ordered a' = avt_ordered a"
  by (auto simp: superframe_part_def append_part_def Let_def split: if_splits)

lemma message_loop_only: "message_loop a = Inr a' \<Longrightarrow> pad_only a a'"
proof (induction a arbitrary: a' rule: message_loop.induct)
  case (1 a)
  obtain b c where c: "checkMessage a = Inr (b, c)"
    using 1(2) by (subst (asm) message_loop.simps) (auto split: sum.splits)
  then have only: "pad_only a c" using checkMessage_only by blast
  show ?case
  proof (cases b)
    case True
    then have "message_loop c = Inr a'" using 1(2) c by (subst (asm) message_loop.simps) simp
    then show ?thesis using 1(1) [OF c] True only pad_only_trans by blast
  next
    case False
    then show ?thesis using 1(2) c only by (subst (asm) message_loop.simps) simp
  qed
qed

text \<open>\<open>while (_nbFrames < 5)\<close>; \<open>None\<close> stands for a pop that never returns.\<close>

function assemble_loop :: "int \<Rightarrow> AVTInput \<Rightarrow> (exn + AVTInput) option" where
  "assemble_loop returnedIndex a =
     (if avt_nbFrames a < 5 then
        (case oq_pop (avt_ordered a) of
           None \<Rightarrow> None
         | Some (q, d, r) \<Rightarrow>
             (let a1 = a\<lparr>avt_ordered := q\<rparr>;
                  ri = (case r of Some k \<Rightarrow> k | None \<Rightarrow> returnedIndex)
              in if oqd_buf d = [] then Some (Inr a1)
                 else (case message_loop a1 of
                         Inl e \<Rightarrow> Some (Inl e)
                       | Inr a2 \<Rightarrow>
                           (case superframe_part a2 ri d of
                              Inl e \<Rightarrow> Some (Inl e)
                            | Inr a3 \<Rightarrow> assemble_loop ri a3))))
      else Some (Inr a))"
  by pat_completeness auto
termination
proof (relation "measure (\<lambda>(_, a). oq_size (avt_ordered a))", goal_cases)
  case 1
  show ?case by simp
next
  case (2 ri a p q y d r a1 ri' a2 a3)
  then have "oq_pop (avt_ordered a) = Some (q, d, r)" "oqd_buf d \<noteq> []" by simp_all
  then obtain k where "k |\<in>| fmdom (oq_stock (avt_ordered a))" "q = oq_popped (avt_ordered a) k"
    using oq_pop_result [of "avt_ordered a" q d r] by (auto simp: oqd_default_def fmlookup_dom_iff)
  then have "oq_size q < oq_size (avt_ordered a)" using oq_popped_size by simp
  moreover have "avt_ordered a3 = q"
    using 2 superframe_part_ordered message_loop_only pad_only_same(1) by fastforce
  ultimately show ?case by simp
qed

declare assemble_loop.simps [simp del]

text \<open>
  \<open>getNextFrame(buf, ts)\<close>: the result is the new contents of \<open>buf\<close>, the value of \<open>ts\<close> if it
  was written, and the number of bytes.
\<close>

definition getNextFrame ::
  "AVTInput \<Rightarrow> bytes \<Rightarrow> (exn + bytes \<times> timestamp_t option \<times> nat \<times> AVTInput) option" where
  "getNextFrame a buf =
     (case receive_loop a of
        Inl e \<Rightarrow> Some (Inl e)
      | Inr a1 \<Rightarrow>
          (case assemble_loop (-1) a1 of
             None \<Rightarrow> None
           | Some (Inl e) \<Rightarrow> Some (Inl e)
           | Some (Inr a2) \<Rightarrow>
               (let n = avt_currentFrameSize a2
                in if avt_nbFrames a2 = 5 \<and> n \<le> length buf then
                     (if length (avt_currentFrame a2) < n then Some (Inl OutOfBounds)
                      else Some (Inr (take n (avt_currentFrame a2) @ drop n buf,
                                      Some (avt_frameZeroTimestamp a2), n,
                                      a2\<lparr>avt_currentFrameSize := 0, avt_nbFrames := 0\<rparr>)))
                   else Some (Inr (buf, None, 0, a2)))))"

subsection \<open>The assembly invariant\<close>

text \<open>The frames of size \<open>sz\<close> that the datagrams of a script carry, with their queue index.\<close>

definition avt_frames :: "nat \<Rightarrow> (recv_result \<times> timestamp_t) list \<Rightarrow> (int \<times> bytes) set" where
  "avt_frames sz script =
     {(fn mod MAX_QUEUE_SIZE, take sz (drop off (take MAX_AVT_FRAME_SIZE bs))) | fn off bs adr ts.
        (RecvData bs adr, ts) \<in> set script
        \<and> sti_extract (take MAX_AVT_FRAME_SIZE bs) = Inr (Some (fn, sz, off))
        \<and> off + sz \<le> length (take MAX_AVT_FRAME_SIZE bs)}"

text \<open>Part number \<open>i\<close> of a superframe is a frame of \<open>F\<close> whose index is \<open>i\<close> modulo 5.\<close>

definition superframe_of :: "(int \<times> bytes) set \<Rightarrow> nat \<Rightarrow> bytes list \<Rightarrow> bool" where
  "superframe_of F sz parts \<longleftrightarrow>
     (\<forall>i < length parts. length (parts ! i) = sz \<and> (\<exists>k. (k, parts ! i) \<in> F \<and> k mod 5 = int i))"

text \<open>What the assembler holds: a prefix of a superframe, in a buffer with room for all of it.\<close>

definition avt_partial :: "(int \<times> bytes) set \<Rightarrow> AVTInput \<Rightarrow> bytes list \<Rightarrow> bool" where
  "avt_partial F a parts \<longleftrightarrow>
     superframe_of F (avt_dab24msFrameSize a) parts \<and> length parts \<le> 5
     \<and> avt_nbFrames a = int (length parts)
     \<and> avt_currentFrameSize a = length parts * avt_dab24msFrameSize a
     \<and> take (avt_currentFrameSize a) (avt_currentFrame a) = concat parts
     \<and> (\<not> avt_frameAligned a \<longrightarrow> parts = [])"

definition avt_inv :: "(int \<times> bytes) set \<Rightarrow> AVTInput \<Rightarrow> bool" where
  "avt_inv F a \<longleftrightarrow>
     oq_inv (avt_ordered a) \<and> oq_maxIndex (avt_ordered a) = MAX_QUEUE_SIZE
     \<and> (\<forall>(k, d) \<in> oq_contents (avt_ordered a).
          (k, oqd_buf d) \<in> F \<and> length (oqd_buf d) = avt_dab24msFrameSize a)
     \<and> 0 < avt_dab24msFrameSize a
     \<and> length (avt_currentFrame a) = 5 * avt_dab24msFrameSize a
     \<and> (\<exists>parts. avt_partial F a parts)"

lemma avt_inv_pad_only: "pad_only a a' \<Longrightarrow> avt_inv F a \<Longrightarrow> avt_inv F a'"
  using pad_only_same [of a a'] unfolding avt_inv_def avt_partial_def by simp

lemma superframe_of_length:
  "superframe_of F sz parts \<Longrightarrow> length (concat parts) = length parts * sz"
  by (induction parts rule: rev_induct)
     (force simp: superframe_of_def nth_append less_Suc_eq)+

lemma superframe_of_snoc:
  assumes "superframe_of F sz parts" "(k, p) \<in> F" "k mod 5 = int (length parts)" "length p = sz"
  shows "superframe_of F sz (parts @ [p])"
  using assms by (auto simp: superframe_of_def nth_append less_Suc_eq)

lemma append_part_ok:
  assumes inv: "avt_inv F a" and parts: "avt_partial F a parts" "length parts < 5"
    and p: "(k, p) \<in> F" "k mod 5 = int (length parts)" "length p = avt_dab24msFrameSize a"
  shows "\<exists>a'. append_part a p = Inr a' \<and> avt_ordered a' = avt_ordered a
    \<and> avt_dab24msFrameSize a' = avt_dab24msFrameSize a
    \<and> length (avt_currentFrame a') = length (avt_currentFrame a)
    \<and> avt_partial F (a'\<lparr>avt_frameAligned := True\<rparr>) (parts @ [p])
    \<and> avt_frameAligned a' = avt_frameAligned a"
proof -
  let ?n = "avt_currentFrameSize a" and ?sz = "avt_dab24msFrameSize a"
  have n: "?n = length parts * ?sz" and tk: "take ?n (avt_currentFrame a) = concat parts"
    using parts(1) unfolding avt_partial_def by blast+
  have "Suc (length parts) * ?sz \<le> 5 * ?sz" using parts(2) by (intro mult_right_mono) auto
  then have room: "?n + length p \<le> length (avt_currentFrame a)"
    using inv n p(3) by (simp add: avt_inv_def)
  moreover have cl: "length (concat parts) = ?n"
    using room unfolding tk [symmetric] by simp
  moreover have "take (?n + length p) (take ?n (avt_currentFrame a) @ p @ drop (?n + length p)
      (avt_currentFrame a)) = concat (parts @ [p])"
    unfolding tk using cl by (simp del: length_concat)
  moreover have "superframe_of F ?sz (parts @ [p])"
    using parts p by (intro superframe_of_snoc) (auto simp: avt_partial_def)
  ultimately show ?thesis
    using parts p(3) n by (simp add: append_part_def Let_def avt_partial_def)
qed

lemma superframe_part_inv:
  assumes inv: "avt_inv F a" and more: "avt_nbFrames a < 5"
    and part: "(k, oqd_buf d) \<in> F" "0 \<le> k" "length (oqd_buf d) = avt_dab24msFrameSize a"
  shows "\<exists>a'. superframe_part a k d = Inr a' \<and> avt_inv F a'"
proof -
  obtain parts where parts: "avt_partial F a parts" using inv by (auto simp: avt_inv_def)
  have len: "length parts < 5" using parts more by (simp add: avt_partial_def)
  have k: "crem k 5 = k mod 5" using part(2) by (simp add: crem_nonneg)
  show ?thesis
  proof (cases "k mod 5 = int (length parts)")
    case True
    let ?a = "if avt_frameAligned a then a
              else a\<lparr>avt_frameAligned := True, avt_frameZeroTimestamp := oqd_capture_timestamp d\<rparr>"
    have "avt_inv F ?a" "avt_partial F ?a parts"
      using inv parts by (auto simp: avt_inv_def avt_partial_def)
    moreover have same: "avt_ordered ?a = avt_ordered a" "avt_currentFrame ?a = avt_currentFrame a"
      "avt_dab24msFrameSize ?a = avt_dab24msFrameSize a" "avt_frameAligned ?a" by simp_all
    ultimately obtain a' where
      a': "append_part ?a (oqd_buf d) = Inr a'" "avt_ordered a' = avt_ordered a"
        "avt_dab24msFrameSize a' = avt_dab24msFrameSize a" "avt_frameAligned a'"
        "length (avt_currentFrame a') = length (avt_currentFrame a)"
        "avt_partial F (a'\<lparr>avt_frameAligned := True\<rparr>) (parts @ [oqd_buf d])"
      using append_part_ok [of F ?a parts k "oqd_buf d"] len part True unfolding same by blast
    then show ?thesis
      using inv parts True k
      by (fastforce simp: superframe_part_def avt_inv_def avt_partial_def split: if_splits)
  next
    case False
    then have "superframe_part a k d =
        Inr (if avt_frameAligned a
             then a\<lparr>avt_nbFrames := 0, avt_currentFrameSize := 0, avt_frameAligned := False,
                    avt_expectedFrameIndex := 0\<rparr> else a)"
      using parts k by (auto simp: superframe_part_def avt_partial_def)
    moreover have "avt_partial F (a\<lparr>avt_nbFrames := 0, avt_currentFrameSize := 0,
        avt_frameAligned := False, avt_expectedFrameIndex := 0\<rparr>) []"
      by (simp add: avt_partial_def superframe_of_def)
    ultimately show ?thesis using inv by (auto simp: avt_inv_def)
  qed
qed

lemma unpack2_nonneg: "uint (DFCTH :: u32) \<le> 31 \<Longrightarrow> uint (DFCTL :: u32) \<le> 255 \<Longrightarrow>
    sint (DFCTH * 250 + DFCTL) = uint DFCTH * 250 + uint DFCTL"
proof -
  assume a: "uint DFCTH \<le> 31" "uint DFCTL \<le> 255"
  have b: "0 \<le> uint DFCTH" "0 \<le> uint DFCTL" by simp_all
  have s: "sint (w :: u32) = signed_take_bit 31 (uint w)" for w by (simp add: sint_uint)
  have "uint (DFCTH * 250 + DFCTL) = uint DFCTH * 250 + uint DFCTL"
    using a b by (simp add: uint_word_ariths)
  moreover have "signed_take_bit 31 (uint DFCTH * 250 + uint DFCTL) = uint DFCTH * 250 + uint DFCTL"
  proof (rule signed_take_bit_int_eq_self)
    have "0 \<le> uint DFCTH * 250 + uint DFCTL" using b by simp
    then show "- (2 ^ 31) \<le> uint DFCTH * 250 + uint DFCTL" by (rule order_trans [rotated]) simp
    have "uint DFCTH * 250 + uint DFCTL \<le> 8005" using a by linarith
    then show "uint DFCTH * 250 + uint DFCTL < 2 ^ 31" by (rule order_le_less_trans) simp
  qed
  ultimately show ?thesis by (simp only: s)
qed

lemma sti_fields_number:
  assumes "sti_fields buf index = Inr (Some (fn, ds, off))"
  shows "0 \<le> fn \<and> fn \<le> 8005"
proof -
  let ?i = "index + 4 + 2 + 2 + 5"
  have h: "uint (ucast (drop_bit 3 (b :: byte)) :: u32) \<le> 31" for b
  proof -
    have "uint b < 256" using uint_lt2p [of b] by simp
    then have "uint (drop_bit 3 b) \<le> 31" by (simp add: unsigned_drop_bit_eq drop_bit_eq_div uint_div_distrib)
    then show ?thesis by (simp add: unsigned_ucast_eq take_bit_int_eq_self)
  qed
  have l: "uint (ucast (b :: byte) :: u32) \<le> 255" for b
    using uint_lt2p [of b] by (simp add: unsigned_ucast_eq take_bit_int_eq_self)
  have "fn = sint ((ucast (drop_bit 3 (buf ! (?i + 1))) :: u32) * 250 + ucast (buf ! ?i))"
    using assms by (simp add: sti_fields_def Let_def split: if_splits)
  then show ?thesis
    using unpack2_nonneg [OF h l, of "buf ! (?i + 1)" "buf ! ?i"] h [of "buf ! (?i + 1)"] l [of "buf ! ?i"]
    by (simp)
qed

lemma findDAB_number:
  assumes "findDABFrameFromUDP a buf = Inr (Some (fn, ds, off), a')"
  shows "0 \<le> fn"
  using assms sti_fields_number
  by (fastforce simp: findDABFrameFromUDP_def Let_def split: sum.splits if_splits option.splits)

lemma avt_inv_same:
  assumes "avt_inv F a" "avt_ordered a' = avt_ordered a" "avt_dab24msFrameSize a' = avt_dab24msFrameSize a"
    "avt_currentFrame a' = avt_currentFrame a" "avt_currentFrameSize a' = avt_currentFrameSize a"
    "avt_nbFrames a' = avt_nbFrames a" "avt_frameAligned a' = avt_frameAligned a"
  shows "avt_inv F a'"
  using assms unfolding avt_inv_def avt_partial_def by simp

lemma avt_inv_push:
  assumes "avt_inv F a" "0 \<le> fn" "(fn mod MAX_QUEUE_SIZE, b) \<in> F" "length b = avt_dab24msFrameSize a"
  shows "avt_inv F (a\<lparr>avt_ordered := oq_push (avt_ordered a) fn b ts\<rparr>)"
  using assms jb.push_all_contents [of "avt_ordered a" fn
      "\<lambda>(k, d). (k, oqd_buf d) \<in> F \<and> length (oqd_buf d) = avt_dab24msFrameSize a" b ts]
  by (simp add: avt_inv_def avt_partial_def jb.push_inv)

text \<open>One call of \<open>_readFrame\<close>: the script is used up in order and the invariant is kept.\<close>

lemma readFrame_inv:
  assumes inv: "avt_inv F a" and F: "avt_frames (avt_dab24msFrameSize a) (w_frames a) \<subseteq> F"
    and r: "readFrame a = Inr (b, a')"
  shows "avt_inv F a' \<and> avt_dab24msFrameSize a' = avt_dab24msFrameSize a
    \<and> set (w_frames a') \<subseteq> set (w_frames a)"
  using r
proof (cases rule: readFrame_cases)
  case none
  moreover have "avt_inv F (a\<lparr>w_frames := tl (w_frames a)\<rparr>)" using inv by (rule avt_inv_same) simp_all
  ultimately show ?thesis by (cases "w_frames a") auto
next
  case (packet bs adr ts rest)
  let ?a = "a\<lparr>w_frames := rest\<rparr>" and ?buf = "take MAX_AVT_FRAME_SIZE bs" and ?sz = "avt_dab24msFrameSize a"
  have rest: "set rest \<subseteq> set (w_frames a)" using packet(1) by auto
  have ia: "avt_inv F ?a" using inv by (rule avt_inv_same) simp_all
  have same: "avt_inv F a1 \<and> avt_dab24msFrameSize a1 = ?sz \<and> w_frames a1 = rest"
    if "findDABFrameFromUDP ?a ?buf = Inr (r1, a1) \<or> a1 = ?a" for r1 a1
    using that findDAB_same [of ?a ?buf r1 a1] avt_inv_same [OF ia, of a1] ia by auto
  from packet(2) show ?thesis
  proof (cases rule: readFrame_packet_cases)
    case (skip a1)
    then show ?thesis using same [of None a1] rest avt_inv_same [of F a1 a'] by auto
  next
    case (wrong x)
    then show ?thesis using same [of "Some x" a'] rest by auto
  next
    case (push fn off a1)
    have "sti_extract ?buf = Inr (Some (fn, ?sz, off))"
      using findDAB_extract [of ?a ?buf] push(2) by simp
    moreover have "(RecvData bs adr, ts) \<in> set (w_frames a)" using packet(1) by simp
    ultimately have "(fn mod MAX_QUEUE_SIZE, take ?sz (drop off ?buf)) \<in> F"
      using F push(3) unfolding avt_frames_def by force
    moreover have "0 \<le> fn" using findDAB_number push(2) by blast
    moreover have a1: "avt_inv F a1" "avt_dab24msFrameSize a1 = ?sz" "w_frames a1 = rest"
      using same push(2) by blast+
    ultimately have "avt_inv F a'"
      unfolding push(4) using push(3) by (intro avt_inv_push) auto
    then show ?thesis using a1 push(4) rest by simp
  qed
qed

lemma avt_frames_mono: "set s \<subseteq> set s' \<Longrightarrow> avt_frames sz s \<subseteq> avt_frames sz s'"
  unfolding avt_frames_def by blast

lemma receive_loop_inv:
  assumes "avt_inv F a" "avt_frames (avt_dab24msFrameSize a) (w_frames a) \<subseteq> F" "receive_loop a = Inr a'"
  shows "avt_inv F a' \<and> avt_dab24msFrameSize a' = avt_dab24msFrameSize a
    \<and> set (w_frames a') \<subseteq> set (w_frames a)"
  using assms
proof (induction a arbitrary: a' rule: receive_loop.induct)
  case (1 a)
  obtain b c where c: "checkMessage a = Inr (b, c)"
    using 1(5) by (subst (asm) receive_loop.simps) (auto split: sum.splits)
  then have only: "pad_only a c" using checkMessage_only by blast
  note same = pad_only_same [OF only] avt_inv_pad_only [OF only 1(3)]
  show ?case
  proof (cases b)
    case True
    then have "receive_loop c = Inr a'" using 1(5) c by (subst (asm) receive_loop.simps) simp
    then show ?thesis using 1(1) [OF c refl _ same(10)] True 1(4) same(2,8) by simp
  next
    case False
    obtain b' d where d: "readFrame c = Inr (b', d)"
      using 1(5) c False by (subst (asm) receive_loop.simps) (auto split: sum.splits)
    have fr: "avt_frames (avt_dab24msFrameSize c) (w_frames c) \<subseteq> F" using 1(4) same by simp
    note step = readFrame_inv [OF same(10) fr d]
    show ?thesis
    proof (cases b')
      case True
      then have "receive_loop d = Inr a'" using 1(5) c d False by (subst (asm) receive_loop.simps) simp
      moreover have "avt_frames (avt_dab24msFrameSize d) (w_frames d) \<subseteq> F"
        using step fr avt_frames_mono by (metis subset_trans)
      ultimately show ?thesis
        using 1(2) [OF c refl _ d refl _ conjunct1 [OF step]] False True step same(2,8) by auto
    next
      case f2: False
      then have "d = a'" using 1(5) c d False by (subst (asm) receive_loop.simps) simp
      then show ?thesis using step same by auto
    qed
  qed
qed

lemma superframe_part_same:
  "superframe_part a k d = Inr a' \<Longrightarrow>
    avt_dab24msFrameSize a' = avt_dab24msFrameSize a \<and> w_frames a' = w_frames a"
  by (auto simp: superframe_part_def append_part_def Let_def split: if_splits)

lemma message_loop_errors:
  "message_loop a = Inl e \<Longrightarrow> e = RuntimeError"
proof (induction a rule: message_loop.induct)
  case (1 a)
  have c: "checkMessage a = Inl e' \<Longrightarrow> e' = RuntimeError" for e'
    by (auto simp: checkMessage_def interpretMessage_def sendPADFrame_def udp_receive_def udp_send_def
        Let_def split: prod.splits sum.splits if_splits list.splits recv_result.splits option.splits)
  show ?case
    using 1(2) c 1(1) by (subst (asm) message_loop.simps) (auto split: sum.splits prod.splits bool.splits)
qed

text \<open>The assembly loop ends, keeps the invariant, and never writes outside the frame buffer.\<close>

lemma assemble_loop_inv:
  assumes "avt_inv F a"
  shows "\<exists>r. assemble_loop k a = Some r \<and>
    (case r of Inl e \<Rightarrow> e = RuntimeError
     | Inr a' \<Rightarrow> avt_inv F a' \<and> avt_dab24msFrameSize a' = avt_dab24msFrameSize a
                 \<and> w_frames a' = w_frames a)"
  using assms
proof (induction k a rule: assemble_loop.induct)
  case (1 k a)
  show ?case
  proof (cases "avt_nbFrames a < 5")
    case False
    then show ?thesis using 1(2) by (subst assemble_loop.simps) simp
  next
    case more: True
    let ?P = "\<lambda>(k, d). (k, oqd_buf d) \<in> F \<and> length (oqd_buf d) = avt_dab24msFrameSize a"
    have "oq_inv (avt_ordered a)" "\<forall>e \<in> oq_contents (avt_ordered a). ?P e"
      using 1(2) by (auto simp: avt_inv_def)
    then show ?thesis
    proof (cases rule: jb.pop_result)
      case none
      then show ?thesis using more 1(2) by (subst assemble_loop.simps) (simp add: oqd_default_def)
    next
      case (some q d i)
      let ?a = "a\<lparr>avt_ordered := q\<rparr>"
      have inv: "avt_inv F ?a" using some 1(2) by (simp add: avt_inv_def avt_partial_def)
      have ne: "oqd_buf d \<noteq> []" using some(2) 1(2) by (auto simp: avt_inv_def)
      show ?thesis
      proof (cases "message_loop ?a")
        case (Inl e)
        then show ?thesis
          using more some(1) ne message_loop_errors [OF Inl] by (subst assemble_loop.simps) simp
      next
        case (Inr a2)
        note only = message_loop_only [OF Inr]
        have a2: "avt_inv F a2" "avt_dab24msFrameSize a2 = avt_dab24msFrameSize a" "w_frames a2 = w_frames a"
          "avt_nbFrames a2 < 5"
          using avt_inv_pad_only [OF only inv] pad_only_same [OF only] more by auto
        obtain a3 where a3: "superframe_part a2 i d = Inr a3" "avt_inv F a3"
          using superframe_part_inv [OF a2(1) a2(4)] some(2,6) a2(2) by auto
        have "assemble_loop k a = assemble_loop i a3"
          using more some(1) ne Inr a3(1) by (subst assemble_loop.simps) simp
        moreover obtain r where "assemble_loop i a3 = Some r \<and>
            (case r of Inl e \<Rightarrow> e = RuntimeError
             | Inr a' \<Rightarrow> avt_inv F a' \<and> avt_dab24msFrameSize a' = avt_dab24msFrameSize a3
                         \<and> w_frames a' = w_frames a3)"
          using 1(1) [OF more some(1) refl refl refl refl _ Inr] ne a3 by auto
        ultimately show ?thesis using superframe_part_same [OF a3(1)] a2 by (cases r) simp_all
      qed
    qed
  qed
qed

lemma superframe_of_mono: "superframe_of F sz parts \<Longrightarrow> F \<subseteq> G \<Longrightarrow> superframe_of G sz parts"
  unfolding superframe_of_def by blast

subsection \<open>Properties of the assembly\<close>

text \<open>C5: superframes are well formed. \<open>getNextFrame\<close> always returns. If the frames pushed so far
  and those in the pending datagrams are in \<open>F\<close>, it fails only when a receive or a PAD answer
  failed (the assembly itself never leaves the frame buffer), and otherwise keeps the invariant and
  either leaves the caller's buffer alone or writes into it, from its start, the concatenation of
  five frames of \<open>F\<close> whose indices are 0, 1, 2, 3, 4 modulo 5, in this order.\<close>

theorem getNextFrame_superframe:
  assumes "avt_inv F a" "avt_frames (avt_dab24msFrameSize a) (w_frames a) \<subseteq> F"
  shows "\<exists>r. getNextFrame a buf = Some r \<and>
    (case r of
       Inl e \<Rightarrow> receive_loop a = Inl e \<or> e = RuntimeError
     | Inr (buf', ts, n, a') \<Rightarrow>
         avt_inv F a' \<and> length buf' = length buf \<and>
         (n = 0 \<and> ts = None \<and> buf' = buf
          \<or> (\<exists>parts. length parts = 5 \<and> superframe_of F (avt_dab24msFrameSize a) parts
               \<and> n = 5 * avt_dab24msFrameSize a \<and> n \<le> length buf \<and> ts \<noteq> None
               \<and> buf' = concat parts @ drop n buf)))"
proof (cases "receive_loop a")
  case (Inl e)
  then show ?thesis by (simp add: getNextFrame_def)
next
  case (Inr a1)
  note rec = receive_loop_inv [OF assms Inr]
  obtain r where r: "assemble_loop (-1) a1 = Some r"
    "case r of Inl e \<Rightarrow> e = RuntimeError
     | Inr a' \<Rightarrow> avt_inv F a' \<and> avt_dab24msFrameSize a' = avt_dab24msFrameSize a1
                 \<and> w_frames a' = w_frames a1"
    using assemble_loop_inv [of F a1 "-1"] rec by blast
  show ?thesis
  proof (cases r)
    case (Inl e)
    then show ?thesis using Inr r by (simp add: getNextFrame_def)
  next
    case r2: (Inr a2)
    then have inv: "avt_inv F a2" and sz: "avt_dab24msFrameSize a2 = avt_dab24msFrameSize a"
      using r(2) rec by auto
    then obtain parts where parts: "avt_partial F a2 parts" by (auto simp: avt_inv_def)
    let ?n = "avt_currentFrameSize a2"
    show ?thesis
    proof (cases "avt_nbFrames a2 = 5 \<and> ?n \<le> length buf")
      case False
      then show ?thesis using Inr r(1) r2 inv by (auto simp: getNextFrame_def Let_def)
    next
      case True
      then have "length parts = 5" "?n = 5 * avt_dab24msFrameSize a2"
        "superframe_of F (avt_dab24msFrameSize a) parts" "take ?n (avt_currentFrame a2) = concat parts"
        using parts sz unfolding avt_partial_def by auto
      moreover have "length (avt_currentFrame a2) = 5 * avt_dab24msFrameSize a2"
        using inv by (simp add: avt_inv_def)
      moreover have "avt_partial F (a2\<lparr>avt_currentFrameSize := 0, avt_nbFrames := 0\<rparr>) []"
        by (simp add: avt_partial_def superframe_of_def)
      then have "avt_inv F (a2\<lparr>avt_currentFrameSize := 0, avt_nbFrames := 0\<rparr>)"
        using inv by (auto simp: avt_inv_def)
      moreover have "length (concat parts) = ?n"
        using superframe_of_length [OF calculation(3)] calculation sz by simp
      ultimately show ?thesis
        using True Inr r(1) r2 sz
        by (auto simp: getNextFrame_def Let_def simp del: length_concat intro!: exI [of _ parts])
    qed
  qed
qed

theorem getNextFrame_superframe_witness:
  "\<exists>r. getNextFrame ((AVTInput_init [] [] 0 40)\<lparr>avt_currentFrame := replicate 960 0\<rparr>) [1, 2] = Some r
    \<and> (case r of Inl e \<Rightarrow> True | Inr (buf', ts, n, a') \<Rightarrow> length buf' = 2 \<and> n = 0)"
proof -
  let ?a = "(AVTInput_init [] [] 0 40)\<lparr>avt_currentFrame := replicate 960 0\<rparr>"
  have "avt_partial {} ?a []" by (simp add: avt_partial_def superframe_of_def AVTInput_init_def)
  then have "avt_inv {} ?a"
    by (auto simp: avt_inv_def AVTInput_init_def OrderedQueue_init_def oq_contents_def oq_inv_def MAX_QUEUE_SIZE_def)
  moreover have "avt_frames (avt_dab24msFrameSize ?a) (w_frames ?a) \<subseteq> {}"
    by (simp add: avt_frames_def AVTInput_init_def)
  moreover have sz: "avt_dab24msFrameSize ?a = 192" by (simp add: AVTInput_init_def)
  ultimately obtain r where r: "getNextFrame ?a [1, 2] = Some r"
    "case r of Inl e \<Rightarrow> receive_loop ?a = Inl e \<or> e = RuntimeError
     | Inr (buf', ts, n, a') \<Rightarrow> avt_inv {} a' \<and> length buf' = length [1, 2 :: byte] \<and>
         (n = 0 \<and> ts = None \<and> buf' = [1, 2]
          \<or> (\<exists>parts. length parts = 5 \<and> superframe_of {} 192 parts
               \<and> n = 5 * 192 \<and> n \<le> length [1, 2 :: byte] \<and> ts \<noteq> None
               \<and> buf' = concat parts @ drop n [1, 2]))"
    using getNextFrame_superframe [of "{}" ?a "[1, 2]"] unfolding sz by blast
  then show ?thesis by (cases r) auto
qed

end
