(* ===== verification/AVTStream.thy ===== *)
theory AVTStream
  imports AVTInput
begin

text \<open>
  What the AVT input does with the packets of a real encoder: the layout of the STI frame (with
  or without RTP header) that \<open>_findDABFrameFromUDP\<close> reads, the parameters set by
  \<open>setDabPlusParameters\<close>, the PAD request protocol, and the path of a whole superframe from five
  datagrams, in any order, to the caller of \<open>getNextFrame\<close>.
\<close>

unbundle bit_operations_syntax

subsection \<open>Reading an STI frame\<close>

lemma unat_unpack2: "unat (unpack2 buf i) = unat (buf ! i) * 256 + unat (buf ! (i + 1))"
proof -
  let ?h = "ucast (buf ! i) :: u32" and ?l = "ucast (buf ! (i + 1)) :: u32"
  have "push_bit 8 ?h OR ?l = push_bit 8 ?h + ?l"
    by (rule disjunctive_add [symmetric]) (auto simp: bit_simps dest: bit_imp_le_length)
  also have "unat \<dots> = unat (buf ! i) * 256 + unat (buf ! (i + 1))"
    using unat_byte [of "buf ! i"] unat_byte [of "buf ! (i+1)"]
    by (simp add: unat_word_ariths push_bit_eq_mult unsigned_ucast_eq take_bit_nat_eq_self)
  finally show ?thesis unfolding unpack2_def .
qed

lemma unat_and_mask_u32: "unat (w AND (0x7FF :: u32)) = unat w mod 2048" "unat (w AND (0x1FFF :: u32)) = unat w mod 8192"
proof -
  have m: "(0x7FF :: u32) = mask 11" "(0x1FFF :: u32) = mask 13" by (simp_all add: mask_eq_exp_minus_1)
  show "unat (w AND (0x7FF :: u32)) = unat w mod 2048" "unat (w AND (0x1FFF :: u32)) = unat w mod 8192"
    unfolding m take_bit_eq_mask [symmetric] unsigned_take_bit_eq by (simp_all add: take_bit_eq_mod)
qed

text \<open>
  An STI frame as the encoder sends it: an error byte and the synchronisation word, nine bytes of
  sizes and frame characterisation, the frame number split into \<open>DFCTL\<close> and \<open>DFCTH\<close>, the number
  \<open>nst\<close> of streams, the characterisation of the first stream (no stream CRC), the rest of the
  stream characterisations and the end of header, the data of the first stream and what follows.
\<close>

definition sti_packet ::
  "byte \<Rightarrow> bytes \<Rightarrow> bytes \<Rightarrow> nat \<Rightarrow> nat \<Rightarrow> byte \<Rightarrow> byte \<Rightarrow> bytes \<Rightarrow> bytes \<Rightarrow> bytes \<Rightarrow> bytes" where
  "sti_packet e sync hdr fn nst x y strm data rest =
     e # sync @ hdr
     @ [of_nat (fn mod 250), of_nat (fn div 250 * 8 + nst div 256), of_nat (nst mod 256),
        of_nat (length data div 256), of_nat (length data mod 256), x, y]
     @ strm @ data @ rest"

definition sti_wf :: "bytes \<Rightarrow> bytes \<Rightarrow> nat \<Rightarrow> nat \<Rightarrow> byte \<Rightarrow> bytes \<Rightarrow> bool" where
  "sti_wf sync hdr fn nst y data \<longleftrightarrow>
     (sync = STI_FSync0 \<or> sync = STI_FSync1) \<and> length hdr = 9 \<and> fn < 5000
     \<and> 1 \<le> nst \<and> nst < 2048 \<and> \<not> bit y 0 \<and> length data < 8192"

lemma isSTI_packet: "sti_wf sync hdr fn nst y data \<Longrightarrow> length pre = k \<Longrightarrow>
   isSTI (pre @ sti_packet e sync hdr fn nst x y strm data rest) k = Inr True"
  by (auto simp: isSTI_def sti_wf_def sti_packet_def STI_FSync0_def STI_FSync1_def)

lemma sti_fields_packet:
  assumes "sti_wf sync hdr fn nst y data"
  shows "sti_fields (pre @ sti_packet e sync hdr fn nst x y strm data rest) (length pre)
    = Inr (Some (int fn, length data, length pre + 20 + nst * 4))"
proof -
  let ?b = "pre @ sti_packet e sync hdr fn nst x y strm data rest" and ?i = "length pre + 13"
  obtain s0 s1 s2 where s: "sync = [s0, s1, s2]"
    using assms by (auto simp: sti_wf_def STI_FSync0_def STI_FSync1_def)
  obtain h0 h1 h2 h3 h4 h5 h6 h7 h8 where h: "hdr = [h0, h1, h2, h3, h4, h5, h6, h7, h8]"
    using assms by (auto simp: sti_wf_def numeral_eq_Suc length_Suc_conv)
  have bytes: "?b ! ?i = of_nat (fn mod 250)" "?b ! (?i + 1) = of_nat (fn div 250 * 8 + nst div 256)"
    "?b ! (?i + 1 + 1) = of_nat (nst mod 256)" "?b ! (?i + 3) = of_nat (length data div 256)"
    "?b ! (?i + 3 + 1) = of_nat (length data mod 256)" "?b ! (?i + 3 + 3) = y"
    by (simp_all add: sti_packet_def s h nth_append)
  have len: "?i + 6 < length ?b" by (simp add: sti_packet_def s h)
  have w: "fn < 5000" "1 \<le> nst" "nst < 2048" "length data < 8192" "\<not> bit y 0"
    using assms by (auto simp: sti_wf_def)
  have hb: "fn div 250 * 8 + nst div 256 < 256" using w by (simp add: div_less_iff_less_mult)
  have byte: "unat (of_nat n :: byte) = n" if "n < 256" for n
    using that by (simp add: unat_of_nat_id)
  have ub: "unat (?b ! ?i) = fn mod 250" "unat (?b ! (?i + 1)) = fn div 250 * 8 + nst div 256"
    "unat (?b ! (?i + 1 + 1)) = nst mod 256" "unat (?b ! (?i + 3)) = length data div 256"
    "unat (?b ! (?i + 3 + 1)) = length data mod 256"
    unfolding bytes by (rule byte, use hb w in linarith)+
  have split: "(fn div 250 * 8 + nst div 256) * 256 + nst mod 256 = nst + fn div 250 * 2048"
    by (simp add: algebra_simps)
  have nst: "unat (unpack2 ?b (?i + 1) AND 0x7FF) = nst"
    unfolding unat_and_mask_u32 unat_unpack2 ub split using w(3) by simp
  have stl: "unat (unpack2 ?b (?i + 3) AND 0x1FFF) = length data"
    unfolding unat_and_mask_u32 unat_unpack2 ub using w(4) by simp
  have u: "uint (ucast (b :: byte) :: u32) = int (unat b)" for b
    unfolding unsigned_ucast_eq using uint_lt2p [of b]
    by (simp add: take_bit_int_eq_self uint_nat [symmetric])
  have "unat (drop_bit 3 (?b ! (?i + 1))) = fn div 250"
    unfolding unsigned_drop_bit_eq ub using w(3) hb
    by (simp add: drop_bit_eq_div take_bit_nat_eq_self)
  then have dh: "uint (ucast (drop_bit 3 (?b ! (?i + 1))) :: u32) = int (fn div 250)" by (simp only: u)
  have dl: "uint (ucast (?b ! ?i) :: u32) = int (fn mod 250)" by (simp only: u ub)
  have num: "sint ((ucast (drop_bit 3 (?b ! (?i + 1))) :: u32) * 250 + ucast (?b ! ?i)) = int fn"
  proof -
    have "int (fn div 250) \<le> 31" "int (fn mod 250) \<le> 255" using w(1) by linarith+
    moreover have "int (fn div 250) * 250 + int (fn mod 250) = int fn"
      using arg_cong [OF div_mult_mod_eq [of fn 250], of int] by (simp only: of_nat_add of_nat_mult of_nat_numeral)
    ultimately show ?thesis
      using unpack2_nonneg [of "ucast (drop_bit 3 (?b ! (?i + 1)))" "ucast (?b ! ?i)", unfolded dh dl]
      by metis
  qed
  have crc: "(ucast (?b ! (?i + 3 + 3) AND drop_bit 7 0x80) :: u32) = 0"
    unfolding bytes using w(5) by (simp add: and_one_eq odd_iff_mod_2_eq_one bit_0)
  have off: "length pre + 4 + 2 + 2 + 5 = ?i" by simp
  have fits: "\<not> length ?b \<le> ?i + 2" "\<not> length ?b \<le> ?i + 3 + 3" using len by linarith+
  have ge: "1 \<le> unpack2 ?b (?i + 1) AND 0x7FF" using w(2) by (simp only: word_le_nat_alt nst unsigned_1)
  have pos: "?i + 3 + nst * 4 + 4 = length pre + 20 + nst * 4" by simp
  show ?thesis
    by (simp only: sti_fields_def Let_def off num crc nst stl fits ge pos if_False if_True
        mult_zero_right diff_zero refl)
qed


text \<open>An RTP header of 12 bytes, version 2, payload type 34.\<close>

definition rtp_wf :: "bytes \<Rightarrow> bool" where
  "rtp_wf pre \<longleftrightarrow> length pre = 12 \<and> drop_bit 6 (pre ! 0 AND 0xC0) = 2 \<and> pre ! 1 AND 0x7F = 34"

lemma rtp_not_sti: "rtp_wf pre \<Longrightarrow> isSTI (pre @ b) 0 = Inr False"
proof -
  assume a: "rtp_wf pre"
  then obtain x y l where "pre = x # y # l" "10 = length l" by (auto simp: rtp_wf_def numeral_eq_Suc length_Suc_conv)
  moreover have "y \<noteq> 0x1F" "y \<noteq> 0xE0" using a calculation by (auto simp: rtp_wf_def)
  ultimately show ?thesis by (auto simp: isSTI_def STI_FSync0_def STI_FSync1_def)
qed

lemma sti_extract_packet:
  assumes "pre = [] \<or> rtp_wf pre" "sti_wf sync hdr fn nst y data"
  shows "sti_extract (pre @ sti_packet e sync hdr fn nst x y strm data rest)
    = Inr (Some (int fn, length data, length pre + 20 + nst * 4))"
  using assms(1)
proof
  assume "pre = []"
  then show ?thesis
    using isSTI_packet [OF assms(2), of "[]" 0] sti_fields_packet [OF assms(2), of "[]"]
    by (simp add: sti_extract_def findDABFrameFromUDP_def)
next
  let ?b = "pre @ sti_packet e sync hdr fn nst x y strm data rest"
  assume pre: "rtp_wf pre"
  then have "rtp_header ?b" "length pre = 12" by (auto simp: rtp_wf_def rtp_header_def nth_append)
  then show ?thesis
    using isSTI_packet [OF assms(2), of pre 12] sti_fields_packet [OF assms(2), of pre] rtp_not_sti [OF pre]
    by (simp add: sti_extract_def findDABFrameFromUDP_def)
qed

lemma sti_packet_length:
  "sti_wf sync hdr fn nst y data \<Longrightarrow> length (sti_packet e sync hdr fn nst x y strm data rest)
    = 20 + length strm + length data + length rest"
  by (auto simp: sti_packet_def sti_wf_def STI_FSync0_def STI_FSync1_def)

lemma sti_packet_data:
  assumes "sti_wf sync hdr fn nst y data" "length strm = nst * 4"
  shows "take (length data) (drop (length pre + 20 + nst * 4)
      (pre @ sti_packet e sync hdr fn nst x y strm data rest)) = data"
proof -
  obtain A where A: "sti_packet e sync hdr fn nst x y strm data rest = A @ data @ rest"
    "length A = 20 + nst * 4"
    using assms by (auto simp: sti_packet_def sti_wf_def STI_FSync0_def STI_FSync1_def
        intro!: that [of "e # sync @ hdr @ [_, _, _, _, _, x, y] @ strm"])
  show ?thesis unfolding A(1) by (simp add: A(2))
qed

subsection \<open>Receiving a burst of datagrams\<close>

text \<open>The datagram \<open>r\<close> fits the receive buffer and carries the frame \<open>d\<close> of size \<open>sz\<close> as number \<open>i\<close>.\<close>

definition carries :: "nat \<Rightarrow> recv_result \<Rightarrow> int \<Rightarrow> bytes \<Rightarrow> bool" where
  "carries sz r i d \<longleftrightarrow> (\<exists>bs adr off. r = RecvData bs adr \<and> length bs \<le> MAX_AVT_FRAME_SIZE
     \<and> sti_extract bs = Inr (Some (i, sz, off)) \<and> sz < length bs \<and> off + sz \<le> length bs
     \<and> take sz (drop off bs) = d)"

lemma carries_packet:
  assumes "pre = [] \<or> rtp_wf pre" "sti_wf sync hdr fn nst y data" "length strm = nst * 4"
    and "length pre + 20 + nst * 4 + length data + length rest \<le> MAX_AVT_FRAME_SIZE"
  shows "carries (length data) (RecvData (pre @ sti_packet e sync hdr fn nst x y strm data rest) adr)
    (int fn) data"
  using assms(3,4) sti_extract_packet [OF assms(1,2)] sti_packet_length [OF assms(2)]
    sti_packet_data [OF assms(2,3)] unfolding carries_def by (intro exI conjI) auto

lemma checkMessage_quiet:
  "w_pad a = [] \<Longrightarrow> checkMessage a = Inr (False, a\<lparr>avt_pad_packet := UDPPacket_init 0\<rparr>)"
  by (simp add: checkMessage_def next_recv_def udp_receive_def UDPPacket_init_def)

lemma message_loop_quiet:
  "w_pad a = [] \<Longrightarrow> message_loop a = Inr (a\<lparr>avt_pad_packet := UDPPacket_init 0\<rparr>)"
  by (subst message_loop.simps) (simp add: checkMessage_quiet)

text \<open>\<open>b\<close> has the assembly state of \<open>a\<close>.\<close>

definition same_assembly :: "AVTInput \<Rightarrow> AVTInput \<Rightarrow> bool" where
  "same_assembly a b \<longleftrightarrow> avt_dab24msFrameSize b = avt_dab24msFrameSize a
     \<and> avt_currentFrame b = avt_currentFrame a \<and> avt_currentFrameSize b = avt_currentFrameSize a
     \<and> avt_nbFrames b = avt_nbFrames a \<and> avt_frameAligned b = avt_frameAligned a
     \<and> avt_frameZeroTimestamp b = avt_frameZeroTimestamp a \<and> w_pad b = w_pad a"

lemma findDAB_timestamp:
  "findDABFrameFromUDP a buf = Inr (r, a') \<Longrightarrow> avt_frameZeroTimestamp a' = avt_frameZeroTimestamp a"
  by (auto simp: findDABFrameFromUDP_def avt_info_def Let_def
      split: sum.splits if_splits option.splits prod.splits)

lemma readFrame_carries:
  assumes "w_frames a = (r, ts) # rest" "carries (avt_dab24msFrameSize a) r i d"
  shows "\<exists>a'. readFrame a = Inr (True, a') \<and> same_assembly a a' \<and> w_frames a' = rest
    \<and> avt_ordered a' = oq_push (avt_ordered a) i d ts"
proof -
  let ?sz = "avt_dab24msFrameSize a" and ?a = "a\<lparr>w_frames := rest\<rparr>"
  obtain bs adr off where c: "r = RecvData bs adr" "length bs \<le> MAX_AVT_FRAME_SIZE"
    "sti_extract bs = Inr (Some (i, ?sz, off))" "?sz < length bs" "off + ?sz \<le> length bs"
    "take ?sz (drop off bs) = d"
    using assms(2) by (auto simp: carries_def)
  obtain a1 where a1: "findDABFrameFromUDP ?a bs = Inr (Some (i, ?sz, off), a1)"
    using findDAB_extract [of ?a bs] c(3) by (auto split: sum.splits prod.splits)
  have "readFrame a = readFrame_packet ?a bs ts"
    using assms(1) c by (auto simp: readFrame_def udp_receive_def)
  also have "\<dots> = Inr (True, a1\<lparr>avt_ordered := oq_push (avt_ordered a1) i d ts\<rparr>)"
    using a1 c findDAB_same [OF a1] by (simp add: readFrame_packet_def)
  finally show ?thesis
    using findDAB_same [OF a1] findDAB_timestamp [OF a1] by (simp add: same_assembly_def)
qed

text \<open>A burst of such datagrams is pushed into the jitter buffer in the order of arrival.\<close>

lemma receive_loop_burst:
  assumes "list_all2 (\<lambda>(r, ts) (i, d). carries (avt_dab24msFrameSize a) r i (oqd_buf d)
      \<and> ts = oqd_capture_timestamp d) (w_frames a) fs" "w_pad a = []"
  shows "\<exists>a'. receive_loop a = Inr a' \<and> same_assembly a a' \<and> w_frames a' = []
    \<and> avt_ordered a' = oq_push_all (avt_ordered a) fs"
  using assms
proof (induction fs arbitrary: a rule: list.induct)
  case Nil
  let ?a = "a\<lparr>avt_pad_packet := UDPPacket_init 0\<rparr>"
  have w: "w_frames a = []" using Nil.prems(1) by simp
  then have "readFrame ?a = Inr (False, ?a\<lparr>w_frames := []\<rparr>)"
    by (simp add: readFrame_def udp_receive_def UDPPacket_init_def)
  then have "receive_loop a = Inr (?a\<lparr>w_frames := []\<rparr>)"
    using checkMessage_quiet [OF Nil.prems(2)] by (subst receive_loop.simps) simp
  then show ?case by (simp add: same_assembly_def oq_push_all_def)
next
  case (Cons f fs)
  obtain i d where f: "f = (i, d)" by (cases f)
  let ?a = "a\<lparr>avt_pad_packet := UDPPacket_init 0\<rparr>"
  obtain r ts rest where w: "w_frames a = (r, ts) # rest" "carries (avt_dab24msFrameSize a) r i (oqd_buf d)"
    "ts = oqd_capture_timestamp d"
    using Cons.prems(1) f by (auto simp: list_all2_Cons2)
  obtain b where b: "readFrame ?a = Inr (True, b)" "same_assembly ?a b" "w_frames b = rest"
    "avt_ordered b = oq_push (avt_ordered a) i (oqd_buf d) ts"
    using readFrame_carries [of ?a r ts rest i "oqd_buf d"] w by auto
  have loop: "receive_loop a = receive_loop b"
    using b(1) checkMessage_quiet [OF Cons.prems(2)] by (subst receive_loop.simps) simp
  have "list_all2 (\<lambda>(r, ts) (i, d). carries (avt_dab24msFrameSize b) r i (oqd_buf d)
      \<and> ts = oqd_capture_timestamp d) (w_frames b) fs" "w_pad b = []"
    using Cons.prems b w(1) f by (auto simp: same_assembly_def)
  from Cons.IH [OF this] obtain c where "receive_loop b = Inr c" "same_assembly b c" "w_frames c = []"
    "avt_ordered c = oq_push_all (avt_ordered b) fs" by blast
  then show ?case
    using loop b w f by (auto simp: same_assembly_def oq_push_all_def)
qed

subsection \<open>Assembling consecutive frames\<close>

lemma superframe_part_next:
  assumes "0 \<le> k" "k mod 5 = avt_nbFrames a" "0 \<le> avt_nbFrames a" "\<not> avt_frameAligned a \<longrightarrow> avt_nbFrames a = 0"
    and "avt_currentFrameSize a + length (oqd_buf d) \<le> length (avt_currentFrame a)"
  shows "\<exists>b. superframe_part a k d = Inr b \<and> avt_nbFrames b = avt_nbFrames a + 1 \<and> avt_frameAligned b
    \<and> avt_currentFrameSize b = avt_currentFrameSize a + length (oqd_buf d)
    \<and> length (avt_currentFrame b) = length (avt_currentFrame a)
    \<and> take (avt_currentFrameSize b) (avt_currentFrame b)
        = take (avt_currentFrameSize a) (avt_currentFrame a) @ oqd_buf d
    \<and> avt_frameZeroTimestamp b = (if avt_frameAligned a then avt_frameZeroTimestamp a + 24000000
                                  else oqd_capture_timestamp d)
    \<and> avt_ordered b = avt_ordered a \<and> w_pad b = w_pad a \<and> w_frames b = w_frames a
    \<and> avt_dab24msFrameSize b = avt_dab24msFrameSize a"
  using assms by (auto simp: superframe_part_def append_part_def crem_nonneg Let_def)

lemma assemble_loop_pops:
  assumes "oq_pops n (avt_ordered a) = Some (q, kds)" "avt_nbFrames a = 5 - int n" "n \<le> 5" "w_pad a = []"
    and "\<And>j. j < n \<Longrightarrow> 0 \<le> fst (kds ! j) \<and> fst (kds ! j) mod 5 = avt_nbFrames a + int j"
    and "\<And>j. j < n \<Longrightarrow> length (oqd_buf (snd (kds ! j))) = sz" "0 < sz"
    and "avt_currentFrameSize a + n * sz \<le> length (avt_currentFrame a)"
    and "\<not> avt_frameAligned a \<longrightarrow> n = 5"
  shows "\<exists>b. assemble_loop k a = Some (Inr b) \<and> avt_nbFrames b = 5 \<and> avt_ordered b = q
    \<and> avt_currentFrameSize b = avt_currentFrameSize a + n * sz
    \<and> length (avt_currentFrame b) = length (avt_currentFrame a)
    \<and> take (avt_currentFrameSize b) (avt_currentFrame b)
        = take (avt_currentFrameSize a) (avt_currentFrame a) @ concat (map (oqd_buf \<circ> snd) kds)
    \<and> avt_frameAligned b \<and> w_pad b = [] \<and> w_frames b = w_frames a \<and> avt_dab24msFrameSize b = avt_dab24msFrameSize a
    \<and> avt_frameZeroTimestamp b =
        (if avt_frameAligned a then avt_frameZeroTimestamp a + 24000000 * int n
         else oqd_capture_timestamp (snd (hd kds)) + 24000000 * (int n - 1))"
  using assms
proof (induction n arbitrary: a k kds)
  case 0
  then show ?case by (subst assemble_loop.simps) auto
next
  case (Suc n)
  obtain q1 d i kds1 where p: "oq_pop (avt_ordered a) = Some (q1, d, Some i)"
    "oq_pops n q1 = Some (q, kds1)" "kds = (i, d) # kds1"
    using Suc.prems(1) by (auto split: option.splits prod.splits)
  let ?a = "a\<lparr>avt_ordered := q1, avt_pad_packet := UDPPacket_init 0\<rparr>"
  have i: "0 \<le> i" "i mod 5 = avt_nbFrames a" "length (oqd_buf d) = sz"
    using Suc.prems(5,6) [of 0] p(3) by auto
  obtain b where b: "superframe_part ?a i d = Inr b" "avt_nbFrames b = avt_nbFrames a + 1" "avt_frameAligned b"
    "avt_currentFrameSize b = avt_currentFrameSize a + sz"
    "length (avt_currentFrame b) = length (avt_currentFrame a)"
    "take (avt_currentFrameSize b) (avt_currentFrame b)
        = take (avt_currentFrameSize a) (avt_currentFrame a) @ oqd_buf d"
    "avt_frameZeroTimestamp b = (if avt_frameAligned a then avt_frameZeroTimestamp a + 24000000
                                  else oqd_capture_timestamp d)"
    "avt_ordered b = q1" "w_pad b = []" "avt_dab24msFrameSize b = avt_dab24msFrameSize a" "w_frames b = w_frames a"
    using superframe_part_next [of i ?a d] i Suc.prems by auto
  have loop: "assemble_loop k a = assemble_loop i b"
    using p(1) i(3) Suc.prems(2,4,7) b(1) message_loop_quiet [of "a\<lparr>avt_ordered := q1\<rparr>"]
    by (subst assemble_loop.simps) auto
  have nth: "kds1 ! j = kds ! Suc j" for j using p(3) by simp
  have "\<exists>c. assemble_loop i b = Some (Inr c) \<and> avt_nbFrames c = 5 \<and> avt_ordered c = q
    \<and> avt_currentFrameSize c = avt_currentFrameSize b + n * sz
    \<and> length (avt_currentFrame c) = length (avt_currentFrame b)
    \<and> take (avt_currentFrameSize c) (avt_currentFrame c)
        = take (avt_currentFrameSize b) (avt_currentFrame b) @ concat (map (oqd_buf \<circ> snd) kds1)
    \<and> avt_frameAligned c \<and> w_pad c = [] \<and> w_frames c = w_frames b \<and> avt_dab24msFrameSize c = avt_dab24msFrameSize b
    \<and> avt_frameZeroTimestamp c =
        (if avt_frameAligned b then avt_frameZeroTimestamp b + 24000000 * int n
         else oqd_capture_timestamp (snd (hd kds1)) + 24000000 * (int n - 1))"
  proof (rule Suc.IH)
    fix j assume j: "j < n"
    show "0 \<le> fst (kds1 ! j) \<and> fst (kds1 ! j) mod 5 = avt_nbFrames b + int j"
      using Suc.prems(5) [of "Suc j"] j b(2) unfolding nth by simp
    show "length (oqd_buf (snd (kds1 ! j))) = sz" using Suc.prems(6) [of "Suc j"] j unfolding nth by simp
  qed (use Suc.prems b p in auto)
  then show ?case using loop b p(3) by (auto simp: algebra_simps comp_def)
qed


subsection \<open>Properties of the stream\<close>

text \<open>The input is in step with the encoder: superframe \<open>m\<close> comes next, nothing is left over.\<close>

definition avt_ready :: "nat \<Rightarrow> AVTInput \<Rightarrow> bool" where
  "avt_ready m a \<longleftrightarrow>
     oq_inv (avt_ordered a) \<and> oq_maxIndex (avt_ordered a) = MAX_QUEUE_SIZE
     \<and> 5 \<le> oq_capacity (avt_ordered a) \<and> oq_stock (avt_ordered a) = fmempty
     \<and> oq_lastIndexPop (avt_ordered a) = (5 * int m - 1) mod MAX_QUEUE_SIZE
     \<and> avt_nbFrames a = 0 \<and> avt_currentFrameSize a = 0 \<and> 0 < avt_dab24msFrameSize a
     \<and> length (avt_currentFrame a) = 5 * avt_dab24msFrameSize a \<and> w_pad a = []"

lemma carries_length: "carries sz r i d \<Longrightarrow> length d = sz"
  by (auto simp: carries_def)

lemma burst_lengths:
  assumes "mset (map fst fs) = mset (map (\<lambda>j. 5 * int m + int j) [0..<5])"
    and "list_all2 (\<lambda>(r, ts) (i, d). carries sz r i (oqd_buf d) \<and> ts = oqd_capture_timestamp d) rs fs" "j < 5"
  shows "length (oqd_buf (the (map_of fs (5 * int m + int j)))) = sz"
proof -
  have "5 * int m + int j \<in> fst ` set fs" using assms(3) mset_eq_setD [OF assms(1)] by auto
  then obtain d where d: "map_of fs (5 * int m + int j) = Some d" by (metis map_of_eq_None_iff not_None_eq)
  then have "(5 * int m + int j, d) \<in> set fs" by (rule map_of_SomeD)
  then show ?thesis using assms(2) d by (auto simp: list_all2_conv_all_nth in_set_conv_nth dest!: carries_length)
qed

text \<open>
  A new input: nothing has been received. The first datagram sets the number that is expected, so the superframe comes out whole if its
  first frame arrives first.
\<close>

definition avt_fresh :: "AVTInput \<Rightarrow> bool" where
  "avt_fresh a \<longleftrightarrow> oq_lastIndexPop (avt_ordered a) = -1
     \<and> avt_ready 0 (a\<lparr>avt_ordered := (avt_ordered a)\<lparr>oq_lastIndexPop := MAX_QUEUE_SIZE - 1\<rparr>\<rparr>)"

definition avt_phase :: "nat \<Rightarrow> AVTInput \<Rightarrow> (int \<times> OrderedQueueData) list \<Rightarrow> bool" where
  "avt_phase m a fs \<longleftrightarrow> avt_ready m a \<or> avt_fresh a \<and> fs \<noteq> [] \<and> fst (hd fs) = 5 * int m"

lemma avt_phase_queue:
  assumes "avt_phase m a fs" "m < 1000"
  obtains q where "avt_ready m (a\<lparr>avt_ordered := q\<rparr>)" "oq_push_all (avt_ordered a) fs = oq_push_all q fs"
proof (cases "avt_ready m a")
  case True
  then show thesis using that [of "avt_ordered a"] by simp
next
  case False
  then have f: "avt_fresh a" "fs \<noteq> []" "fst (hd fs) = 5 * int m" using assms(1) by (auto simp: avt_phase_def)
  let ?q = "(avt_ordered a)\<lparr>oq_lastIndexPop := (5 * int m - 1) mod 5000\<rparr>"
  have q: "oq_lastIndexPop (avt_ordered a) = -1" "oq_maxIndex (avt_ordered a) = 5000"
    using f(1) by (auto simp: avt_fresh_def avt_ready_def MAX_QUEUE_SIZE_def)
  have m: "0 \<le> (5 * int m - 1) mod 5000" "(5 * int m - 1) mod 5000 < 5000" by simp_all
  have ready: "avt_ready m (a\<lparr>avt_ordered := ?q\<rparr>)"
    using f(1) m by (auto simp: avt_fresh_def avt_ready_def MAX_QUEUE_SIZE_def oq_inv_def)
  obtain d fs' where fs: "fs = (5 * int m, d) # fs'" using f(2,3) by (cases fs) auto
  have ix: "crem (5 * int m + 5000) 5000 = 5 * int m" "crem (4999 + 5 * int m) 5000 = (5 * int m - 1) mod 5000"
    using assms(2) mod_add_self2 [of "5 * int m - 1" 5000] by (simp_all add: crem_nonneg add.commute)
  have "oq_push (avt_ordered a) (5 * int m) b ts = oq_push ?q (5 * int m) b ts" for b ts
  proof -
    have ne: "(5 * int m - 1) mod 5000 \<noteq> -1" using m by linarith
    have "(avt_ordered a)\<lparr>oq_lastIndexPop := (5 * int m - 1) mod 5000\<rparr> = ?q" ..
    then show ?thesis unfolding oq_push_def Let_def by (simp add: q ix ne)
  qed
  then have "oq_push_all (avt_ordered a) fs = oq_push_all ?q fs" by (simp add: fs oq_push_all_def)
  then show thesis using that ready by blast
qed

text \<open>Five datagrams give one superframe.\<close>

lemma burst_gives_superframe:
  fixes fs :: "(int \<times> OrderedQueueData) list"
  assumes phase: "avt_phase m a fs" and lt: "m < 1000"
    and perm: "mset (map fst fs) = mset (map (\<lambda>j. 5 * int m + int j) [0..<5])"
    and arrive: "list_all2 (\<lambda>(r, ts) (i, d). carries (avt_dab24msFrameSize a) r i (oqd_buf d)
      \<and> ts = oqd_capture_timestamp d) (w_frames a) fs"
    and room: "5 * avt_dab24msFrameSize a \<le> length buf"
  shows "\<exists>a' ts. getNextFrame a buf = Some (Inr (
      concat (map (\<lambda>j. oqd_buf (the (map_of fs (5 * int m + int j)))) [0..<5])
        @ drop (5 * avt_dab24msFrameSize a) buf,
      Some ts, 5 * avt_dab24msFrameSize a, a'))
    \<and> avt_ready (Suc m mod 1000) a' \<and> avt_frameAligned a'
    \<and> ts = (if avt_frameAligned a then avt_frameZeroTimestamp a + 5 * 24000000
            else oqd_capture_timestamp (the (map_of fs (5 * int m))) + 4 * 24000000)
    \<and> w_frames a' = [] \<and> avt_dab24msFrameSize a' = avt_dab24msFrameSize a \<and> avt_frameZeroTimestamp a' = ts"
proof -
  obtain q0 where q0: "avt_ready m (a\<lparr>avt_ordered := q0\<rparr>)" "oq_push_all (avt_ordered a) fs = oq_push_all q0 fs"
    by (rule avt_phase_queue [OF phase lt])
  note ready = q0(1) lt
  let ?sz = "avt_dab24msFrameSize a" and ?q = q0
  have r: "oq_inv ?q" "oq_maxIndex ?q = 5000" "5 \<le> oq_capacity ?q" "oq_stock ?q = fmempty"
    "oq_lastIndexPop ?q = (5 * int m - 1) mod 5000" "w_pad a = []"
    using ready by (auto simp: avt_ready_def MAX_QUEUE_SIZE_def)
  have ix: "oq_index ?q j = 5 * int m + int j" if "j < 5" for j
    using that ready(2) mod_add_left_eq [of "5 * int m - 1" 5000 "1 + int j"]
    by (simp add: oq_index_def r(2,5) add.assoc)
  have ixs: "map (oq_index ?q) [0..<5] = map (\<lambda>j. 5 * int m + int j) [0..<5]"
    using ix by simp
  have pos: "oq_lastIndexPop ?q \<noteq> -1" using r(5) by (metis pos_mod_sign zero_less_numeral add_0 linorder_not_le neg_less_0_iff_less one_add_one zero_less_one)
  obtain q' where q': "oq_pops 5 (oq_push_all ?q fs) = Some (q',
        map (\<lambda>j. (oq_index ?q j, the (map_of fs (oq_index ?q j)))) [0..<5])"
    "oq_inv q'" "oq_stock q' = fmempty" "oq_maxIndex q' = 5000" "5 \<le> oq_capacity q'"
    "oq_lastIndexPop q' = oq_index ?q 4"
    using oq_push_pops [OF r(1) pos r(4), of fs 5] perm r(2,3) unfolding ixs by auto
  obtain a1 where a1: "receive_loop a = Inr a1" "same_assembly a a1" "avt_ordered a1 = oq_push_all ?q fs" "w_frames a1 = []"
    using receive_loop_burst [OF arrive r(6)] q0(2) by metis
  let ?kds = "map (\<lambda>j. (5 * int m + int j, the (map_of fs (5 * int m + int j)))) [0..<5]"
  note len = burst_lengths [OF perm arrive]
  have "\<exists>b. assemble_loop (-1) a1 = Some (Inr b) \<and> avt_nbFrames b = 5 \<and> avt_ordered b = q'
    \<and> avt_currentFrameSize b = avt_currentFrameSize a1 + 5 * ?sz
    \<and> length (avt_currentFrame b) = length (avt_currentFrame a1)
    \<and> take (avt_currentFrameSize b) (avt_currentFrame b)
        = take (avt_currentFrameSize a1) (avt_currentFrame a1) @ concat (map (oqd_buf \<circ> snd) ?kds)
    \<and> avt_frameAligned b \<and> w_pad b = [] \<and> w_frames b = w_frames a1 \<and> avt_dab24msFrameSize b = avt_dab24msFrameSize a1
    \<and> avt_frameZeroTimestamp b =
        (if avt_frameAligned a1 then avt_frameZeroTimestamp a1 + 24000000 * int 5
         else oqd_capture_timestamp (snd (hd ?kds)) + 24000000 * (int 5 - 1))"
  proof (rule assemble_loop_pops)
    show "oq_pops 5 (avt_ordered a1) = Some (q', ?kds)" using q'(1) ix a1(3) by (simp cong: map_cong)
  qed (use a1(2) ready len in \<open>auto simp: same_assembly_def avt_ready_def nth_map_upt0\<close>)
  then obtain b where b: "assemble_loop (-1) a1 = Some (Inr b)" "avt_nbFrames b = 5" "avt_ordered b = q'"
    "avt_currentFrameSize b = 5 * ?sz" "length (avt_currentFrame b) = 5 * ?sz"
    "take (5 * ?sz) (avt_currentFrame b) = concat (map (oqd_buf \<circ> snd) ?kds)"
    "avt_frameAligned b" "w_pad b = []" "avt_dab24msFrameSize b = ?sz"
    "avt_frameZeroTimestamp b = (if avt_frameAligned a then avt_frameZeroTimestamp a + 5 * 24000000
            else oqd_capture_timestamp (the (map_of fs (5 * int m))) + 4 * 24000000)" "w_frames b = []"
    using a1(2,4) ready by (auto simp: same_assembly_def avt_ready_def upt_rec)
  let ?b = "b\<lparr>avt_currentFrameSize := 0, avt_nbFrames := 0\<rparr>"
  have "(5 * int m + 4) mod 5000 = (5 * int (Suc m mod 1000) - 1) mod 5000"
    using ready(2) by (cases "m = 999") auto
  then have "avt_ready (Suc m mod 1000) ?b"
    using q' b ready ix [of 4] by (simp add: avt_ready_def MAX_QUEUE_SIZE_def)
  moreover have "getNextFrame a buf = Some (Inr (concat (map (oqd_buf \<circ> snd) ?kds) @ drop (5 * ?sz) buf,
      Some (avt_frameZeroTimestamp b), 5 * ?sz, ?b))"
    using a1(1) b room by (simp add: getNextFrame_def Let_def)
  ultimately show ?thesis using b(7,9,10,11) by (simp add: comp_def)
qed

text \<open>C4: end to end, five datagrams give one superframe. If superframe \<open>m\<close> is next, or nothing has been
  received yet and the first datagram has its first frame, and its five
  frames (numbers \<open>5m\<close> to \<open>5m+4\<close>) arrive in any order, each in a datagram that carries it, then
  \<open>getNextFrame\<close> returns, in one call, the five frames in order, and is ready for superframe \<open>m+1\<close>
  (modulo 1000). The time stamp is the capture time of frame \<open>5m\<close> plus 96 ms after a loss of
  alignment, and otherwise runs on by 120 ms.\<close>

theorem getNextFrame_burst:
  fixes fs :: "(int \<times> OrderedQueueData) list"
  assumes "avt_phase m a fs" "m < 1000"
    and perm: "mset (map fst fs) = mset (map (\<lambda>j. 5 * int m + int j) [0..<5])"
    and arrive: "list_all2 (\<lambda>(r, ts) (i, d). carries (avt_dab24msFrameSize a) r i (oqd_buf d)
      \<and> ts = oqd_capture_timestamp d) (w_frames a) fs"
    and room: "5 * avt_dab24msFrameSize a \<le> length buf"
  shows "\<exists>a' ts. getNextFrame a buf = Some (Inr (
      concat (map (\<lambda>j. oqd_buf (the (map_of fs (5 * int m + int j)))) [0..<5])
        @ drop (5 * avt_dab24msFrameSize a) buf,
      Some ts, 5 * avt_dab24msFrameSize a, a'))
    \<and> avt_ready (Suc m mod 1000) a' \<and> avt_frameAligned a'
    \<and> ts = (if avt_frameAligned a then avt_frameZeroTimestamp a + 5 * 24000000
            else oqd_capture_timestamp (the (map_of fs (5 * int m))) + 4 * 24000000)"
  using burst_gives_superframe [OF assms] by blast

theorem getNextFrame_burst_witness:
  "\<exists>a' ts. getNextFrame ((AVTInput_init [] [] 0 40)
       \<lparr>avt_dab24msFrameSize := 24, avt_currentFrame := replicate 120 0,
        avt_ordered := (OrderedQueue_init 5000 40)\<lparr>oq_lastIndexPop := 4999\<rparr>,
        w_frames := map (\<lambda>j. (RecvData (sti_packet 0 STI_FSync0 (replicate 9 0) j 1 0 0
          (replicate 4 0) (replicate 24 (of_nat j)) []) 0, int j)) [3, 1, 0, 4, 2]\<rparr>) (replicate 120 7)
     = Some (Inr (concat (map (\<lambda>j. replicate 24 (of_nat j)) [0..<5]), Some ts, 120, a'))
   \<and> avt_ready 1 a' \<and> ts = 96000000"
proof -
  let ?b = "\<lambda>j. replicate 24 (of_nat j :: byte)"
  let ?a = "(AVTInput_init [] [] 0 40)
       \<lparr>avt_dab24msFrameSize := 24, avt_currentFrame := replicate 120 0,
        avt_ordered := (OrderedQueue_init 5000 40)\<lparr>oq_lastIndexPop := 4999\<rparr>,
        w_frames := map (\<lambda>j. (RecvData (sti_packet 0 STI_FSync0 (replicate 9 0) j 1 0 0
          (replicate 4 0) (?b j) []) 0, int j)) [3, 1, 0, 4, 2]\<rparr>"
  let ?fs = "map (\<lambda>j. (int j, \<lparr>oqd_buf = ?b j, oqd_capture_timestamp = int j\<rparr>)) [3, 1, 0, 4, 2]"
  have phase: "avt_phase 0 ?a ?fs"
    by (simp add: avt_phase_def avt_ready_def AVTInput_init_def OrderedQueue_init_def oq_inv_def MAX_QUEUE_SIZE_def)
  have c: "carries 24 (RecvData (sti_packet 0 STI_FSync0 (replicate 9 0) j 1 0 0 (replicate 4 0) (?b j) []) 0)
      (int j) (?b j)" if "j < 5" for j
    using carries_packet [of "[]" STI_FSync0 "replicate 9 0" j 1 0 "?b j" "replicate 4 0" "[]" 0 0] that
    by (simp add: sti_wf_def MAX_AVT_FRAME_SIZE_def)
  have len: "5 * avt_dab24msFrameSize ?a = 120" by simp
  have al: "\<not> avt_frameAligned ?a" by (simp add: AVTInput_init_def)
  obtain a' ts where r: "getNextFrame ?a (replicate 120 7) = Some (Inr (
        concat (map (\<lambda>j. oqd_buf (the (map_of ?fs (5 * int 0 + int j)))) [0..<5]) @ drop 120 (replicate 120 7),
        Some ts, 120, a'))" "avt_ready (Suc 0 mod 1000) a'"
      "ts = oqd_capture_timestamp (the (map_of ?fs (5 * int 0))) + 4 * 24000000"
    using getNextFrame_burst [OF phase, of "replicate 120 7"] c [of 0] c [of 1] c [of 2] c [of 3] c [of 4]
      len al by (force simp: upt_rec)
  then show ?thesis by (simp add: upt_rec)
qed

subsection \<open>Parameters\<close>

definition avt_mode :: "int \<Rightarrow> bool \<Rightarrow> bool \<Rightarrow> byte" where
  "avt_mode channels sbr ps =
     (if channels = 1 then (if sbr then 1 else 0) else if ps then 4 else if sbr then 3 else 2)"

lemma avt_inv_fresh:
  assumes "avt_ordered a = OrderedQueue_init MAX_QUEUE_SIZE j" "0 < avt_dab24msFrameSize a"
    and "length (avt_currentFrame a) = 5 * avt_dab24msFrameSize a"
    and "avt_nbFrames a = 0" "avt_currentFrameSize a = 0"
  shows "avt_inv F a"
proof -
  have "avt_partial F a []" using assms by (simp add: avt_partial_def superframe_of_def)
  then show ?thesis
    using assms unfolding avt_inv_def
    by (auto simp: oq_inv_def MAX_QUEUE_SIZE_def oq_contents_def OrderedQueue_init_def)
qed



subsection \<open>PAD provision\<close>

text \<open>The answer to a PAD request that carries the frame \<open>f\<close> given to \<open>pushPADFrame\<close>.\<close>

definition pad_provision :: "bytes \<Rightarrow> bytes" where
  "pad_provision f = [0xFD, 0x18, of_nat (length f + 2), 0xAD, of_nat (length f)] @ rev f"

definition pad_request :: "InetAddress \<Rightarrow> recv_result" where
  "pad_request adr = RecvData [0xFD, 0x17] adr"

lemma pushPADFrames_queue:
  assumes "avt_pad_port a \<noteq> 0" "[] \<notin> set fs"
  shows "foldl pushPADFrame a fs = a\<lparr>avt_padFrameQueue := avt_padFrameQueue a @ map rev fs\<rparr>"
  using assms by (induction fs arbitrary: a) (auto simp: pushPADFrame_def)

lemma message_loop_provides:
  assumes "avt_padFrameQueue a = map rev fs" "w_pad a = map pad_request adrs" "w_sendres a = []"
    and "length adrs \<le> length fs"
  shows "\<exists>a'. message_loop a = Inr a' \<and> avt_padFrameQueue a' = map rev (drop (length adrs) fs)
    \<and> w_sent a' = w_sent a @ map2 (\<lambda>adr f. (PadSocket, \<lparr>pkt_buffer = pad_provision f, pkt_address = adr\<rparr>)) adrs fs"
  using assms
proof (induction adrs arbitrary: a fs)
  case Nil
  then show ?case by (simp add: message_loop_quiet)
next
  case (Cons adr adrs)
  then obtain f fs' where fs: "fs = f # fs'" by (cases fs) auto
  let ?p = "\<lparr>pkt_buffer = pad_provision f, pkt_address = adr\<rparr>"
  let ?a = "a\<lparr>w_pad := map pad_request adrs, avt_pad_packet := ?p, avt_padFrameQueue := map rev fs',
    w_sent := w_sent a @ [(PadSocket, ?p)]\<rparr>"
  have "checkMessage a = Inr (True, ?a)"
    using Cons.prems fs
    by (simp add: checkMessage_def next_recv_def pad_request_def udp_receive_def interpretMessage_def
        sendPADFrame_def next_send_def udp_send_def pad_provision_def Let_def)
  then have "message_loop a = message_loop ?a" by (subst message_loop.simps) simp
  then show ?case using Cons.IH [of ?a fs'] Cons.prems fs by simp
qed

text \<open>C32: PAD frames reach the encoder once each, in the order they were given. After any non-empty
  PAD frames have been pushed on a configured PAD port, every request of the encoder is answered,
  to the address it came from, by the next frame: flag, command, sizes, and the bytes in reverse
  order (F-PAD first), as documented; the unrequested frames stay queued.\<close>

theorem pad_frames_provided_in_order:
  assumes "avt_pad_port a \<noteq> 0" "[] \<notin> set fs" "avt_padFrameQueue a = []" "w_sendres a = []"
    and "w_pad a = map pad_request adrs" "length adrs \<le> length fs"
  shows "\<exists>a'. message_loop (foldl pushPADFrame a fs) = Inr a'
    \<and> w_sent a' = w_sent a @ map2 (\<lambda>adr f. (PadSocket, \<lparr>pkt_buffer = pad_provision f, pkt_address = adr\<rparr>)) adrs fs
    \<and> avt_padFrameQueue a' = map rev (drop (length adrs) fs)"
  using message_loop_provides [of "a\<lparr>avt_padFrameQueue := map rev fs\<rparr>" fs adrs]
    pushPADFrames_queue [OF assms(1,2)] assms by auto

theorem pad_frames_provided_in_order_witness:
  "\<exists>a'. message_loop (foldl pushPADFrame
        ((AVTInput_init [] [] 9405 40)\<lparr>w_pad := [RecvData [0xFD, 0x17] 8]\<rparr>) [[1, 2], [3]]) = Inr a'
    \<and> w_sent a' = [(PadSocket, \<lparr>pkt_buffer = [0xFD, 0x18, 4, 0xAD, 2, 2, 1], pkt_address = 8\<rparr>)]
    \<and> avt_padFrameQueue a' = [[3]]"
  using pad_frames_provided_in_order
    [of "(AVTInput_init [] [] 9405 40)\<lparr>w_pad := [RecvData [0xFD, 0x17] 8]\<rparr>" "[[1, 2], [3]]" "[8]"]
  by (simp add: AVTInput_init_def pad_request_def pad_provision_def)

subsection \<open>Addresses\<close>

lemma strtol_dec_nat:
  assumes "int n < LONG_MAX"
  shows "strtol (dec_nat n) = int n"
proof -
  have dig: "is_digit c \<Longrightarrow> \<not> is_space c \<and> c \<noteq> CHR ''-'' \<and> c \<noteq> CHR ''+''" for c
    by (auto simp: is_digit_def is_space_def)
  have hd: "is_digit (hd (dec_nat n))" using dec_nat_digits [of n] by simp
  have "dropWhile is_space (dec_nat n) = dec_nat n"
    using dig [OF hd] by (cases "dec_nat n") auto
  moreover have "takeWhile is_digit (dec_nat n) = dec_nat n"
    using dec_nat_digits [of n] by (simp add: takeWhile_eq_all_conv)
  ultimately show ?thesis
    using assms dig [OF hd] unfolding strtol_def Let_def by (simp del: takeWhile_eq_all_conv add: LONG_MIN_def)
qed

text \<open>Every address the documentation allows is read back exactly: host without colon (possibly
  empty), port from 1 to 65535, with or without the \<open>udp://\<close> prefix; port 0 and ports above 65535
  are refused.\<close>

theorem parseURI_roundtrip:
  assumes "CHR '':'' \<notin> set host" "prefix = ''udp://'' \<or> prefix = [] \<and> take 6 (host @ '':'' @ dec_nat port) \<noteq> ''udp://''"
    and "int port < LONG_MAX"
  shows "parseURI (prefix @ host @ '':'' @ dec_nat port)
    = (if 0 < port \<and> port < 65536 then Some (host, int port) else None)"
proof -
  let ?adr = "host @ '':'' @ dec_nat port"
  have adr: "(if take 6 (prefix @ ?adr) = ''udp://'' then drop 6 (prefix @ ?adr) else prefix @ ?adr) = ?adr"
    using assms(2) by auto
  have pos: "length (takeWhile (\<lambda>c. c \<noteq> CHR '':'') ?adr) = length host"
    using assms(1) by (subst takeWhile_append2) auto
  show ?thesis
    unfolding parseURI_def adr Let_def pos
    using strtol_dec_nat [OF assms(3)] assms(3) by (simp add: LONG_MIN_def LONG_MAX_def)
qed

theorem parseURI_roundtrip_witness:
  "parseURI ''udp://239.1.2.3:32010'' = Some (''239.1.2.3'', 32010)"
proof -
  have "dec_nat 32010 = ''32010''" by (simp add: dec_nat.simps digit_char_def char_of_def bit_0)
  then show ?thesis
    using parseURI_roundtrip [of "''239.1.2.3''" "''udp://''" 32010] by (simp add: LONG_MAX_def)
qed

subsection \<open>Where the reader of the frame leaves the datagram or misreads it\<close>

text \<open>C40: no offset is checked against the size of the datagram. A datagram that starts like an STI
  frame of the right size, but ends before the data its stream count points to, makes the input
  read outside the received bytes.\<close>

theorem readFrame_overread:
  assumes "sti_wf sync hdr fn nst y data" "length data = avt_dab24msFrameSize a"
    and "bs = sti_packet e sync hdr fn nst x y strm data rest" "length bs \<le> MAX_AVT_FRAME_SIZE"
    and "length bs < 20 + nst * 4 + length data" "w_frames a = (RecvData bs adr, ts) # script"
  shows "readFrame a = Inl OutOfBounds"
proof -
  let ?a = "a\<lparr>w_frames := script\<rparr>"
  have "sti_extract bs = Inr (Some (int fn, length data, 20 + nst * 4))"
    using sti_extract_packet [of "[]", OF _ assms(1)] assms(3) by simp
  then obtain a1 where a1: "findDABFrameFromUDP ?a bs = Inr (Some (int fn, length data, 20 + nst * 4), a1)"
    using findDAB_extract [of ?a bs] by (auto split: sum.splits prod.splits)
  have len: "avt_dab24msFrameSize a < length bs"
    using sti_packet_length [OF assms(1)] assms(2,3) by auto
  then have "bs \<noteq> []" by auto
  then have "readFrame a = readFrame_packet ?a bs ts"
    using assms(4,6) by (simp add: readFrame_def udp_receive_def)
  also have "\<dots> = Inl OutOfBounds"
    using a1 len assms(2,5) findDAB_same [OF a1] by (simp add: readFrame_packet_def)
  finally show ?thesis .
qed

theorem readFrame_overread_witness:
  "readFrame ((AVTInput_init [] [] 0 40)\<lparr>avt_dab24msFrameSize := 24,
      w_frames := [(RecvData (sti_packet 0 STI_FSync0 (replicate 9 0) 0 2000 0 0 [] (replicate 24 0) []) 0, 0)]\<rparr>)
    = Inl OutOfBounds"
  by (rule readFrame_overread [of STI_FSync0 "replicate 9 0" 0 2000 0 "replicate 24 0" _ _ 0 0 "[]" "[]"])
     (simp_all add: sti_wf_def sti_packet_def STI_FSync0_def MAX_AVT_FRAME_SIZE_def)

text \<open>The stream CRC flag is misread. In a frame whose stream has a CRC (bit 7 of the last
  characterisation byte, which the code's comment announces) the two CRC bytes should be taken off
  the stream length; the code tests bit 0 instead, finds a frame two bytes too long, and drops it.\<close>

theorem readFrame_drops_crc_stream:
  assumes "sti_wf sync hdr fn nst y (data @ [c0, c1])" "bit y 7" "length data = avt_dab24msFrameSize a"
    and "bs = sti_packet e sync hdr fn nst x y strm (data @ [c0, c1]) rest" "length bs \<le> MAX_AVT_FRAME_SIZE"
    and "w_frames a = (RecvData bs adr, ts) # script"
  shows "\<exists>a'. readFrame a = Inr (True, a') \<and> avt_ordered a' = avt_ordered a"
proof -
  let ?a = "a\<lparr>w_frames := script\<rparr>"
  have "sti_extract bs = Inr (Some (int fn, length data + 2, 20 + nst * 4))"
    using sti_extract_packet [of "[]", OF _ assms(1)] assms(4) by simp
  then obtain a1 where a1: "findDABFrameFromUDP ?a bs = Inr (Some (int fn, length data + 2, 20 + nst * 4), a1)"
    using findDAB_extract [of ?a bs] by (auto split: sum.splits prod.splits)
  have len: "avt_dab24msFrameSize a < length bs"
    using sti_packet_length [OF assms(1)] assms(3,4) by auto
  then have "bs \<noteq> []" by auto
  then have "readFrame a = readFrame_packet ?a bs ts"
    using assms(5,6) by (simp add: readFrame_def udp_receive_def)
  also have "\<dots> = Inr (True, a1)"
    using a1 len assms(3) findDAB_same [OF a1] by (simp add: readFrame_packet_def)
  finally show ?thesis using findDAB_same [OF a1] by simp
qed

theorem readFrame_drops_crc_stream_witness:
  "\<exists>a'. readFrame ((AVTInput_init [] [] 0 40)\<lparr>avt_dab24msFrameSize := 24,
      w_frames := [(RecvData (sti_packet 0 STI_FSync0 (replicate 9 0) 0 1 0 0x80 (replicate 4 0)
         (replicate 24 5 @ [1, 2]) []) 0, 0)]\<rparr>) = Inr (True, a')
    \<and> avt_ordered a' = OrderedQueue_init MAX_QUEUE_SIZE 40"
proof -
  have "sti_wf STI_FSync0 (replicate 9 0) 0 1 0x80 (replicate 24 5 @ [1, 2])" "bit (0x80 :: byte) 7"
    by (simp_all add: sti_wf_def)
  from readFrame_drops_crc_stream [OF this, of "(AVTInput_init [] [] 0 40)\<lparr>avt_dab24msFrameSize := 24,
      w_frames := [(RecvData (sti_packet 0 STI_FSync0 (replicate 9 0) 0 1 0 0x80 (replicate 4 0)
         (replicate 24 5 @ [1, 2]) []) 0, 0)]\<rparr>" _ 0 0 "replicate 4 0" "[]" 0 0 "[]", OF _ refl]
  show ?thesis
    by (simp add: AVTInput_init_def sti_packet_def STI_FSync0_def MAX_AVT_FRAME_SIZE_def)
qed

end
