(* ===== verification/AACDecoder.thy ===== *)
theory AACDecoder
  imports Prelude
begin

text \<open>
  Model of \<open>src/AACDecoder.h\<close> and \<open>src/AACDecoder.cpp\<close>: the header of a DAB+ superframe, the
  configuration of the decoder, and the peaks of the decoded audio. The FDK AAC library is not part
  of the repository: its three functions are a record of functions on an abstract decoder handle.
  Memory that is not there is \<open>OutOfBounds\<close>. Prints are left out.
\<close>

unbundle bit_operations_syntax

text \<open>
  \<open>fdk_config h asc\<close> is the result code of \<open>aacDecoder_ConfigRaw\<close>, \<open>fdk_fill h data\<close> the result code of
  \<open>aacDecoder_Fill\<close> and the number of bytes it left, \<open>fdk_decode h n\<close> the result code of \<open>aacDecoder_DecodeFrame\<close> and
  the contents of the output buffer of \<open>n\<close> bytes. The code 0 is \<open>AAC_DEC_OK\<close>.
\<close>

record 'h fdk =
  fdk_config :: "'h \<Rightarrow> bytes \<Rightarrow> int \<times> 'h"
  fdk_fill :: "'h \<Rightarrow> bytes \<Rightarrow> int \<times> nat \<times> 'h"
  fdk_decode :: "'h \<Rightarrow> nat \<Rightarrow> int \<times> bytes \<times> 'h"

record 'h AACDecoder =
  ad_set_up :: bool
  ad_channels :: nat
  ad_peak_left :: int
  ad_peak_right :: int
  ad_handle :: 'h
  ad_output_frame :: bytes

text \<open>The constructor: \<open>None\<close> is a decoder that could not be opened.\<close>

definition AACDecoder_init :: "'h option \<Rightarrow> exn + 'h AACDecoder" where
  "AACDecoder_init h =
     (case h of
        None \<Rightarrow> Inl RuntimeError
      | Some handle \<Rightarrow> Inr \<lparr>ad_set_up = False, ad_channels = 0, ad_peak_left = 0, ad_peak_right = 0,
          ad_handle = handle, ad_output_frame = []\<rparr>)"

definition get_peaks :: "'h AACDecoder \<Rightarrow> (int \<times> int) \<times> 'h AACDecoder" where
  "get_peaks d = ((ad_peak_left d, ad_peak_right d), d\<lparr>ad_peak_left := 0, ad_peak_right := 0\<rparr>)"

subsection \<open>Access units\<close>

text \<open>\<open>int16_t\<close> from two bytes, the low one first.\<close>

definition sample16 :: "byte \<Rightarrow> byte \<Rightarrow> int" where
  "sample16 lo hi = sint (ucast lo OR push_bit 8 (ucast hi) :: u16)"

fun peak_loop :: "bytes \<Rightarrow> int \<times> int \<Rightarrow> int \<times> int" where
  "peak_loop (a # b # c # d # rest) (pl, pr) = peak_loop rest (max pl (sample16 a b), max pr (sample16 c d))"
| "peak_loop _ p = p"

definition decode_au :: "'h fdk \<Rightarrow> 'h AACDecoder \<Rightarrow> bytes \<Rightarrow> exn option \<times> 'h AACDecoder" where
  "decode_au lib d data =
     (let (r1, bytes_valid, h1) = fdk_fill lib (ad_handle d) data;
          d1 = d\<lparr>ad_handle := h1\<rparr>
      in if r1 \<noteq> 0 then (Some RuntimeError, d1)
         else if bytes_valid \<noteq> 0 then (Some RuntimeError, d1)
         else
           (let (r2, out, h2) = fdk_decode lib h1 (length (ad_output_frame d));
                d2 = d1\<lparr>ad_handle := h2, ad_output_frame := out\<rparr>
            in if r2 \<noteq> 0 then (Some RuntimeError, d2)
               else
                 (let (pl, pr) = peak_loop out (ad_peak_left d2, ad_peak_right d2)
                  in (None, d2\<lparr>ad_peak_left := pl, ad_peak_right := pr\<rparr>))))"

subsection \<open>Superframes\<close>

record aac_header =
  ah_dac_rate :: bool
  ah_sbr_flag :: bool
  ah_aac_channel_mode :: bool
  ah_ps_flag :: bool

definition aac_header_of :: "bytes \<Rightarrow> aac_header" where
  "aac_header_of data =
     \<lparr>ah_dac_rate = bit (data ! 2) 6, ah_sbr_flag = bit (data ! 2) 5, ah_aac_channel_mode = bit (data ! 2) 4,
      ah_ps_flag = bit (data ! 2) 3\<rparr>"

definition num_aus :: "aac_header \<Rightarrow> nat" where
  "num_aus h = (if ah_dac_rate h then (if ah_sbr_flag h then 3 else 6) else (if ah_sbr_flag h then 2 else 4))"

text \<open>\<open>data[i] << 4 | data[i+1] >> 4\<close> and \<open>(data[i] & 0x0F) << 8 | data[i+1]\<close>\<close>

definition au_field_high :: "bytes \<Rightarrow> nat \<Rightarrow> nat" where
  "au_field_high data i = unat (push_bit 4 (ucast (data ! i)) OR drop_bit 4 (ucast (data ! (i + 1))) :: u32)"

definition au_field_low :: "bytes \<Rightarrow> nat \<Rightarrow> nat" where
  "au_field_low data i = unat (push_bit 8 (ucast (data ! i AND 0x0F)) OR ucast (data ! (i + 1)) :: u32)"

text \<open>How many bytes the header needs for that many units.\<close>

definition au_header_size :: "nat \<Rightarrow> nat" where
  "au_header_size n = (if n = 6 then 11 else if n \<ge> 4 then 8 else if n \<ge> 3 then 6 else 5)"

text \<open>The array \<open>au_start\<close> has six entries, so six access units leave no room for the end marker.\<close>

definition au_starts :: "aac_header \<Rightarrow> bytes \<Rightarrow> nat \<Rightarrow> exn + nat list" where
  "au_starts h data len =
     (let n = num_aus h;
          first = (if ah_dac_rate h then (if ah_sbr_flag h then 6 else 11) else (if ah_sbr_flag h then 5 else 8));
          a = replicate 6 0;
          a = a[0 := first, 1 := au_field_high data 3];
          a = (if n \<ge> 3 then a[2 := au_field_low data 4] else a);
          a = (if n \<ge> 4 then a[3 := au_field_high data 6] else a);
          a = (if n = 6 then a[4 := au_field_low data 7, 5 := au_field_high data 9] else a)
      in if n \<ge> length a then Inl OutOfBounds else Inr (a[n := len]))"

definition au_ordered :: "nat list \<Rightarrow> nat \<Rightarrow> bool" where
  "au_ordered a n = list_all (\<lambda>i. a ! i < a ! (i + 1)) [0..<n]"

definition core_sr_index :: "aac_header \<Rightarrow> nat" where
  "core_sr_index h = (if ah_dac_rate h then (if ah_sbr_flag h then 6 else 3) else (if ah_sbr_flag h then 8 else 5))"

definition core_ch_config :: "aac_header \<Rightarrow> nat" where
  "core_ch_config h = (if ah_aac_channel_mode h then 2 else 1)"

definition extension_sr_index :: "aac_header \<Rightarrow> nat" where
  "extension_sr_index h = (if ah_dac_rate h then 3 else 5)"

text \<open>The AudioSpecificConfig.\<close>

definition aac_asc :: "aac_header \<Rightarrow> bytes" where
  "aac_asc h =
     (let asc = [push_bit 3 0b00010 OR of_nat (core_sr_index h div 2),
                 push_bit 7 (of_nat (core_sr_index h mod 2)) OR push_bit 3 (of_nat (core_ch_config h)) OR 0b100]
      in if ah_sbr_flag h then
           (let ext = 0x80 OR push_bit 3 (of_nat (extension_sr_index h)) :: byte
            in asc @ [0x56, 0xE5] @ (if ah_ps_flag h then [ext OR 0x05, 0x48, 0x80] else [ext]))
         else asc)"

definition aac_set_up :: "'h fdk \<Rightarrow> 'h AACDecoder \<Rightarrow> aac_header \<Rightarrow> exn option \<times> 'h AACDecoder" where
  "aac_set_up lib d h =
     (let (r, h1) = fdk_config lib (ad_handle d) (aac_asc h);
          d1 = d\<lparr>ad_handle := h1\<rparr>
      in if r \<noteq> 0 then (Some RuntimeError, d1)
         else
           (let channels = (if ah_aac_channel_mode h \<or> ah_ps_flag h then 2 else 1);
                output_frame_len = 960 * 2 * channels * (if ah_sbr_flag h then 2 else 1)
            in (None, d1\<lparr>ad_channels := channels, ad_set_up := True, ad_output_frame :=
                  take output_frame_len (ad_output_frame d1)
                  @ replicate (output_frame_len - length (ad_output_frame d1)) 0\<rparr>)))"

text \<open>The access units: \<open>au_len\<close> is a \<open>size_t\<close>, so it wraps when a unit is shorter than its CRC; the library
  gets it as \<open>unsigned int\<close> and reads so many bytes.\<close>

fun decode_aus :: "'h fdk \<Rightarrow> 'h AACDecoder \<Rightarrow> bytes \<Rightarrow> nat list \<Rightarrow> nat list \<Rightarrow> exn option \<times> 'h AACDecoder" where
  "decode_aus lib d data a [] = (None, d)"
| "decode_aus lib d data a (i # is) =
     (let au_len = (of_nat (a ! (i + 1) - a ! i) - 2 :: u64);
          n = unat (ucast au_len :: u32)
      in if length data < a ! i + n then (Some OutOfBounds, d)
         else (case decode_au lib d (take n (drop (a ! i) data)) of
                 (Some e, d1) \<Rightarrow> (Some e, d1)
               | (None, d1) \<Rightarrow> decode_aus lib d1 data a is))"

definition decode_frame :: "'h fdk \<Rightarrow> 'h AACDecoder \<Rightarrow> bytes \<Rightarrow> nat \<Rightarrow> exn option \<times> 'h AACDecoder" where
  "decode_frame lib d data len =
     (let h = aac_header_of data; n = num_aus h
      in if length data < 3 \<or> length data < au_header_size n then (Some OutOfBounds, d)
         else
           (case au_starts h data len of
              Inl e \<Rightarrow> (Some e, d)
            | Inr a \<Rightarrow>
                if \<not> au_ordered a n then (Some RuntimeError, d)
                else (case (if ad_set_up d then (None, d) else aac_set_up lib d h) of
                        (Some e, d1) \<Rightarrow> (Some e, d1)
                      | (None, d1) \<Rightarrow> decode_aus lib d1 data a [0..<n])))"

subsection \<open>What is decoded\<close>

text \<open>Decoding a list of access units one after the other.\<close>

fun decode_list :: "'h fdk \<Rightarrow> 'h AACDecoder \<Rightarrow> bytes list \<Rightarrow> exn option \<times> 'h AACDecoder" where
  "decode_list lib d [] = (None, d)"
| "decode_list lib d (u # us) =
     (case decode_au lib d u of (Some e, d1) \<Rightarrow> (Some e, d1) | (None, d1) \<Rightarrow> decode_list lib d1 us)"

lemma au_starts_end:
  assumes "au_starts h data len = Inr a"
  shows "length a = 6" "num_aus h < 6" "a ! num_aus h = len"
  using assms by (auto simp: au_starts_def Let_def split: if_splits)

lemma chain_le:
  assumes "\<And>i. i < n \<Longrightarrow> a ! i + 2 \<le> a ! (i + 1)" "i \<le> n"
  shows "a ! i \<le> (a ! n :: nat)"
  using assms(2) by (induction rule: inc_induct) (use assms(1) in \<open>fastforce+\<close>)

lemma au_len_exact:
  assumes "x + 2 \<le> y" "y < (2 :: nat) ^ 32"
  shows "unat (ucast (of_nat (y - x) - 2 :: u64) :: u32) = y - x - 2"
proof -
  have "(of_nat (y - x) - 2 :: u64) = of_nat (y - x - 2)" using assms(1) by (simp add: of_nat_diff)
  moreover have "unat (of_nat (y - x - 2) :: u64) = y - x - 2" using assms(2) by (intro unat_of_nat_id) simp
  ultimately have "unat (of_nat (y - x) - 2 :: u64) = y - x - 2" by (simp only:)
  then show ?thesis using assms(2) by (simp only: unsigned_ucast_eq) (simp add: take_bit_nat_eq_self)
qed

lemma decode_aus_list:
  assumes "\<And>i. i \<in> set is \<Longrightarrow> a ! i + 2 \<le> a ! (i + 1) \<and> a ! (i + 1) \<le> length data" "length data < 2 ^ 32"
  shows "decode_aus lib d data a is = decode_list lib d (map (\<lambda>i. take (a ! (i + 1) - a ! i - 2) (drop (a ! i) data)) is)"
  using assms(1)
proof (induction "is" arbitrary: d)
  case (Cons i "is")
  have i: "a ! i + 2 \<le> a ! (i + 1)" "a ! (i + 1) \<le> length data" using Cons.prems by simp_all
  then have "unat (ucast (of_nat (a ! (i + 1) - a ! i) - 2 :: u64) :: u32) = a ! (i + 1) - a ! i - 2"
    using assms(2) by (intro au_len_exact) simp_all
  moreover have "\<not> length data < a ! i + (a ! (i + 1) - a ! i - 2)" using i by simp
  ultimately show ?case
    using Cons by (simp only: decode_aus.simps decode_list.simps list.map Let_def if_False list.set_intros)
qed simp

lemma segments_concat:
  assumes "\<And>i. i < n \<Longrightarrow> a ! i \<le> a ! (i + 1)" "a ! n \<le> length data"
  shows "concat (map (\<lambda>i. take (a ! (i + 1) - a ! i) (drop (a ! i) data)) [0..<n]) = take (a ! n - a ! 0) (drop (a ! 0) data)"
  using assms
proof (induction n)
  case (Suc n)
  have le: "a ! 0 \<le> a ! n" using Suc.prems(1)
  proof (induction n)
    case (Suc n)
    then show ?case by (metis Suc_eq_plus1 less_SucI lessI order_trans)
  qed simp
  have "a ! n \<le> a ! Suc n" using Suc.prems(1) [of n] by simp
  then have "take (a ! Suc n - a ! 0) (drop (a ! 0) data) = take (a ! n - a ! 0) (drop (a ! 0) data)
      @ take (a ! Suc n - a ! n) (drop (a ! n) data)"
    using le take_add [of "a ! n - a ! 0" "a ! Suc n - a ! n" "drop (a ! 0) data"] by simp
  then show ?case using Suc \<open>a ! n \<le> a ! Suc n\<close> by simp
qed simp

text \<open>C28: a superframe is cut into its access units. When the header is not the one with six units and its start offsets
  leave room for a CRC in each unit, a configured decoder is fed, in order, the units without their CRCs;
  units and CRCs together are exactly the superframe from the first unit to the end.\<close>

theorem decode_frame_units:
  assumes "au_starts (aac_header_of data) data len = Inr a" "au_header_size (num_aus (aac_header_of data)) \<le> length data"
    and "\<forall>i < num_aus (aac_header_of data). a ! i + 2 \<le> a ! (i + 1)"
    and "len \<le> length data" "length data < 2 ^ 31" "ad_set_up d"
  shows "decode_frame lib d data len = decode_list lib d
      (map (\<lambda>i. take (a ! (i + 1) - a ! i - 2) (drop (a ! i) data)) [0..<num_aus (aac_header_of data)])
    \<and> concat (map (\<lambda>i. take (a ! (i + 1) - a ! i) (drop (a ! i) data)) [0..<num_aus (aac_header_of data)])
        = take (len - a ! 0) (drop (a ! 0) data)"
proof -
  let ?n = "num_aus (aac_header_of data)"
  note e = au_starts_end [OF assms(1)]
  have three: "\<not> length data < 3" using assms(2) by (auto simp: au_header_size_def split: if_splits)
  have up: "a ! i + 2 \<le> a ! (i + 1) \<and> a ! (i + 1) \<le> length data" if "i < ?n" for i
    using chain_le [of ?n a "i + 1"] assms(3,4) e(3) that by auto
  have "au_ordered a ?n" unfolding au_ordered_def list_all_iff using assms(3) by fastforce
  moreover have "decode_aus lib d data a [0..<?n] = decode_list lib d
      (map (\<lambda>i. take (a ! (i + 1) - a ! i - 2) (drop (a ! i) data)) [0..<?n])"
    by (rule decode_aus_list) (use up assms(5) in auto)
  ultimately have "decode_frame lib d data len = decode_list lib d
      (map (\<lambda>i. take (a ! (i + 1) - a ! i - 2) (drop (a ! i) data)) [0..<?n])"
    using assms(1,2,6) three by (simp add: decode_frame_def Let_def)
  moreover have "concat (map (\<lambda>i. take (a ! (i + 1) - a ! i) (drop (a ! i) data)) [0..<?n]) = take (len - a ! 0) (drop (a ! 0) data)"
    using segments_concat [of ?n a data] assms(3,4) e(3) by (metis add_leD1)
  ultimately show ?thesis by blast
qed

theorem decode_frame_units_witness:
  "decode_frame \<lparr>fdk_config = \<lambda>h asc. (0, h), fdk_fill = \<lambda>h x. (0, 0, h @ [x]), fdk_decode = \<lambda>h n. (0, [], h)\<rparr>
     \<lparr>ad_set_up = True, ad_channels = 2, ad_peak_left = 0, ad_peak_right = 0, ad_handle = [], ad_output_frame = []\<rparr>
     [0, 0, 0x20, 0, 0x90, 1, 2, 3, 4, 5, 6, 7, 8, 9] 14
   = (None, \<lparr>ad_set_up = True, ad_channels = 2, ad_peak_left = 0, ad_peak_right = 0, ad_handle = [[1, 2], [5, 6, 7]], ad_output_frame = []\<rparr>)"
proof -
  let ?d = "[0, 0, 0x20, 0, 0x90, 1, 2, 3, 4, 5, 6, 7, 8, 9] :: bytes"
  have h: "ah_dac_rate (aac_header_of ?d) = False" "ah_sbr_flag (aac_header_of ?d) = True"
    by (simp_all add: aac_header_of_def bit_numeral_rec)
  then have n: "num_aus (aac_header_of ?d) = 2" by (simp add: num_aus_def)
  have r: "replicate 6 (0 :: nat) = [0, 0, 0, 0, 0, 0]" by (simp add: numeral_eq_Suc)
  have f: "au_field_high ?d 3 = 9" by (simp add: au_field_high_def)
  have a: "au_starts (aac_header_of ?d) ?d 14 = Inr [5, 9, 14, 0, 0, 0]"
    unfolding au_starts_def n h Let_def r f by (simp add: numeral_2_eq_2)
  have "\<forall>i < num_aus (aac_header_of ?d). [5, 9, 14, 0, 0, 0 :: nat] ! i + 2 \<le> [5, 9, 14, 0, 0, 0] ! (i + 1)"
    unfolding n by (auto simp: less_2_cases_iff)
  note units = decode_frame_units [OF a _ this, THEN conjunct1]
  show ?thesis
    by (subst units) (simp_all add: n au_header_size_def decode_au_def upt_rec Let_def)
qed

text \<open>Superframes with six access units (48 kHz without SBR) are never decoded: storing the end of the last unit writes
  behind the array of start offsets.\<close>

theorem decode_frame_six_units:
  assumes "ah_dac_rate (aac_header_of data)" "\<not> ah_sbr_flag (aac_header_of data)"
  shows "decode_frame lib d data len = (Some OutOfBounds, d)"
  using assms by (simp add: decode_frame_def Let_def au_starts_def num_aus_def)

theorem decode_frame_six_units_witness:
  "decode_frame \<lparr>fdk_config = \<lambda>h asc. (0, h), fdk_fill = \<lambda>h x. (0, 0, h), fdk_decode = \<lambda>h n. (0, [], h)\<rparr>
     \<lparr>ad_set_up = True, ad_channels = 2, ad_peak_left = 0, ad_peak_right = 0, ad_handle = (), ad_output_frame = []\<rparr>
     (0 # 0 # 0x50 # replicate 100 0) 100
   = (Some OutOfBounds, \<lparr>ad_set_up = True, ad_channels = 2, ad_peak_left = 0, ad_peak_right = 0, ad_handle = (), ad_output_frame = []\<rparr>)"
  by (rule decode_frame_six_units) (simp_all add: aac_header_of_def bit_numeral_rec)

end
