(* ===== verification/Peripherals.thy ===== *)
theory Peripherals
  imports Sockets
begin

text \<open>
  Model of \<open>src/PadInterface.h\<close>, \<open>src/PadInterface.cpp\<close>, \<open>src/StatsPublish.h\<close>, \<open>src/StatsPublish.cpp\<close> and of
  \<open>src/utils.c\<close>: the UNIX datagram sockets to the PAD encoder and to a statistics collector. The answers of the
  system calls are arguments, as in \<open>Sockets\<close>; what is sent is part of the result. Prints are left out.
\<close>

subsection \<open>UNIX sockets\<close>

text \<open>\<open>snprintf\<close> into \<open>sun_path\<close>, which has 108 characters.\<close>

definition sun_path :: "string \<Rightarrow> string" where
  "sun_path s = take 107 s"

text \<open>The steps that both constructors share: the descriptor from \<open>socket\<close>, whether the flags can be read and set, and whether \<open>bind\<close>
  accepts a path.\<close>

record unix_env =
  ue_socket :: int
  ue_getfl :: bool
  ue_setfl :: bool
  ue_bind :: "string \<Rightarrow> bool"

definition unix_open :: "unix_env \<Rightarrow> string \<Rightarrow> exn option \<times> int" where
  "unix_open env path =
     (let sock = ue_socket env
      in if sock = -1 then (Some RuntimeError, sock)
         else if \<not> ue_getfl env then (Some RuntimeError, sock)
         else if \<not> ue_setfl env then (Some RuntimeError, sock)
         else if \<not> ue_bind env path then (Some RuntimeError, sock)
         else (None, sock))"

text \<open>\<open>sendto\<close>: an error, or the number of bytes.\<close>

datatype unix_sent = SendError errno | SentBytes nat

text \<open>How both classes remember whether the other side can be reached.\<close>

definition reachable_after :: "bool \<Rightarrow> nat \<Rightarrow> unix_sent \<Rightarrow> bool" where
  "reachable_after reachable sz ret =
     (case ret of
        SendError e \<Rightarrow> if e = EAGAIN \<or> e = ECONNREFUSED \<or> e = ENOENT then False else reachable
      | SentBytes n \<Rightarrow> if n \<noteq> sz then reachable else True)"

subsection \<open>The PAD interface\<close>

record PadInterface =
  pi_pad_ident :: string
  pi_sock :: int
  pi_padenc_reachable :: bool

definition PadInterface_init :: PadInterface where
  "PadInterface_init = \<lparr>pi_pad_ident = '''', pi_sock = -1, pi_padenc_reachable = True\<rparr>"

definition pad_open :: "unix_env \<Rightarrow> PadInterface \<Rightarrow> string \<Rightarrow> exn option \<times> PadInterface" where
  "pad_open env p pad_ident =
     (case unix_open env (sun_path (''/tmp/'' @ pad_ident @ ''.audioenc'')) of
        (e, sock) \<Rightarrow> (e, p\<lparr>pi_pad_ident := pad_ident, pi_sock := sock\<rparr>))"

definition MESSAGE_REQUEST :: byte where "MESSAGE_REQUEST = 1"
definition MESSAGE_PAD_DATA :: byte where "MESSAGE_PAD_DATA = 2"

text \<open>
  The receive loop. A message that is not PAD data leaves the buffer as short as that message, and the next one is received
  into what is left of it. An empty datagram is ignored.
\<close>

fun pad_recv_loop :: "nat \<Rightarrow> recv_result list \<Rightarrow> exn + bytes \<times> recv_result list" where
  "pad_recv_loop sz [] = Inr ([], [])"
| "pad_recv_loop sz (RecvError e # rs) = (if e \<noteq> EAGAIN then Inl RuntimeError else Inr ([], rs))"
| "pad_recv_loop sz (RecvData bs a # rs) =
     (let buffer = take sz bs
      in if buffer = [] then pad_recv_loop sz rs
         else if buffer ! 0 = MESSAGE_PAD_DATA then Inr (drop 1 buffer, rs)
         else pad_recv_loop (length buffer) rs)"

text \<open>\<open>request\<close>: the PAD data, the datagram that was sent with its destination, and the interface.\<close>

definition pad_request ::
  "PadInterface \<Rightarrow> byte \<Rightarrow> unix_sent \<Rightarrow> recv_result list
    \<Rightarrow> exn + bytes \<times> (string \<times> bytes) \<times> recv_result list \<times> PadInterface" where
  "pad_request p padlen ret rs =
     (if pi_pad_ident p = '''' then Inl LogicError
      else
        (let packet = [MESSAGE_REQUEST, padlen];
             path = sun_path (''/tmp/'' @ pi_pad_ident p @ ''.padenc'');
             p1 = p\<lparr>pi_padenc_reachable := reachable_after (pi_padenc_reachable p) (length packet) ret\<rparr>
         in case pad_recv_loop 2048 rs of
              Inl e \<Rightarrow> Inl e
            | Inr (pad_data, rest) \<Rightarrow> Inr (pad_data, (path, packet), rest, p1)))"

subsection \<open>Statistics\<close>

text \<open>Decimal numbers with a sign.\<close>

record StatsPublisher =
  sp_socket_path :: string
  sp_sock :: int
  sp_audio_left :: u16
  sp_audio_right :: u16
  sp_num_underruns :: u64
  sp_num_overruns :: u64
  sp_destination_available :: bool

definition StatsPublisher_init :: "unix_env \<Rightarrow> nat \<Rightarrow> string \<Rightarrow> fdtable \<Rightarrow> (exn + StatsPublisher) \<times> fdtable" where
  "StatsPublisher_init env pid socket_path fds =
     (case unix_open env (sun_path (''/tmp/odr-audioenc.'' @ dec_nat pid)) of
        (e, sock) \<Rightarrow>
          (let fds1 = (if sock = -1 then fds else insert sock fds)
           in case e of
                Some x \<Rightarrow> (Inl x, fds1)
              | None \<Rightarrow>
                  (Inr \<lparr>sp_socket_path = socket_path, sp_sock = sock, sp_audio_left = 0, sp_audio_right = 0, sp_num_underruns = 0,
                        sp_num_overruns = 0, sp_destination_available = True\<rparr>, fds1)))"

definition StatsPublisher_destroy :: "StatsPublisher \<Rightarrow> fdtable \<Rightarrow> fdtable" where
  "StatsPublisher_destroy s fds = (if sp_sock s \<noteq> -1 then close_fd (sp_sock s) fds else fds)"

definition stats_update_audio_levels :: "StatsPublisher \<Rightarrow> u16 \<Rightarrow> u16 \<Rightarrow> StatsPublisher" where
  "stats_update_audio_levels s audiolevel_left audiolevel_right =
     s\<lparr>sp_audio_left := audiolevel_left, sp_audio_right := audiolevel_right\<rparr>"

definition notify_underrun :: "StatsPublisher \<Rightarrow> StatsPublisher" where
  "notify_underrun s = s\<lparr>sp_num_underruns := sp_num_underruns s + 1\<rparr>"

definition notify_overrun :: "StatsPublisher \<Rightarrow> StatsPublisher" where
  "notify_overrun s = s\<lparr>sp_num_overruns := sp_num_overruns s + 1\<rparr>"

text \<open>The name and the version of the package come from the build.\<close>

definition stats_yaml :: "string \<Rightarrow> string \<Rightarrow> StatsPublisher \<Rightarrow> string" where
  "stats_yaml package_name version s =
     ''---'' @ [CHR 0x0A]
     @ ''program: '' @ package_name @ [CHR 0x0A]
     @ ''version: '' @ version @ [CHR 0x0A]
     @ ''audiolevels: { left: '' @ dec_int (sint (sp_audio_left s)) @ '', right: '' @ dec_int (sint (sp_audio_right s)) @ ''}'' @ [CHR 0x0A]
     @ ''driftcompensation: { underruns: '' @ dec_nat (unat (sp_num_underruns s)) @ '', overruns: ''
     @ dec_nat (unat (sp_num_overruns s)) @ ''}'' @ [CHR 0x0A]"

definition send_stats :: "string \<Rightarrow> string \<Rightarrow> StatsPublisher \<Rightarrow> unix_sent \<Rightarrow> (string \<times> string) \<times> StatsPublisher" where
  "send_stats package_name version s ret =
     (let yamlstr = stats_yaml package_name version s
      in ((sun_path (sp_socket_path s), yamlstr),
          s\<lparr>sp_destination_available := reachable_after (sp_destination_available s) (length yamlstr) ret,
            sp_audio_left := 0, sp_audio_right := 0\<rparr>))"

subsection \<open>Utilities\<close>

unbundle bit_operations_syntax

text \<open>\<open>strlen_utf8\<close>, up to the terminating zero.\<close>

fun strlen_utf8 :: "bytes \<Rightarrow> nat" where
  "strlen_utf8 [] = 0"
| "strlen_utf8 (c # s) =
     (if c = 0 then 0 else (if c AND 0xC0 \<noteq> 0x80 then 1 else 0) + strlen_utf8 s)"

text \<open>
  \<open>level\<close>, the bar of the level meter. The floating-point number of decibels is an argument: \<open>vu_dB\<close> gives
  \<open>floor(2 * white + red + linear_to_dB(peak / INT16_MAX))\<close> for a peak that is not 0.
\<close>

definition level_text :: "(string \<times> string) list" where
  "level_text =
     [([], []), (''-'', ''-''), (''='', ''=''), (''-='', ''=-''), (''=='', ''==''), (''-=='', ''==-''), (''==='', ''===''),
      (''-==='', ''===-''), (''===='', ''====''), (''-===='', ''====-''), (''====='', ''=====''), (''-====='', ''=====-''),
      (''======'', ''======''), (''!====='', ''=====!'')]"

definition level_index :: "int \<Rightarrow> int" where
  "level_index vu_dB =
     (let red = 1; white = int (length level_text) - red
      in if vu_dB < 2 * white then max (cdiv vu_dB 2) 0 else min (vu_dB - white) (red + white - 1))"

definition level :: "(int \<Rightarrow> int) \<Rightarrow> nat \<Rightarrow> int \<Rightarrow> exn + string" where
  "level vu_dB channel peak =
     (let index = level_index (if peak \<noteq> 0 then vu_dB peak else 0)
      in if index < 0 \<or> int (length level_text) \<le> index \<or> channel \<ge> 2 then Inl OutOfBounds
         else Inr ((if channel = 0 then fst else snd) (level_text ! nat index)))"

subsection \<open>Properties\<close>

text \<open>The level meter stays inside its table, and a louder signal never gives a shorter bar.\<close>

lemma cdiv_2_mono: "v \<le> w \<Longrightarrow> max (cdiv v 2) 0 \<le> max (cdiv w 2) 0"
  by (auto simp: cdiv_def sgn_if max_def zdiv_mono1)

lemma level_index_range: "0 \<le> level_index v" "level_index v \<le> 13"
  using cdiv_2_mono [of v 25] by (auto simp: level_index_def level_text_def cdiv_def Let_def max_def min_def)

lemma level_index_mono: "v \<le> w \<Longrightarrow> level_index v \<le> level_index w"
  using cdiv_2_mono [of v w] cdiv_2_mono [of v 25] by (auto simp: level_index_def level_text_def cdiv_def Let_def max_def min_def)

lemma level_shows_bar: "channel < 2 \<Longrightarrow> \<exists>s. level vu_dB channel peak = Inr s \<and> length s \<le> 6"
proof -
  assume c: "channel < 2"
  define i where "i = level_index (if peak \<noteq> 0 then vu_dB peak else 0)"
  have i: "0 \<le> i" "i < 14" using level_index_range [of "if peak \<noteq> 0 then vu_dB peak else 0"] unfolding i_def by simp_all
  have l: "length level_text = 14" by (simp add: level_text_def)
  have "\<forall>x \<in> set level_text. length (fst x) \<le> 6 \<and> length (snd x) \<le> 6" by (simp add: level_text_def)
  moreover have "level_text ! nat i \<in> set level_text" using i l by (intro nth_mem) simp
  ultimately show ?thesis using c i l by (auto simp: level_def Let_def simp flip: i_def)
qed

text \<open>A message that is not PAD data shortens every later one. After non-empty messages of other types, PAD data is cut to the
  length of the shortest message before it (or 2048 bytes).\<close>

theorem pad_request_truncates:
  assumes "list_all (\<lambda>m. m \<noteq> [] \<and> m ! 0 \<noteq> MESSAGE_PAD_DATA) ms" "pi_pad_ident p \<noteq> ''''"
  shows "\<exists>sent p'. pad_request p padlen ret (map (\<lambda>m. RecvData m a) ms @ RecvData (MESSAGE_PAD_DATA # data) a # rs)
    = Inr (take (Min (insert 2048 (length ` set ms)) - 1) data, sent, rs, p')"
proof -
  have "pad_recv_loop sz (map (\<lambda>m. RecvData m a) ms @ RecvData (MESSAGE_PAD_DATA # data) a # rs)
      = Inr (take (Min (insert sz (length ` set ms)) - 1) data, rs)" if "0 < sz" for sz
    using assms(1) that
  proof (induction ms arbitrary: sz)
    case Nil
    then show ?case by (simp add: take_Cons')
  next
    case (Cons m ms)
    have m: "take sz m \<noteq> []" "take sz m ! 0 \<noteq> MESSAGE_PAD_DATA" "0 < length (take sz m)" using Cons.prems by auto
    have "Min (insert (length (take sz m)) (length ` set ms)) = Min (insert sz (length ` set (m # ms)))"
      by (cases "ms = []") (auto simp: min.assoc min.commute min.left_commute)
    then show ?case using m Cons.IH [of "length (take sz m)"] Cons.prems by (simp add: Let_def del: length_take)
  qed
  from this [of 2048] show ?thesis using assms(2) by (simp add: pad_request_def Let_def)
qed

theorem pad_request_truncates_witness:
  "\<exists>sent p'. pad_request (PadInterface_init\<lparr>pi_pad_ident := ''x''\<rparr>) 6 (SentBytes 2)
      (map (\<lambda>m. RecvData m 0) [[9, 9, 9]] @ RecvData (MESSAGE_PAD_DATA # [1, 2, 3, 4, 5, 6, 6]) 0 # []) = Inr ([1, 2], sent, [], p')"
  using pad_request_truncates [of "[[9, 9, 9]]" "PadInterface_init\<lparr>pi_pad_ident := ''x''\<rparr>" 6 "SentBytes 2" 0 "[1, 2, 3, 4, 5, 6, 6]" "[]"]
  by (simp add: MESSAGE_PAD_DATA_def)

end
