(* ===== verification/CommandLine.thy ===== *)
theory CommandLine
  imports Prelude
begin

text \<open>
  The command line of \<^verbatim>\<open>src/odr-sourcecompanion.cpp\<close>: the tables of options that \<^verbatim>\<open>main\<close> gives to the C library, and what
  \<open>getopt_long\<close> of the GNU C library makes of the arguments with them. The result is the sequence of values that the calls of
  \<open>getopt_long\<close> return before \<open>-1\<close>, each with \<open>optarg\<close> (empty for an option without an argument). A question mark is an
  option that is unknown, ambiguous, or without its argument. Words that are no options are passed over, as the library does by moving
  them behind the options.
\<close>

definition no_argument :: int where "no_argument = 0"

definition required_argument :: int where "required_argument = 1"

definition longopts :: "(string \<times> int \<times> int) list" where
  "longopts =
     [(''bitrate'', required_argument, of_char (CHR ''b'')),
      (''channels'', required_argument, of_char (CHR ''c'')),
      (''edi'', required_argument, of_char (CHR ''e'')),
      (''timestamp-delay'', required_argument, of_char (CHR ''T'')),
      (''output'', required_argument, of_char (CHR ''o'')),
      (''pad'', required_argument, of_char (CHR ''p'')),
      (''pad-socket'', required_argument, of_char (CHR ''P'')),
      (''rate'', required_argument, of_char (CHR ''r'')),
      (''stats'', required_argument, of_char (CHR ''S'')),
      (''secret-key'', required_argument, of_char (CHR ''k'')),
      (''startup-check'', required_argument, 10),
      (''identifier'', required_argument, 3),
      (''input-uri'', required_argument, of_char (CHR ''I'')),
      (''control-uri'', required_argument, 6),
      (''timeout'', required_argument, 7),
      (''pad-port'', required_argument, 8),
      (''jitter-size'', required_argument, 9),
      (''aaclc'', no_argument, 0),
      (''help'', no_argument, of_char (CHR ''h'')),
      (''level'', no_argument, of_char (CHR ''l'')),
      (''ps'', no_argument, 2),
      (''sbr'', no_argument, 1)]"

definition optstring :: string where "optstring = ''hlb:c:e:T:k:o:r:p:P:I:''"

text \<open>A short option, and whether it takes an argument.\<close>

fun short_option :: "string \<Rightarrow> char \<Rightarrow> bool option" where
  "short_option [] c = None"
| "short_option (x # xs) c =
     (if x = c \<and> c \<noteq> CHR '':'' \<and> c \<noteq> CHR '';'' then Some (xs \<noteq> [] \<and> hd xs = CHR '':'') else short_option xs c)"

text \<open>A long option: the one with this name, or the only one that begins with it.\<close>

definition long_option :: "(string \<times> int \<times> int) list \<Rightarrow> string \<Rightarrow> (int \<times> int) option" where
  "long_option table name =
     (case find (\<lambda>(n, _). n = name) table of
        Some (_, v) \<Rightarrow> Some v
      | None \<Rightarrow>
          (case filter (\<lambda>(n, _). take (length name) n = name) table of
             [] \<Rightarrow> None
           | (_, v) # others \<Rightarrow> if list_all (\<lambda>(_, v'). v' = v) others then Some v else None))"

text \<open>A word of short options, the first words after it may be an argument. The results are the options and the words that are left.\<close>

fun short_word :: "string \<Rightarrow> string \<Rightarrow> string list \<Rightarrow> (int \<times> string) list \<times> string list" where
  "short_word opts [] rest = ([], rest)"
| "short_word opts (c # cs) rest =
     (case short_option opts c of
        None \<Rightarrow> (case short_word opts cs rest of (os, rest') \<Rightarrow> ((of_char (CHR ''?''), []) # os, rest'))
      | Some False \<Rightarrow> (case short_word opts cs rest of (os, rest') \<Rightarrow> ((of_char c, []) # os, rest'))
      | Some True \<Rightarrow>
          if cs \<noteq> [] then ([(of_char c, cs)], rest)
          else (case rest of [] \<Rightarrow> ([(of_char (CHR ''?''), [])], []) | a # rest' \<Rightarrow> ([(of_char c, a)], rest')))"

text \<open>A word \<open>--name\<close> or \<open>--name=value\<close>, without the hyphens.\<close>

definition long_word :: "(string \<times> int \<times> int) list \<Rightarrow> string \<Rightarrow> string list \<Rightarrow> (int \<times> string) \<times> string list" where
  "long_word table w rest =
     (let name = takeWhile (\<lambda>c. c \<noteq> CHR ''='') w; value = dropWhile (\<lambda>c. c \<noteq> CHR ''='') w
      in case long_option table name of
           None \<Rightarrow> ((of_char (CHR ''?''), []), rest)
         | Some (has_arg, val) \<Rightarrow>
             if value \<noteq> [] then
               (if has_arg = no_argument then ((of_char (CHR ''?''), []), rest) else ((val, tl value), rest))
             else if has_arg = required_argument then
               (case rest of [] \<Rightarrow> ((of_char (CHR ''?''), []), []) | a # rest' \<Rightarrow> ((val, a), rest'))
             else ((val, []), rest))"

lemma short_word_length: "short_word opts w rest = (os, rest') \<Longrightarrow> length rest' \<le> length rest"
  by (induction opts w rest arbitrary: os rest' rule: short_word.induct)
    (auto split: option.splits bool.splits prod.splits if_splits list.splits)

lemma long_word_length: "length (snd (long_word table w rest)) \<le> length rest"
  by (auto simp: long_word_def Let_def split: option.splits prod.splits if_splits list.splits)

function getopt_words :: "string list \<Rightarrow> (int \<times> string) list" where
  "getopt_words [] = []"
| "getopt_words (w # rest) =
     (if w = ''--'' then []
      else if take 2 w = ''--'' then
        (let r = long_word longopts (drop 2 w) rest in fst r # getopt_words (snd r))
      else if take 1 w = ''-'' \<and> 1 < length w then
        (let r = short_word optstring (tl w) rest in fst r @ getopt_words (snd r))
      else getopt_words rest)"
  by pat_completeness auto
termination
proof (relation "measure length", goal_cases)
  case (2 w rest r)
  then show ?case using long_word_length [of longopts "drop 2 w" rest] by simp
next
  case (3 w rest r)
  then show ?case using short_word_length [of optstring "tl w" rest "fst r" "snd r"] by simp
qed auto

text \<open>\<open>argv[0]\<close> is the name of the program.\<close>

definition getopt_long :: "string list \<Rightarrow> (int \<times> string) list" where
  "getopt_long argv = getopt_words (tl argv)"

subsection \<open>Spelling an option\<close>

text \<open>The words with which an option can be given: its long name or an abbreviation of it with the argument behind an equals sign or in the
  next word, or its letter with the argument behind it or in the next word.\<close>

definition spells :: "string list \<Rightarrow> int \<times> string \<Rightarrow> bool" where
  "spells ws opt \<longleftrightarrow>
     (case opt of (ch, arg) \<Rightarrow>
        (\<exists>name. CHR ''='' \<notin> set name \<and> name \<noteq> [] \<and>
           (long_option longopts name = Some (required_argument, ch) \<and> (ws = [''--'' @ name @ ''='' @ arg] \<or> ws = [''--'' @ name, arg])
            \<or> long_option longopts name = Some (no_argument, ch) \<and> arg = [] \<and> ws = [''--'' @ name]))
      \<or> (\<exists>c. c \<noteq> CHR ''-'' \<and> ch = of_char c \<and>
           (short_option optstring c = Some True \<and> (ws = [CHR ''-'' # c # arg] \<and> arg \<noteq> [] \<or> ws = [''-'' @ [c], arg])
            \<or> short_option optstring c = Some False \<and> arg = [] \<and> ws = [''-'' @ [c]])))"

lemma long_word_spelled:
  assumes "CHR ''='' \<notin> set name"
  shows "long_option longopts name = Some (required_argument, ch) \<Longrightarrow> long_word longopts (name @ CHR ''='' # arg) rest = ((ch, arg), rest)"
    and "long_option longopts name = Some (required_argument, ch) \<Longrightarrow> long_word longopts name (arg # rest) = ((ch, arg), rest)"
    and "long_option longopts name = Some (no_argument, ch) \<Longrightarrow> long_word longopts name rest = ((ch, []), rest)"
proof -
  have t: "takeWhile (\<lambda>c. c \<noteq> CHR ''='') (name @ CHR ''='' # arg) = name"
    "dropWhile (\<lambda>c. c \<noteq> CHR ''='') (name @ CHR ''='' # arg) = CHR ''='' # arg"
    using assms by (auto simp: takeWhile_append dropWhile_append)
  have "\<forall>x \<in> set name. x \<noteq> CHR ''=''" using assms by blast
  then have u: "takeWhile (\<lambda>c. c \<noteq> CHR ''='') name = name" "dropWhile (\<lambda>c. c \<noteq> CHR ''='') name = []" by simp_all
  show "long_option longopts name = Some (required_argument, ch) \<Longrightarrow> long_word longopts (name @ CHR ''='' # arg) rest = ((ch, arg), rest)"
    unfolding long_word_def Let_def t by (simp add: no_argument_def required_argument_def)
  show "long_option longopts name = Some (required_argument, ch) \<Longrightarrow> long_word longopts name (arg # rest) = ((ch, arg), rest)"
    "long_option longopts name = Some (no_argument, ch) \<Longrightarrow> long_word longopts name rest = ((ch, []), rest)"
    unfolding long_word_def Let_def u by (simp_all add: no_argument_def required_argument_def)
qed

lemma spells_words:
  assumes "spells ws opt"
  shows "getopt_words (ws @ rest) = opt # getopt_words rest"
proof -
  obtain ch arg where opt: "opt = (ch, arg)" by (cases opt)
  from assms [unfolded spells_def opt prod.case] show ?thesis
    by (elim disjE exE conjE) (simp_all add: opt long_word_spelled)
qed



text \<open>The option \<open>-S\<close> of the usage text is not in the string of short options: it is rejected, whatever follows.\<close>

theorem stats_letter_unknown: "\<exists>opts. getopt_long (name # (''-S'' @ w) # rest) = (of_char (CHR ''?''), []) # opts"
  by (auto simp: getopt_long_def optstring_def split: prod.splits)

end
