(* ===== verification/Companion.thy ===== *)
theory Companion
  imports Outputs AVTStream AACDecoder Peripherals CommandLine
begin

text \<open>
  Model of \<open>src/odr-sourcecompanion.cpp\<close>: the options, the set-up of inputs and outputs, and the main loop. What
  \<open>getopt_long\<close> returns for the arguments is the list of \<open>CommandLine\<close>; what the system answers is in environments and scripts,
  as in the components. An exception that no handler catches ends the program. Messages and the level
  meter are left out.
\<close>

unbundle bit_operations_syntax

subsection \<open>Options\<close>

record options =
  op_avt_input_uri :: string
  op_avt_output_uri :: string
  op_avt_timeout :: int
  op_avt_pad_port :: u32
  op_avt_jitterBufferSize :: nat
  op_output_uris :: "string list"
  op_pad_ident :: string
  op_padlen :: int
  op_show_level :: bool
  op_send_stats_to :: string
  op_keyfile :: "string option"
  op_allowSBR :: bool
  op_allowPS :: bool
  op_identifier :: string
  op_edi_output_uris :: "string list"
  op_tist_enabled :: bool
  op_tist_delay_ms :: u32
  op_bitrate :: int
  op_channels :: int
  op_sample_rate :: int
  op_startupcheck :: string

definition options_default :: options where
  "options_default = \<lparr>op_avt_input_uri = '''', op_avt_output_uri = '''', op_avt_timeout = 2000, op_avt_pad_port = 0,
     op_avt_jitterBufferSize = 40, op_output_uris = [], op_pad_ident = '''', op_padlen = 0, op_show_level = False,
     op_send_stats_to = '''', op_keyfile = None, op_allowSBR = False, op_allowPS = False, op_identifier = '''',
     op_edi_output_uris = [], op_tist_enabled = False, op_tist_delay_ms = 0, op_bitrate = 0, op_channels = 2,
     op_sample_rate = 48000, op_startupcheck = ''''\<rparr>"

text \<open>A step of \<open>main\<close> goes on with a value, returns an exit status or throws.\<close>

datatype 'a outcome = Goes 'a | Returns int | Throws exn

definition with_int :: "string \<Rightarrow> (int \<Rightarrow> 'a outcome) \<Rightarrow> 'a outcome" where
  "with_int optarg f = (case stoi optarg of Inl e \<Rightarrow> Throws e | Inr i \<Rightarrow> f i)"

definition option_step :: "options \<Rightarrow> int \<Rightarrow> string \<Rightarrow> options outcome" where
  "option_step opt ch optarg =
     (if ch = 0 then Goes (opt\<lparr>op_allowPS := False, op_allowSBR := False\<rparr>)
      else if ch = 1 then Goes (opt\<lparr>op_allowPS := False, op_allowSBR := True\<rparr>)
      else if ch = 2 then Goes (opt\<lparr>op_allowPS := True, op_allowSBR := True\<rparr>)
      else if ch = 3 then (if length optarg > 32 then Returns 1 else Goes (opt\<lparr>op_identifier := optarg\<rparr>))
      else if ch = of_char (CHR ''b'') then with_int optarg (\<lambda>i. Goes (opt\<lparr>op_bitrate := i\<rparr>))
      else if ch = of_char (CHR ''c'') then with_int optarg (\<lambda>i. Goes (opt\<lparr>op_channels := i\<rparr>))
      else if ch = of_char (CHR ''e'') then Goes (opt\<lparr>op_edi_output_uris := op_edi_output_uris opt @ [optarg]\<rparr>)
      else if ch = of_char (CHR ''T'')
        then with_int optarg (\<lambda>i. Goes (opt\<lparr>op_tist_enabled := True, op_tist_delay_ms := word_of_int i\<rparr>))
      else if ch = of_char (CHR ''k'') then Goes (opt\<lparr>op_keyfile := Some optarg\<rparr>)
      else if ch = of_char (CHR ''l'') then Goes (opt\<lparr>op_show_level := True\<rparr>)
      else if ch = of_char (CHR ''o'') then Goes (opt\<lparr>op_output_uris := op_output_uris opt @ [optarg]\<rparr>)
      else if ch = of_char (CHR ''p'') then with_int optarg (\<lambda>i. Goes (opt\<lparr>op_padlen := i\<rparr>))
      else if ch = of_char (CHR ''P'') then Goes (opt\<lparr>op_pad_ident := optarg\<rparr>)
      else if ch = of_char (CHR ''r'') then with_int optarg (\<lambda>i. Goes (opt\<lparr>op_sample_rate := i\<rparr>))
      else if ch = of_char (CHR ''S'') then Goes (opt\<lparr>op_send_stats_to := optarg\<rparr>)
      else if ch = of_char (CHR ''I'') then Goes (opt\<lparr>op_avt_input_uri := optarg\<rparr>)
      else if ch = 6 then Goes (opt\<lparr>op_avt_output_uri := optarg\<rparr>)
      else if ch = 7 then with_int optarg (\<lambda>i. Goes (opt\<lparr>op_avt_timeout := if i < 0 then 2000 else i\<rparr>))
      else if ch = 8 then with_int optarg (\<lambda>i. Goes (opt\<lparr>op_avt_pad_port := word_of_int i\<rparr>))
      else if ch = 9 then with_int optarg (\<lambda>i. Goes (opt\<lparr>op_avt_jitterBufferSize := to_size_t i\<rparr>))
      else if ch = 10 then Goes (opt\<lparr>op_startupcheck := optarg\<rparr>)
      else if ch = of_char (CHR ''?'') \<or> ch = of_char (CHR ''h'') then Returns 1
      else Goes opt)"

fun parse_options :: "options \<Rightarrow> (int \<times> string) list \<Rightarrow> options outcome" where
  "parse_options opt [] = Goes opt"
| "parse_options opt ((ch, optarg) # rest) =
     (case option_step opt ch optarg of Goes opt' \<Rightarrow> parse_options opt' rest | Returns r \<Rightarrow> Returns r | Throws e \<Rightarrow> Throws e)"

text \<open>The checks that follow; \<open>system\<close> answers with the exit status of the script, or \<open>None\<close> if it did not exit normally.\<close>

definition check_options :: "(string \<Rightarrow> nat option) \<Rightarrow> options \<Rightarrow> options outcome" where
  "check_options run opt =
     (if op_padlen opt < 0 \<or> op_padlen opt > 255 then Returns 1
      else if op_avt_input_uri opt = '''' then Returns 1
      else if op_startupcheck opt \<noteq> '''' \<and> run (op_startupcheck opt) \<noteq> Some 0 then Returns 1
      else if op_output_uris opt = [] \<and> op_edi_output_uris opt = [] then Returns 1
      else Goes opt)"

subsection \<open>Outputs\<close>

text \<open>\<open>find(':', 6)\<close>, and the two parts of an EDI address. Addresses that cannot be used are only reported.\<close>

definition edi_uri_parts :: "string \<Rightarrow> (string \<times> string) option" where
  "edi_uri_parts uri =
     (let rest = drop 6 uri
      in if CHR '':'' \<notin> set rest then None
         else (let host = takeWhile (\<lambda>c. c \<noteq> CHR '':'') rest in Some (host, drop (length host + 1) rest)))"

definition add_edi_uri :: "Output_EDI \<Rightarrow> string \<Rightarrow> exn + Output_EDI" where
  "add_edi_uri e uri =
     (if take 6 uri = ''tcp://'' \<or> take 6 uri = ''udp://'' then
        (case edi_uri_parts uri of
           None \<Rightarrow> Inr e
         | Some (host, port_str) \<Rightarrow>
             (case stoi port_str of
                Inl x \<Rightarrow> Inl x
              | Inr port \<Rightarrow>
                  if take 3 uri = ''tcp'' then add_tcp_destination e host (word_of_int port)
                  else if take 3 uri = ''udp'' then Inr (add_udp_destination e host (word_of_int port))
                  else Inl LogicError))
      else Inr e)"

fun add_edi_uris :: "Output_EDI \<Rightarrow> string list \<Rightarrow> exn + Output_EDI" where
  "add_edi_uris e [] = Inr e"
| "add_edi_uris e (uri # uris) = (case add_edi_uri e uri of Inl x \<Rightarrow> Inl x | Inr e' \<Rightarrow> add_edi_uris e' uris)"

text \<open>For every ZeroMQ address: what reading the key file gives, whether the options and the address are accepted.\<close>

record zmq_env =
  ze_key :: "bool \<times> bytes option"
  ze_curve_ok :: bool
  ze_connect_ok :: bool

fun connect_zmq :: "bytes \<Rightarrow> (string \<Rightarrow> zmq_env) \<Rightarrow> string option \<Rightarrow> Output_ZMQ option \<Rightarrow> string list \<Rightarrow> exn + Output_ZMQ option" where
  "connect_zmq mem env keyfile z [] = Inr z"
| "connect_zmq mem env keyfile z (uri # uris) =
     (let z0 = (case z of None \<Rightarrow> ZMQ_init mem | Some z \<Rightarrow> z); ze = env uri
      in case ZMQ_connect z0 uri (map_option (\<lambda>_. ze_key ze) keyfile) (ze_curve_ok ze) (ze_connect_ok ze) of
           (Some x, _) \<Rightarrow> Inl x
         | (None, z1) \<Rightarrow> connect_zmq mem env keyfile (Some z1) uris)"

definition version_tag :: "string \<Rightarrow> string \<Rightarrow> string \<Rightarrow> string" where
  "version_tag package_name version identifier = package_name @ '' '' @ version @ '' '' @ identifier"

subsection \<open>The state of the main loop\<close>

record 'h companion =
  co_opts :: options
  co_avt :: AVTInput
  co_pad :: PadInterface
  co_decoder :: "'h AACDecoder"
  co_stats :: "StatsPublisher option"
  co_zmq :: "Output_ZMQ option"
  co_edi :: Output_EDI
  co_outbuf :: bytes
  co_send_error_count :: int
  co_cache :: cache
  co_fds :: fdtable

record main_env =
  me_package_name :: string
  me_version :: string
  me_run :: "string \<Rightarrow> nat option"
  me_zmq :: "string \<Rightarrow> zmq_env"
  me_mem :: bytes
  me_steady :: int
  me_pad :: unix_env
  me_net :: net_env
  me_stats :: unix_env
  me_pid :: nat
  me_cache :: cache

text \<open>Everything before the loop; \<open>argv\<close> is the command line. The sockets of the AVT input have
  their own descriptor table.\<close>

definition main_setup :: "main_env \<Rightarrow> 'h option \<Rightarrow> string list \<Rightarrow> 'h companion outcome" where
  "main_setup env handle argv =
     (if length argv = 2 \<and> argv ! 1 = ''--version'' then Returns 0 else
     (case AACDecoder_init handle of
        Inl x \<Rightarrow> Throws x
      | Inr decoder \<Rightarrow>
          if length argv < 2 then Returns 1 else
     (case parse_options options_default (getopt_long argv) of
        Throws x \<Rightarrow> Throws x
      | Returns r \<Rightarrow> Returns r
      | Goes o1 \<Rightarrow>
     (case check_options (me_run env) o1 of
        Throws x \<Rightarrow> Throws x
      | Returns r \<Rightarrow> Returns r
      | Goes o2 \<Rightarrow>
     (case connect_zmq (me_mem env) (me_zmq env) (op_keyfile o2) None (op_output_uris o2) of
        Inl x \<Rightarrow> Throws x
      | Inr zmq \<Rightarrow>
     (case add_edi_uris (EDI_init (me_steady env)) (op_edi_output_uris o2) of
        Inl x \<Rightarrow> Throws x
      | Inr edi1 \<Rightarrow>
     (let edi = (if op_edi_output_uris o2 \<noteq> []
                 then set_odr_version_tag edi1 (version_tag (me_package_name env) (me_version env) (op_identifier o2)) else edi1) in
     (case (if op_padlen o2 \<noteq> 0 \<and> op_pad_ident o2 \<noteq> '''' then pad_open (me_pad env) PadInterface_init (op_pad_ident o2)
            else (None, PadInterface_init)) of
        (Some x, _) \<Rightarrow> Throws x
      | (None, pad) \<Rightarrow>
     (case prepare (me_net env)
             (AVTInput_init (op_avt_input_uri o2) (op_avt_output_uri o2) (op_avt_pad_port o2) (op_avt_jitterBufferSize o2)) of
        Inl x \<Rightarrow> Throws x
      | Inr (ret, avt1) \<Rightarrow>
          if ret \<noteq> 0 then Returns 1 else
     (case setDabPlusParameters avt1 (op_bitrate o2) (op_channels o2) (op_sample_rate o2) (op_allowSBR o2) (op_allowPS o2) of
        Inl x \<Rightarrow> Throws x
      | Inr (ret2, avt2) \<Rightarrow>
          if ret2 \<noteq> 0 then Returns 1 else
     (case (if op_send_stats_to o2 \<noteq> ''''
            then (case StatsPublisher_init (me_stats env) (me_pid env) (op_send_stats_to o2) {} of
                    (Inl x, fds) \<Rightarrow> None | (Inr s, fds) \<Rightarrow> Some (Some s, fds))
            else Some (None, {})) of
        None \<Rightarrow> Returns 1
      | Some (stats, fds) \<Rightarrow>
          Goes \<lparr>co_opts = o2, co_avt = avt2, co_pad = pad, co_decoder = decoder, co_stats = stats, co_zmq = zmq,
                co_edi = edi, co_outbuf = replicate (24 * 120) 0, co_send_error_count = 0, co_cache = me_cache env,
                co_fds = fds\<rparr>)))))))))))"

subsection \<open>The main loop\<close>

text \<open>
  Filling the PAD queue. Each request comes with the answers of the socket; when there are no more, nothing arrives. A length byte
  larger than the PAD length makes the start of the frame lie in front of the buffer.
\<close>

fun pad_fill ::
  "AVTInput \<Rightarrow> PadInterface \<Rightarrow> int \<Rightarrow> (unix_sent \<times> recv_result list) list \<Rightarrow> exn + AVTInput \<times> PadInterface" where
  "pad_fill avt pad padlen answers =
     (if padQueueFull avt then Inr (avt, pad)
      else
        (case answers of
           [] \<Rightarrow> (case pad_request pad (word_of_int padlen) (SentBytes 2) [] of
                    Inl x \<Rightarrow> Inl x | Inr (_, _, _, pad1) \<Rightarrow> Inr (avt, pad1))
         | (ret, rs) # rest \<Rightarrow>
             (case pad_request pad (word_of_int padlen) ret rs of
                Inl x \<Rightarrow> Inl x
              | Inr (pad_data, _, _, pad1) \<Rightarrow>
                  if pad_data = [] then Inr (avt, pad1)
                  else if length pad_data = nat padlen + 1 then
                    (let calculated_padlen = unat (pad_data ! nat padlen)
                     in if calculated_padlen > nat padlen then Inl OutOfBounds
                        else pad_fill
                          (pushPADFrame avt (take calculated_padlen (drop (nat padlen - calculated_padlen) pad_data)))
                          pad1 padlen rest)
                  else Inr (avt, pad1))))"

declare pad_fill.simps [simp del]

text \<open>One pass of the loop that waits for a frame: the answers for the PAD requests and the steady clock.\<close>

record read_env =
  rd_pad :: "(unix_sent \<times> recv_result list) list"
  rd_now :: int

text \<open>
  The loop that reads a superframe, from the time \<open>start\<close> on: the number of bytes, or 0 after the timeout. The outer \<open>None\<close> is a
  loop that is still waiting after these passes, or an assembly that never ends.
\<close>

fun wait_loop :: "int \<Rightarrow> 'h companion \<Rightarrow> read_env list \<Rightarrow> (exn + nat \<times> 'h companion) option" where
  "wait_loop start c [] = None"
| "wait_loop start c (r # rs) =
     (case (if op_padlen (co_opts c) \<noteq> 0 then pad_fill (co_avt c) (co_pad c) (op_padlen (co_opts c)) (rd_pad r)
            else Inr (co_avt c, co_pad c)) of
        Inl x \<Rightarrow> Some (Inl x)
      | Inr (avt1, pad1) \<Rightarrow>
          (case getNextFrame avt1 (co_outbuf c) of
             None \<Rightarrow> None
           | Some (Inl x) \<Rightarrow> Some (Inl x)
           | Some (Inr (outbuf, ts, n, avt2)) \<Rightarrow>
               (let c1 = c\<lparr>co_avt := avt2, co_pad := pad1, co_outbuf := outbuf\<rparr>
                in if n > 0 then
                     (if op_edi_output_uris (co_opts c) \<noteq> [] then
                        (case set_tist (co_edi c1) (op_tist_enabled (co_opts c)) (op_tist_delay_ms (co_opts c)) (the ts) of
                           (Some x, edi) \<Rightarrow> Some (Inl x)
                         | (None, edi) \<Rightarrow> Some (Inr (n, c1\<lparr>co_edi := edi\<rparr>)))
                      else Some (Inr (n, c1)))
                   else if rd_now r - start > op_avt_timeout (co_opts c) * 1000000 then Some (Inr (0, c1))
                   else wait_loop start c1 rs)))"

text \<open>Decoding for the audio level. A \<open>runtime_error\<close> gives no level; what has no defined behaviour is not caught.\<close>

definition measure_levels :: "'h fdk \<Rightarrow> 'h companion \<Rightarrow> nat \<Rightarrow> exn option \<times> u16 \<times> u16 \<times> 'h companion" where
  "measure_levels lib c n =
     (if n mod 120 \<noteq> 0 then (None, 0, 0, c)
      else
        (case decode_frame lib (co_decoder c) (co_outbuf c) (n div 120 * 110) of
           (Some x, d) \<Rightarrow> (if x = RuntimeError then None else Some x, 0, 0, c\<lparr>co_decoder := d\<rparr>)
         | (None, d) \<Rightarrow>
             (case get_peaks d of
                ((pl, pr), d1) \<Rightarrow> (None, word_of_int pl, word_of_int pr, c\<lparr>co_decoder := d1\<rparr>))))"

text \<open>The five parts of a superframe go to the EDI output one by one.\<close>

fun edi_parts ::
  "Output_EDI \<Rightarrow> cache \<Rightarrow> fdtable \<Rightarrow> (edi_env \<times> bytes) list
    \<Rightarrow> (exn + bool) \<times> (InetAddress \<times> bytes) list \<times> Output_EDI \<times> cache \<times> fdtable" where
  "edi_parts e cache fds [] = (Inr True, [], e, cache, fds)"
| "edi_parts e cache fds ((env, part) # parts) =
     (case EDI_write_frame env e part cache fds of
        (Inl x, out, e1, cache1, fds1) \<Rightarrow> (Inl x, out, e1, cache1, fds1)
      | (Inr success, out, e1, cache1, fds1) \<Rightarrow>
          if \<not> success then (Inr False, out, e1, cache1, fds1)
          else (case edi_parts e1 cache1 fds1 parts of
                  (r, outs, e2, cache2, fds2) \<Rightarrow> (r, out @ outs, e2, cache2, fds2)))"

definition superframe_parts :: "bytes \<Rightarrow> nat \<Rightarrow> bytes list" where
  "superframe_parts outbuf n = map (\<lambda>i. take (n div 5) (drop (i * (n div 5)) outbuf)) [0..<5]"

text \<open>What the system answers while one superframe is written.\<close>

record write_env =
  we_zmq :: zmq_answer
  we_edi :: "edi_env list"
  we_stats :: unix_sent

text \<open>The two outputs: whether both succeeded, and the datagrams that went out.\<close>

definition write_outputs ::
  "write_env \<Rightarrow> 'h companion \<Rightarrow> u16 \<Rightarrow> u16 \<Rightarrow> nat \<Rightarrow> exn + bool \<times> (InetAddress \<times> bytes) list \<times> 'h companion" where
  "write_outputs env c pl pr n =
     (case (case co_zmq c of
              None \<Rightarrow> Inr (True, c)
            | Some z \<Rightarrow>
                (case ZMQ_write_frame (update_audio_levels z pl pr) (we_zmq env) (take n (co_outbuf c)) of
                   Inl x \<Rightarrow> Inl x
                 | Inr (ok, z1) \<Rightarrow> Inr (ok, c\<lparr>co_zmq := Some z1\<rparr>))) of
        Inl x \<Rightarrow> Inl x
      | Inr (success, c1) \<Rightarrow>
          if EDI_enabled (co_edi c1) then
            (let e = update_audio_levels (co_edi c1) pl pr
             in if n mod 5 \<noteq> 0 then Inl LogicError
                else
                  (case (if success then edi_parts e (co_cache c1) (co_fds c1) (zip (we_edi env) (superframe_parts (co_outbuf c1) n))
                         else (case edi_parts e (co_cache c1) (co_fds c1) (take 1 (zip (we_edi env) (superframe_parts (co_outbuf c1) n))) of
                                 (Inr _, out, e1, cache1, fds1) \<Rightarrow> (Inr False, out, e1, cache1, fds1)
                               | r \<Rightarrow> r)) of
                     (Inl x, _) \<Rightarrow> Inl x
                   | (Inr ok, out, e1, cache1, fds1) \<Rightarrow>
                       Inr (ok, out, c1\<lparr>co_edi := e1, co_cache := cache1, co_fds := fds1\<rparr>)))
          else Inr (success, [], c1))"

text \<open>One pass of the main loop: it goes on, or the program returns.\<close>

datatype pass_result = Again | Stop int

definition main_pass ::
  "string \<Rightarrow> string \<Rightarrow> 'h fdk \<Rightarrow> int \<Rightarrow> read_env list \<Rightarrow> write_env \<Rightarrow> 'h companion
    \<Rightarrow> (exn + pass_result \<times> (InetAddress \<times> bytes) list \<times> 'h companion) option" where
  "main_pass package_name version lib start rs env c0 =
     (let outbuf_size = nat (cdiv (op_bitrate (co_opts c0)) 8 * 120);
          c = c0\<lparr>co_outbuf := replicate outbuf_size 0 @ drop outbuf_size (co_outbuf c0)\<rparr>
      in if length (co_outbuf c0) < outbuf_size then Some (Inl OutOfBounds)
         else
           (case wait_loop start c rs of
              None \<Rightarrow> None
            | Some (Inl x) \<Rightarrow> Some (Inl x)
            | Some (Inr (n, c1)) \<Rightarrow>
                if n = 0 then Some (Inr (Stop 0, [], c1))
                else
                  (case measure_levels lib c1 n of
                     (Some x, _) \<Rightarrow> Some (Inl x)
                   | (None, pl, pr, c2) \<Rightarrow>
                       (let c3 = c2\<lparr>co_stats := map_option (\<lambda>s. stats_update_audio_levels s pl pr) (co_stats c2)\<rparr>
                        in case write_outputs env c3 pl pr n of
                             Inl x \<Rightarrow> Some (Inl x)
                           | Inr (success, out, c4) \<Rightarrow>
                               (let count = co_send_error_count c4 + (if success then 0 else 1);
                                    c5 = c4\<lparr>co_send_error_count := count\<rparr>
                                in if count > 10 then Some (Inr (Stop 4, out, c5))
                                   else
                                     Some (Inr (Again, out,
                                       c5\<lparr>co_stats := map_option (\<lambda>s. snd (send_stats package_name version s (we_stats env)))
                                            (co_stats c5)\<rparr>)))))))"

text \<open>
  The whole loop, for the passes that are given: the exit status or the exception, and everything that went out. \<open>None\<close> is a program
  that is still running.
\<close>

record main_pass_env =
  mp_start :: int
  mp_reads :: "read_env list"
  mp_write :: write_env

fun main_loop ::
  "string \<Rightarrow> string \<Rightarrow> 'h fdk \<Rightarrow> main_pass_env list \<Rightarrow> 'h companion \<Rightarrow> ((exn + int) \<times> (InetAddress \<times> bytes) list) option" where
  "main_loop package_name version lib [] c = None"
| "main_loop package_name version lib (p # ps) c =
     (case main_pass package_name version lib (mp_start p) (mp_reads p) (mp_write p) c of
        None \<Rightarrow> None
      | Some (Inl x) \<Rightarrow> Some (Inl x, [])
      | Some (Inr (Stop status, out, c1)) \<Rightarrow> Some (Inr status, out)
      | Some (Inr (Again, out, c1)) \<Rightarrow>
          map_option (\<lambda>(r, outs). (r, out @ outs)) (main_loop package_name version lib ps c1))"

subsection \<open>A superframe through the EDI output\<close>

text \<open>A receiver: the stream data of an AF packet; and of the datagrams it got, those with one sequence number are reassembled to an AF
  packet.\<close>

definition af_stream_data :: "bytes \<Rightarrow> bytes option" where
  "af_stream_data af =
     (case af_parse af of
        None \<Rightarrow> None
      | Some (_, payload) \<Rightarrow>
          (case tag_parse payload of
             None \<Rightarrow> None
           | Some items \<Rightarrow> map_option (drop 3) (map_of items (str_bytes ''ss'' @ [0, 1]))))"

definition edi_received :: "bytes list \<Rightarrow> u16 \<Rightarrow> bytes option" where
  "edi_received ds q =
     (case pf_reassemble (filter (\<lambda>b. map_option pf_pseq (pf_parse b) = Some q) ds) of
        None \<Rightarrow> None
      | Some af \<Rightarrow> af_stream_data af)"

lemma edi_expected_stream: "map_of (edi_expected_items e off now buf) (str_bytes ''ss'' @ [0, 1]) = Some ([0, 0, 0] @ buf)"
  by (simp add: edi_expected_items_def str_bytes_def)

text \<open>An EDI output that is in use: it has a sender and knows the TAI offset.\<close>

definition edi_in_use :: "Output_EDI \<Rightarrow> Sender \<Rightarrow> bool" where
  "edi_in_use e s \<longleftrightarrow> eo_edi_sender e = Some s \<and> sender_ok s \<and> cf_tagpacket_alignment (eo_edi_conf e) = 0
     \<and> tai_inv (eo_clock_tai e) \<and> ct_state (eo_clock_tai e) \<noteq> None"

text \<open>What the sender queues for one frame: fragments with its sequence number, from which the frame is recovered.\<close>

definition frame_fragments :: "bytes list \<Rightarrow> u16 \<Rightarrow> bytes \<Rightarrow> bool" where
  "frame_fragments fr q buf \<longleftrightarrow> (\<forall>b \<in> set fr. map_option pf_pseq (pf_parse b) = Some q)
     \<and> (\<forall>bs. set bs = set fr \<longrightarrow> (\<exists>af seq payload items. pf_reassemble bs = Some af \<and> af_parse af = Some (seq, payload)
          \<and> tag_parse payload = Some items \<and> map_of items (str_bytes ''ss'' @ [0, 1]) = Some ([0, 0, 0] @ buf)))"

lemma edi_write_queues:
  assumes "edi_in_use e s" "\<forall>x \<in> set (sn_pending s). fst x mod 1000 \<noteq> ee_steady env mod 1000"
    and "CEIL_DIV (length buf + length (eo_odr_version_tag e) + 83) (unat (pft_k (sn_pft s))) \<le> 256"
  obtains e' s1 fr cache1 where "EDI_write_frame env e buf cache fds = (Inr True, [], e', cache1, fds)" "edi_in_use e' s1"
    "eo_odr_version_tag e' = eo_odr_version_tag e" "sn_sockets s1 = sn_sockets s" "pft_k (sn_pft s1) = pft_k (sn_pft s)"
    "pft_pseq (sn_pft s1) = pft_pseq (sn_pft s) + 1"
    "snd ` set (sn_pending s1) = snd ` set (sn_pending s) \<union> set fr"
    "\<And>x. x \<in> set (sn_pending s1) \<Longrightarrow> x \<in> set (sn_pending s) \<or> fst x mod 1000 = ee_steady env mod 1000"
    "frame_fragments fr (pft_pseq (sn_pft s)) buf" "eo_edi_conf e' = eo_edi_conf e"
proof -
  let ?k = "unat (pft_k (sn_pft s))"
  note u = assms(1) [unfolded edi_in_use_def]
  have i: "0 < ?k" "?k \<le> 207" using u by (auto simp: sender_ok_def word_less_nat_alt word_le_nat_alt)
  have "length buf + length (eo_odr_version_tag e) + 83 \<le> 256 * ?k" using assms(3) CEIL_DIV_le_iff [OF i(1)] by blast
  then have len: "length buf < 2 ^ 28" "length (eo_odr_version_tag e) < 2 ^ 28" using i(2) by auto
  have clock: "tai_inv (eo_clock_tai e)" "ct_state (eo_clock_tai e) \<noteq> None" using u by blast+
  obtain off cache1 clk where g: "get_offset (ee_time env) (ee_steady env) (ee_tai env) cache (eo_clock_tai e) = (Inr off, cache1, clk)"
    and clk: "tai_inv clk" "ct_state clk \<noteq> None"
    by (rule tai.get_known [OF clock, of "(ee_time env, ee_steady env, ee_tai env)" cache]) simp
  let ?p = "edi_tagpacket e off (ee_steady env) buf"
  obtain payload p where p: "TagPacket_Assemble ?p = Inr (payload, p)"
    "tag_parse payload = Some (edi_expected_items e off (ee_steady env) buf)"
    "length payload \<le> length buf + length (eo_odr_version_tag e) + 71"
    using edi_tagpacket_assembles [OF _ len] u by metis
  have "CEIL_DIV (length payload + 12) ?k \<le> 256" using p(3) assms(3) unfolding CEIL_DIV_le_iff [OF i(1)] by linarith
  then obtain s1 fr where w: "write_tag s (ee_steady env) (ee_send env) ?p fds = (None, [], s1, p, fds)"
    and s1: "sender_ok s1" "sn_sockets s1 = sn_sockets s" "pft_k (sn_pft s1) = pft_k (sn_pft s)"
    "pft_pseq (sn_pft s1) = pft_pseq (sn_pft s) + 1" "snd ` set (sn_pending s1) = snd ` set (sn_pending s) \<union> set fr"
    "\<And>x. x \<in> set (sn_pending s1) \<Longrightarrow> x \<in> set (sn_pending s) \<or> fst x mod 1000 = ee_steady env mod 1000"
    "\<And>b. b \<in> set fr \<Longrightarrow> map_option pf_pseq (pf_parse b) = Some (pft_pseq (sn_pft s))"
    "\<And>bs. set bs = set fr \<Longrightarrow> \<exists>af. pf_reassemble bs = Some af \<and> af_parse af = Some (af_seq (sn_af s), payload)"
    using write_tag_queues [OF _ p(1) _ assms(2), where envs = "ee_send env" and fds = fds] u by metis
  obtain e' where e': "EDI_write_frame env e buf cache fds = (Inr True, [], e', cache1, fds)" "eo_edi_sender e' = Some s1"
      "eo_edi_conf e' = eo_edi_conf e" "eo_odr_version_tag e' = eo_odr_version_tag e" "eo_clock_tai e' = clk"
    using g w u by (simp add: EDI_write_frame_def Let_def)
  have "frame_fragments fr (pft_pseq (sn_pft s)) buf"
    unfolding frame_fragments_def using s1(7,8) p(2) edi_expected_stream by metis
  then show thesis
    by (intro that [OF e'(1) _ e'(4) s1(2,3,4,5,6)]) (use e' s1(1) u clk in \<open>simp_all add: edi_in_use_def\<close>)
qed

lemma edi_parts_queue:
  assumes "edi_in_use e s" "distinct (map (\<lambda>env. ee_steady env mod 1000) envs)" "length envs = length parts"
    and "\<forall>x \<in> set (sn_pending s). \<forall>env \<in> set envs. fst x mod 1000 \<noteq> ee_steady env mod 1000"
    and "\<forall>buf \<in> set parts. CEIL_DIV (length buf + length (eo_odr_version_tag e) + 83) (unat (pft_k (sn_pft s))) \<le> 256"
  shows "\<exists>e' s1 frs cache1. edi_parts e cache fds (zip envs parts) = (Inr True, [], e', cache1, fds) \<and> edi_in_use e' s1
    \<and> sn_sockets s1 = sn_sockets s \<and> length frs = length parts
    \<and> snd ` set (sn_pending s1) = snd ` set (sn_pending s) \<union> \<Union> (set ` set frs)
    \<and> (\<forall>i < length parts. frame_fragments (frs ! i) (pft_pseq (sn_pft s) + of_nat i) (parts ! i))
    \<and> eo_odr_version_tag e' = eo_odr_version_tag e \<and> eo_edi_conf e' = eo_edi_conf e \<and> pft_k (sn_pft s1) = pft_k (sn_pft s)
    \<and> pft_pseq (sn_pft s1) = pft_pseq (sn_pft s) + of_nat (length parts)"
  using assms
proof (induction parts arbitrary: e s cache envs)
  case Nil
  then show ?case by (intro exI [of _ e] exI [of _ s] exI [of _ "[]"]) simp
next
  case (Cons part parts)
  obtain env envs' where envs: "envs = env # envs'" using Cons.prems(3) by (cases envs) auto
  have one: "\<forall>x \<in> set (sn_pending s). fst x mod 1000 \<noteq> ee_steady env mod 1000" using Cons.prems(4) envs by simp
  have fit: "CEIL_DIV (length part + length (eo_odr_version_tag e) + 83) (unat (pft_k (sn_pft s))) \<le> 256" using Cons.prems(5) by simp
  obtain e1 s1 fr cache1 where w: "EDI_write_frame env e part cache fds = (Inr True, [], e1, cache1, fds)" "edi_in_use e1 s1"
    "eo_odr_version_tag e1 = eo_odr_version_tag e" "sn_sockets s1 = sn_sockets s" "pft_k (sn_pft s1) = pft_k (sn_pft s)"
    "pft_pseq (sn_pft s1) = pft_pseq (sn_pft s) + 1"
    "snd ` set (sn_pending s1) = snd ` set (sn_pending s) \<union> set fr"
    "\<And>x. x \<in> set (sn_pending s1) \<Longrightarrow> x \<in> set (sn_pending s) \<or> fst x mod 1000 = ee_steady env mod 1000"
    "frame_fragments fr (pft_pseq (sn_pft s)) part" "eo_edi_conf e1 = eo_edi_conf e"
    by (rule edi_write_queues [OF Cons.prems(1) one fit, where cache = cache and fds = fds]) blast
  have "\<forall>x \<in> set (sn_pending s1). \<forall>env \<in> set envs'. fst x mod 1000 \<noteq> ee_steady env mod 1000"
    using w(8) Cons.prems(2,4) envs by fastforce
  then obtain e' s2 frs cache2 where r: "edi_parts e1 cache1 fds (zip envs' parts) = (Inr True, [], e', cache2, fds)" "edi_in_use e' s2"
    "sn_sockets s2 = sn_sockets s1" "length frs = length parts"
    "snd ` set (sn_pending s2) = snd ` set (sn_pending s1) \<union> \<Union> (set ` set frs)"
    "\<forall>i < length parts. frame_fragments (frs ! i) (pft_pseq (sn_pft s1) + of_nat i) (parts ! i)"
    "eo_odr_version_tag e' = eo_odr_version_tag e1" "eo_edi_conf e' = eo_edi_conf e1" "pft_k (sn_pft s2) = pft_k (sn_pft s1)"
    "pft_pseq (sn_pft s2) = pft_pseq (sn_pft s1) + of_nat (length parts)"
    using Cons.IH [OF w(2), of envs' cache1] Cons.prems(2,3,5) envs w(3,5) by auto
  have "frame_fragments ((fr # frs) ! i) (pft_pseq (sn_pft s) + of_nat i) ((part # parts) ! i)" if "i < length (part # parts)" for i
    using that w(6,9) r(6) by (cases i) (auto simp: add.assoc)
  then show ?case
    using w(1,3,4,5,6,7,10) r by (intro exI [of _ e'] exI [of _ s2] exI [of _ "fr # frs"] exI [of _ cache2]) (auto simp: envs add.assoc)
qed

lemma superframe_parts_concat:
  assumes "n mod 5 = 0" "n \<le> length outbuf"
  shows "concat (superframe_parts outbuf n) = take n outbuf" "\<forall>p \<in> set (superframe_parts outbuf n). length p = n div 5"
proof -
  obtain b where b: "n = 5 * b" using assms(1) by auto
  have "take (b + b + b + b + b) outbuf = take b outbuf @ take b (drop b outbuf) @ take b (drop (2 * b) outbuf)
      @ take b (drop (3 * b) outbuf) @ take b (drop (4 * b) outbuf)"
  proof -
    have m: "2 * b = b + b" "3 * b = b + b + b" "4 * b = b + b + b + b" by simp_all
    show ?thesis unfolding m by (simp only: take_add drop_drop append_assoc add.assoc)
  qed
  moreover have "[0..<5] = [0, 1, 2, 3, 4 :: nat]" by (simp add: upt_rec)
  moreover have "b + b + b + b + b = n" using b by simp
  ultimately show "concat (superframe_parts outbuf n) = take n outbuf" using b by (simp add: superframe_parts_def)
  have "length (take b (drop (i * b) outbuf)) = b" if "i < 5" for i
  proof -
    have "(i + 1) * b \<le> 5 * b" using that by (intro mult_le_mono1) simp
    then have "i * b + b \<le> 5 * b" by (simp only: add_mult_distrib mult_1)
    then have "b \<le> length outbuf - i * b" using assms(2) b by linarith
    then show ?thesis by simp
  qed
  then show "\<forall>p \<in> set (superframe_parts outbuf n). length p = n div 5" using b by (simp add: superframe_parts_def)
qed

text \<open>
  A receiver that has all fragments of at most 65536 frames with consecutive sequence numbers, in any order and possibly repeated,
  recovers each frame.
\<close>

lemma fragments_received:
  assumes "set ds = \<Union> (set ` set frs)" "length frs = length parts" "length parts \<le> 65536" "i < length parts"
    and "\<forall>i < length parts. frame_fragments (frs ! i) (q + of_nat i) (parts ! i)"
  shows "edi_received ds (q + of_nat i) = Some (parts ! i)"
proof -
  let ?q = "q + of_nat i"
  have other: "b \<in> set (frs ! i)" if "b \<in> set (frs ! j)" "map_option pf_pseq (pf_parse b) = Some ?q" "j < length parts" for b j
  proof -
    have "map_option pf_pseq (pf_parse b) = Some (q + of_nat j)" using assms(5) that(1,3) unfolding frame_fragments_def by blast
    then have "(of_nat j :: u16) = of_nat i" using that(2) by auto
    moreover have "unat (of_nat j :: u16) = j" "unat (of_nat i :: u16) = i" using assms(3,4) that(3) by (auto intro!: unat_of_nat_id)
    ultimately have "j = i" by metis
    then show ?thesis using that(1) by simp
  qed
  let ?f = "filter (\<lambda>b. map_option pf_pseq (pf_parse b) = Some ?q) ds"
  have "set ?f = set (frs ! i)"
  proof (intro set_eqI iffI)
    fix b assume b: "b \<in> set ?f"
    then obtain fr where "fr \<in> set frs" "b \<in> set fr" using assms(1) by auto
    then show "b \<in> set (frs ! i)" using other b assms(2) by (auto simp: in_set_conv_nth)
  next
    fix b assume b: "b \<in> set (frs ! i)"
    then have "b \<in> set ds" unfolding assms(1) using assms(2,4) by (auto intro: bexI [of _ "frs ! i"])
    then show "b \<in> set ?f" using b assms(4,5) by (auto simp: frame_fragments_def)
  qed
  then obtain af seq payload items where "pf_reassemble ?f = Some af" "af_parse af = Some (seq, payload)"
    "tag_parse payload = Some items" "map_of items (str_bytes ''ss'' @ [0, 1]) = Some ([0, 0, 0] @ parts ! i)"
    using assms(4,5) unfolding frame_fragments_def by blast
  then show ?thesis by (simp add: edi_received_def af_stream_data_def)
qed

text \<open>A pass of the sender thread that finds everything due delivers all frames.\<close>

lemma due_received:
  assumes "sn_running s" "snd ` set (sn_pending s) = \<Union> (set ` set frs)" "length frs = length parts" "length parts \<le> 65536"
    and "\<forall>i < length parts. frame_fragments (frs ! i) (q + of_nat i) (parts ! i)"
    and "\<forall>x \<in> set (sn_pending s). fst x \<le> now" "length (sn_pending s) \<le> length envss"
    and "\<forall>es \<in> set envss. udp_env_ok (sn_sockets s) addrs es" "distinct addrs" "a \<in> set addrs"
  shows "\<exists>out s2. run_pass s now envss fds = (None, out, s2, fds) \<and> sn_pending s2 = []
    \<and> map (\<lambda>i. the (edi_received (map snd (filter (\<lambda>x. fst x = a) out)) (q + of_nat i))) [0..<length parts] = parts"
proof -
  obtain out s2 where o: "run_pass s now envss fds = (None, out, s2, fds)"
    "map snd (filter (\<lambda>x. fst x = a) out) = map snd (filter (\<lambda>x. fst x \<le> now) (sn_pending s))"
    "sn_pending s2 = filter (\<lambda>x. now < fst x) (sn_pending s)"
    using run_pass_due [OF assms(1,7,8,10,9), of now fds] by auto
  have all: "filter (\<lambda>x. fst x \<le> now) (sn_pending s) = sn_pending s" "filter (\<lambda>x. now < fst x) (sn_pending s) = []"
    using assms(6) by (auto simp: filter_id_conv filter_empty_conv)
  let ?ds = "map snd (filter (\<lambda>x. fst x = a) out)"
  have ds: "set ?ds = \<Union> (set ` set frs)" unfolding o(2) all(1) set_map assms(2) ..
  have "map (\<lambda>i. the (edi_received ?ds (q + of_nat i))) [0..<length parts] = map (\<lambda>i. parts ! i) [0..<length parts]"
    by (rule map_cong [OF refl]) (use fragments_received [OF ds assms(3,4) _ assms(5)] in auto)
  then show ?thesis using o(1,3) all(2) by (simp add: map_nth)
qed

text \<open>A superframe crosses the program's output unharmed. The five parts of a superframe are given to an EDI output that is in
  use with nothing pending, at five times that differ modulo a microsecond. All are accepted, although their fragments now wait
  interleaved. When a pass of the sender thread finds them all due and the UDP destinations can be reached, each destination
  recovers the five parts from the datagrams it got, grouped by their sequence numbers, and together they are the superframe.\<close>

theorem superframe_delivered:
  assumes "edi_in_use e s" "sn_pending s = []" "length envs = 5" "distinct (map (\<lambda>env. ee_steady env mod 1000) envs)"
    and "n mod 5 = 0" "n \<le> length outbuf"
    and "CEIL_DIV (n div 5 + length (eo_odr_version_tag e) + 83) (unat (pft_k (sn_pft s))) \<le> 256"
  shows "\<exists>e' s1 cache1. edi_parts e cache fds (zip envs (superframe_parts outbuf n)) = (Inr True, [], e', cache1, fds)
    \<and> eo_edi_sender e' = Some s1
    \<and> (\<forall>now' envss addrs a. (\<forall>x \<in> set (sn_pending s1). fst x \<le> now') \<longrightarrow> length (sn_pending s1) \<le> length envss
         \<longrightarrow> (\<forall>es \<in> set envss. udp_env_ok (sn_sockets s) addrs es) \<longrightarrow> distinct addrs \<longrightarrow> a \<in> set addrs
         \<longrightarrow> (\<exists>out s2. run_pass s1 now' envss fds = (None, out, s2, fds) \<and> sn_pending s2 = []
              \<and> concat (map (\<lambda>i. the (edi_received (map snd (filter (\<lambda>x. fst x = a) out)) (pft_pseq (sn_pft s) + of_nat i))) [0..<5])
                  = take n outbuf))"
proof -
  let ?parts = "superframe_parts outbuf n"
  note sp = superframe_parts_concat [OF assms(5,6)]
  have l5: "length ?parts = 5" by (simp add: superframe_parts_def)
  obtain e' s1 frs cache1 where w: "edi_parts e cache fds (zip envs ?parts) = (Inr True, [], e', cache1, fds)" "edi_in_use e' s1"
    "sn_sockets s1 = sn_sockets s" "length frs = length ?parts" "snd ` set (sn_pending s1) = \<Union> (set ` set frs)"
    "\<forall>i < length ?parts. frame_fragments (frs ! i) (pft_pseq (sn_pft s) + of_nat i) (?parts ! i)"
    using edi_parts_queue [OF assms(1,4), of ?parts cache fds] assms(2,3,7) sp(2) l5 by auto
  have run: "sn_running s1" "length ?parts \<le> 65536" using w(2) l5 by (simp_all add: edi_in_use_def sender_ok_def)
  have "eo_edi_sender e' = Some s1" using w(2) by (simp add: edi_in_use_def)
  then show ?thesis using due_received [OF run(1) w(5,4) run(2) w(6)] w(1,3) sp(1) unfolding l5 by metis
qed

text \<open>An EDI output with one destination, for examples.\<close>

definition example_sender :: Sender where
  "example_sender = \<lparr>sn_conf = configuration_default\<lparr>cf_enable_pft := True\<rparr>, sn_af = AFPacketiser_init,
     sn_pft = \<lparr>pft_k = 207, pft_m = 2, pft_pseq = 65534, pft_num_chunks = 0\<rparr>, sn_sockets =
       [DUdp \<lparr>ud_dest_addr = [], ud_dest_port = 0, ud_source_addr = [], ud_source_port = 0, ud_ttl = 10\<rparr> \<lparr>us_sock = 3, us_port = 0\<rparr>],
     sn_running = True, sn_pending = [], sn_debug = []\<rparr>"

definition example_edi :: Output_EDI where
  "example_edi = (EDI_init 0)\<lparr>eo_edi_sender := Some example_sender, eo_clock_tai :=
     (ClockTAI_init [])\<lparr>ct_state := Some \<lparr>bs_valid = True, bs_expires_at = 9, bs_offset = 37\<rparr>\<rparr>\<rparr>"

definition example_env :: "int \<Rightarrow> edi_env" where
  "example_env t = \<lparr>ee_setup = [], ee_time = 0, ee_steady = t, ee_tai = \<lparr>te_load = \<lparr>fe_open = True, fe_lock = True, fe_io = []\<rparr>,
     te_store = \<lparr>fe_open = True, fe_lock = True, fe_io = []\<rparr>, te_curl = \<lambda>_. CurlError\<rparr>, ee_send = []\<rparr>"

lemma example_edi_in_use: "edi_in_use example_edi example_sender" "sn_pending example_sender = []"
  by (simp_all add: edi_in_use_def example_edi_def example_sender_def sender_ok_def configuration_default_def EDI_init_def
      tai_inv_def ClockTAI_init_def Bulletin_init_def good_state_def)

theorem superframe_delivered_witness:
  "\<exists>e' s1 cache1 out s2. edi_parts example_edi None {3} (zip (map example_env [0, 1, 2, 3, 4]) (superframe_parts [1, 2, 3, 4, 5, 6, 7, 8, 9, 10, 0, 0] 10))
      = (Inr True, [], e', cache1, {3}) \<and> eo_edi_sender e' = Some s1
    \<and> run_pass s1 (Max (insert 0 (fst ` set (sn_pending s1))))
        (replicate (length (sn_pending s1)) [\<lparr>dn_gai = 0, dn_addrs = [7], dn_send = None\<rparr>]) {3} = (None, out, s2, {3})
    \<and> concat (map (\<lambda>i. the (edi_received (map snd (filter (\<lambda>x. fst x = 7) out)) (65534 + of_nat i))) [0..<5])
        = [1, 2, 3, 4, 5, 6, 7, 8, 9, 10]"
proof -
  let ?o = "[1, 2, 3, 4, 5, 6, 7, 8, 9, 10, 0, 0] :: bytes" and ?envs = "map example_env [0, 1, 2, 3, 4]"
  have q: "pft_pseq (sn_pft example_sender) = 65534" "take 10 ?o = [1, 2, 3, 4, 5, 6, 7, 8, 9, 10]"
    by (simp_all add: example_sender_def)
  have d: "distinct (map (\<lambda>env. ee_steady env mod 1000) ?envs)" by (simp add: example_env_def)
  have c: "CEIL_DIV (10 div 5 + length (eo_odr_version_tag example_edi) + 83) (unat (pft_k (sn_pft example_sender))) \<le> 256"
    by (simp add: example_edi_def EDI_init_def example_sender_def CEIL_DIV_def)
  obtain e' s1 cache1 where w: "edi_parts example_edi None {3} (zip ?envs (superframe_parts ?o 10)) = (Inr True, [], e', cache1, {3})"
      "eo_edi_sender e' = Some s1"
    and r: "\<forall>now' envss addrs a. (\<forall>x \<in> set (sn_pending s1). fst x \<le> now') \<longrightarrow> length (sn_pending s1) \<le> length envss
         \<longrightarrow> (\<forall>es \<in> set envss. udp_env_ok (sn_sockets example_sender) addrs es) \<longrightarrow> distinct addrs \<longrightarrow> a \<in> set addrs
         \<longrightarrow> (\<exists>out s2. run_pass s1 now' envss {3} = (None, out, s2, {3}) \<and> sn_pending s2 = []
              \<and> concat (map (\<lambda>i. the (edi_received (map snd (filter (\<lambda>x. fst x = a) out)) (pft_pseq (sn_pft example_sender) + of_nat i))) [0..<5])
                  = take 10 ?o)"
    using superframe_delivered [OF example_edi_in_use _ d _ _ c, of ?o None "{3}"] by auto
  let ?m = "Max (insert 0 (fst ` set (sn_pending s1)))" and ?r = "[\<lparr>dn_gai = 0, dn_addrs = [7], dn_send = None\<rparr>]"
  have due: "\<forall>x \<in> set (sn_pending s1). fst x \<le> ?m" by auto
  have ok: "\<forall>es \<in> set (replicate (length (sn_pending s1)) ?r). udp_env_ok (sn_sockets example_sender) [7] es"
    by (simp add: udp_env_ok_def example_sender_def)
  show ?thesis
    using r [THEN spec [of _ ?m], THEN spec [of _ "replicate (length (sn_pending s1)) ?r"], THEN spec [of _ "[7]"], THEN spec [of _ 7]]
      due ok w unfolding q by auto
qed

subsection \<open>Set-up\<close>

lemma setDabPlusParameters_accepts:
  assumes "setDabPlusParameters a bitrate channels sample_rate sbr ps = Inr (0, a')"
  shows "bitrate = 8 * cdiv bitrate 8" "1 \<le> cdiv bitrate 8" "cdiv bitrate 8 \<le> 24" "channels = 1 \<or> channels = 2"
    "sample_rate = 32000 \<or> sample_rate = 48000"
  using assms by (auto simp: setDabPlusParameters_def Let_def split: if_splits sum.splits)

lemma connect_zmq_some:
  "connect_zmq mem env key z uris = Inr z' \<Longrightarrow> uris \<noteq> [] \<or> z \<noteq> None \<Longrightarrow> z' \<noteq> None"
proof (induction uris arbitrary: z)
  case (Cons uri uris)
  then show ?case by (auto simp: Let_def split: prod.splits option.splits)
qed simp

text \<open>The identifier is limited so that the EDI packet does not grow too large.\<close>

lemma option_step_identifier:
  assumes "option_step opt ch optarg = Goes opt'" "length (op_identifier opt) \<le> 32"
  shows "length (op_identifier opt') \<le> 32"
  using assms by (auto simp: option_step_def with_int_def split: if_splits sum.splits)

lemma parse_options_identifier:
  "parse_options opt args = Goes opt' \<Longrightarrow> length (op_identifier opt) \<le> 32 \<Longrightarrow> length (op_identifier opt') \<le> 32"
  by (induction opt args rule: parse_options.induct) (auto split: outcome.splits dest: option_step_identifier)

text \<open>The state in which the main loop is entered.\<close>

lemma main_setup_goes:
  assumes "main_setup env handle argv = Goes c"
  obtains o1 edi1 avt1 where "parse_options options_default (getopt_long argv) = Goes o1" "check_options (me_run env) o1 = Goes (co_opts c)"
    "connect_zmq (me_mem env) (me_zmq env) (op_keyfile (co_opts c)) None (op_output_uris (co_opts c)) = Inr (co_zmq c)"
    "add_edi_uris (EDI_init (me_steady env)) (op_edi_output_uris (co_opts c)) = Inr edi1"
    "co_edi c = (if op_edi_output_uris (co_opts c) \<noteq> []
       then set_odr_version_tag edi1 (version_tag (me_package_name env) (me_version env) (op_identifier (co_opts c))) else edi1)"
    "prepare (me_net env) (AVTInput_init (op_avt_input_uri (co_opts c)) (op_avt_output_uri (co_opts c)) (op_avt_pad_port (co_opts c))
       (op_avt_jitterBufferSize (co_opts c))) = Inr (0, avt1)"
    "setDabPlusParameters avt1 (op_bitrate (co_opts c)) (op_channels (co_opts c)) (op_sample_rate (co_opts c)) (op_allowSBR (co_opts c))
       (op_allowPS (co_opts c)) = Inr (0, co_avt c)"
    "co_outbuf c = replicate (24 * 120) 0" "co_send_error_count c = 0" "co_cache c = me_cache env"
proof -
  have m0: "\<not> (length argv = 2 \<and> argv ! 1 = ''--version'')" "\<not> length argv < 2"
    using assms by (auto simp: main_setup_def split: if_splits sum.splits)
  note m = assms [unfolded main_setup_def if_not_P [OF m0(1)] if_not_P [OF m0(2)]]
  obtain decoder where d: "AACDecoder_init handle = Inr decoder" using m by (cases "AACDecoder_init handle") auto
  obtain o1 where o1: "parse_options options_default (getopt_long argv) = Goes o1" using m by (cases "parse_options options_default (getopt_long argv)") (auto simp: d)
  obtain o2 where o2: "check_options (me_run env) o1 = Goes o2" using m by (cases "check_options (me_run env) o1") (auto simp: d o1)
  obtain zmq where z: "connect_zmq (me_mem env) (me_zmq env) (op_keyfile o2) None (op_output_uris o2) = Inr zmq"
    using m by (cases "connect_zmq (me_mem env) (me_zmq env) (op_keyfile o2) None (op_output_uris o2)") (auto simp: d o1 o2)
  obtain edi1 where e: "add_edi_uris (EDI_init (me_steady env)) (op_edi_output_uris o2) = Inr edi1"
    using m by (cases "add_edi_uris (EDI_init (me_steady env)) (op_edi_output_uris o2)") (auto simp: d o1 o2 z)
  let ?a0 = "AVTInput_init (op_avt_input_uri o2) (op_avt_output_uri o2) (op_avt_pad_port o2) (op_avt_jitterBufferSize o2)"
  note m1 = m [unfolded d o1 o2 z e sum.case outcome.case Let_def]
  obtain avt1 where a1: "prepare (me_net env) ?a0 = Inr (0, avt1)"
    using m1 by (auto split: sum.splits option.splits if_splits prod.splits)
  note m2 = m1 [unfolded a1 sum.case prod.case]
  show thesis
    by (rule that [OF o1 _ _ _ _ _ _ _ _ _, of edi1 avt1])
      (use m2 o2 z e a1 in \<open>auto split: sum.splits option.splits if_splits prod.splits\<close>)
qed

text \<open>C29: the main loop starts only with a configuration it can handle: a PAD length that fits a byte, audio parameters of the AVT
  encoder, a frame buffer that a superframe of this bit rate fits in, and at least one output (an EDI address may have been
  unusable).\<close>

theorem main_setup_bounds:
  assumes "main_setup env handle argv = Goes c"
  shows "0 \<le> op_padlen (co_opts c) \<and> op_padlen (co_opts c) \<le> 255 \<and> op_avt_input_uri (co_opts c) \<noteq> ''''
    \<and> 8 \<le> op_bitrate (co_opts c) \<and> op_bitrate (co_opts c) \<le> 192 \<and> op_bitrate (co_opts c) mod 8 = 0
    \<and> cdiv (op_bitrate (co_opts c)) 8 * 120 \<le> int (length (co_outbuf c))
    \<and> (co_zmq c \<noteq> None \<or> op_edi_output_uris (co_opts c) \<noteq> [])
    \<and> (op_channels (co_opts c) = 1 \<or> op_channels (co_opts c) = 2)
    \<and> (op_sample_rate (co_opts c) = 32000 \<or> op_sample_rate (co_opts c) = 48000)"
proof -
  let ?o = "co_opts c"
  obtain o1 avt1 where g: "check_options (me_run env) o1 = Goes ?o"
    "connect_zmq (me_mem env) (me_zmq env) (op_keyfile ?o) None (op_output_uris ?o) = Inr (co_zmq c)"
    "setDabPlusParameters avt1 (op_bitrate ?o) (op_channels ?o) (op_sample_rate ?o) (op_allowSBR ?o) (op_allowPS ?o) = Inr (0, co_avt c)"
    "length (co_outbuf c) = 2880"
    by (rule main_setup_goes [OF assms]) simp
  note a = setDabPlusParameters_accepts [OF g(3)]
  have "0 \<le> op_padlen ?o \<and> op_padlen ?o \<le> 255 \<and> op_avt_input_uri ?o \<noteq> '''' \<and> (op_output_uris ?o \<noteq> [] \<or> op_edi_output_uris ?o \<noteq> [])"
    using g(1) by (auto simp: check_options_def split: if_splits)
  moreover have "op_output_uris ?o \<noteq> [] \<Longrightarrow> co_zmq c \<noteq> None" using connect_zmq_some [OF g(2)] by simp
  moreover have "op_bitrate ?o mod 8 = 0" by (subst a(1)) simp
  ultimately show ?thesis using a g(4) by auto
qed

text \<open>Answers of the system, for examples.\<close>

definition example_main_env :: main_env where
  "example_main_env = \<lparr>me_package_name = ''odr'', me_version = ''1'', me_run = \<lambda>_. None,
     me_zmq = \<lambda>_. \<lparr>ze_key = (True, None), ze_curve_ok = True, ze_connect_ok = True\<rparr>, me_mem = replicate 41 0, me_steady = 0,
     me_pad = \<lparr>ue_socket = 5, ue_getfl = True, ue_setfl = True, ue_bind = \<lambda>_. True\<rparr>,
     me_net = \<lparr>ne_bind = \<lambda>_. \<lparr>be_gai = 0, be_cands = [(6, True)], be_any = 7\<rparr>, ne_group = \<lambda>_. (True, True, True), ne_nonblock_ok = True,
       ne_resolve = \<lambda>_ _. (0, [1])\<rparr>,
     me_stats = \<lparr>ue_socket = 5, ue_getfl = True, ue_setfl = True, ue_bind = \<lambda>_. True\<rparr>, me_pid = 1, me_cache = None\<rparr>"

lemma example_prepare:
  obtains a where "prepare (me_net example_main_env) (AVTInput_init ''udp://:32010'' [] 0 40) = Inr (0, a)" "avt_output_uri a = []"
proof -
  define a0 where "a0 = AVTInput_init ''udp://:32010'' [] 0 40"
  have "dec_nat 32010 = ''32010''" by (simp add: dec_nat.simps digit_char_def char_of_def bit_0)
  then have "strtol ''32010'' = 32010" using strtol_dec_nat [of 32010] by (simp add: LONG_MAX_def)
  then have u: "parseURI ''udp://:32010'' = Some ([], 32010)" by (simp add: parseURI_def LONG_MAX_def LONG_MIN_def)
  have r: "avt_input_uri a0 = ''udp://:32010''" "avt_output_uri a0 = []" "avt_pad_port a0 = 0" by (simp_all add: a0_def AVTInput_init_def)
  obtain k fds where k: "openSocketSrv (me_net example_main_env) (avt_input_socket a0) ''udp://:32010'' (w_fds a0) = Inr (0, k, fds)"
    unfolding openSocketSrv_def u by (simp add: example_main_env_def udp_reinit_def Let_def)
  obtain a where "prepare (me_net example_main_env) a0 = Inr (0, a)" "avt_output_uri a = []"
    unfolding prepare_def r k by (simp add: Let_def r)
  then show thesis using that unfolding a0_def by blast
qed

theorem main_setup_bounds_witness:
  "\<exists>c. main_setup example_main_env (Some ()) [''odr'', ''-I'', ''udp://:32010'', ''-b96'', ''--output=tcp://localhost:9000''] = Goes c
    \<and> 8 \<le> op_bitrate (co_opts c) \<and> op_padlen (co_opts c) \<le> 255"
proof -
  let ?argv = "[''odr'', ''-I'', ''udp://:32010'', ''-b96'', ''--output=tcp://localhost:9000'']"
  let ?args = "[(of_char (CHR ''I''), ''udp://:32010''), (of_char (CHR ''b''), ''96''), (of_char (CHR ''o''), ''tcp://localhost:9000'')]"
  let ?o = "options_default\<lparr>op_avt_input_uri := ''udp://:32010'', op_bitrate := 96, op_output_uris := [''tcp://localhost:9000'']\<rparr>"
  have g: "getopt_long ?argv = ?args"
    by (simp add: getopt_long_def optstring_def long_word_def long_option_def longopts_def no_argument_def required_argument_def)
  have i: "stoi ''96'' = Inr 96" by (simp add: stoi_def stol_range_def is_space_def is_digit_def digits_val_def digit_val_def)
  have p: "parse_options options_default ?args = Goes ?o" by (simp add: option_step_def with_int_def i options_default_def)
  have c: "check_options (me_run example_main_env) ?o = Goes ?o" by (simp add: check_options_def options_default_def)
  obtain z where z: "connect_zmq (me_mem example_main_env) (me_zmq example_main_env) (op_keyfile ?o) None (op_output_uris ?o) = Inr (Some z)"
    by (simp add: ZMQ_connect_def example_main_env_def options_default_def Let_def)
  have e: "add_edi_uris (EDI_init (me_steady example_main_env)) (op_edi_output_uris ?o) = Inr (EDI_init (me_steady example_main_env))"
    by (simp add: options_default_def)
  obtain a where a: "prepare (me_net example_main_env)
      (AVTInput_init (op_avt_input_uri ?o) (op_avt_output_uri ?o) (op_avt_pad_port ?o) (op_avt_jitterBufferSize ?o)) = Inr (0, a)"
    "avt_output_uri a = []" by (rule example_prepare) (simp add: options_default_def)
  have s: "\<exists>a'. setDabPlusParameters a (op_bitrate ?o) (op_channels ?o) (op_sample_rate ?o) (op_allowSBR ?o) (op_allowPS ?o) = Inr (0, a')"
    using a(2) by (simp add: setDabPlusParameters_def options_default_def cdiv_def sendCtrlMessage_def Let_def)
  have "\<exists>c. main_setup example_main_env (Some ()) ?argv = Goes c"
    using s unfolding main_setup_def AACDecoder_init_def option.case sum.case g p outcome.case c z e a(1) Let_def
    by (auto simp: options_default_def)
  then show ?thesis using main_setup_bounds [of example_main_env "Some ()" ?argv] by blast
qed

subsection \<open>PAD\<close>

lemma pushPADFrame_queue:
  "avt_padFrameQueue (pushPADFrame a buf) = avt_padFrameQueue a
   \<or> avt_padFrameQueue (pushPADFrame a buf) = avt_padFrameQueue a @ [rev buf] \<and> buf \<noteq> []"
  by (auto simp: pushPADFrame_def)

text \<open>C31: the PAD queue is filled up to its limit and no further, behind what it contains, with frames of at least one byte and at
  most the PAD length.\<close>

theorem pad_fill_bounded:
  assumes "pad_fill avt pad padlen answers = Inr (avt', pad')" "length (avt_padFrameQueue avt) \<le> MAX_PAD_FRAME_QUEUE_SIZE"
  shows "length (avt_padFrameQueue avt') \<le> MAX_PAD_FRAME_QUEUE_SIZE
    \<and> (\<exists>fs. avt_padFrameQueue avt' = avt_padFrameQueue avt @ fs \<and> list_all (\<lambda>f. 0 < length f \<and> length f \<le> nat padlen) fs)"
  using assms
proof (induction avt pad padlen answers rule: pad_fill.induct)
  case (1 avt pad padlen answers)
  let ?Q = "\<lambda>avt. length (avt_padFrameQueue avt) \<le> MAX_PAD_FRAME_QUEUE_SIZE"
  let ?E = "\<lambda>a b. \<exists>fs. avt_padFrameQueue b = avt_padFrameQueue a @ fs \<and> list_all (\<lambda>f. 0 < length f \<and> length f \<le> nat padlen) fs"
  consider (same) "avt' = avt"
    | (push) ret rs rest pad_data sent rs' pad1 where "answers = (ret, rs) # rest" "\<not> padQueueFull avt"
        "pad_request pad (word_of_int padlen) ret rs = Inr (pad_data, sent, rs', pad1)" "pad_data \<noteq> []"
        "length pad_data = nat padlen + 1" "\<not> unat (pad_data ! nat padlen) > nat padlen"
        "pad_fill (pushPADFrame avt (take (unat (pad_data ! nat padlen)) (drop (nat padlen - unat (pad_data ! nat padlen)) pad_data)))
           pad1 padlen rest = Inr (avt', pad')"
    using 1(2) by (subst (asm) pad_fill.simps) (auto simp: Let_def split: if_splits list.splits sum.splits prod.splits)
  then show ?case
  proof cases
    case same
    then show ?thesis using 1(3) by simp
  next
    case (push ret rs rest pad_data sent rs' pad1)
    let ?f = "take (unat (pad_data ! nat padlen)) (drop (nat padlen - unat (pad_data ! nat padlen)) pad_data)"
    let ?a = "pushPADFrame avt ?f"
    have q: "?Q ?a" using pushPADFrame_queue [of avt ?f] push(2) 1(3) by (auto simp: padQueueFull_def)
    have "length ?f \<le> nat padlen" by (rule order_trans [of _ "unat (pad_data ! nat padlen)"]) (use push(6) in simp_all)
    then have e: "?E avt ?a" using pushPADFrame_queue [of avt ?f] by (auto simp del: length_take length_drop take_eq_Nil)
    have "?Q avt' \<and> ?E ?a avt'" using 1(1) [OF push(2) push(1) refl push(3) refl refl refl push(4,5) refl push(6,7) q] by simp
    then show ?thesis using e by fastforce
  qed
qed

theorem pad_fill_bounded_witness:
  "\<exists>avt' pad'. pad_fill (AVTInput_init [] [] 5 40) (PadInterface_init\<lparr>pi_pad_ident := ''x''\<rparr>) 2
      [(SentBytes 2, [RecvData [2, 9, 8, 1] 0])] = Inr (avt', pad') \<and> length (avt_padFrameQueue avt') \<le> 6 \<and> avt_padFrameQueue avt' = [[8]]"
proof -
  have "\<exists>avt' pad'. pad_fill (AVTInput_init [] [] 5 40) (PadInterface_init\<lparr>pi_pad_ident := ''x''\<rparr>) 2
      [(SentBytes 2, [RecvData [2, 9, 8, 1] 0])] = Inr (avt', pad') \<and> avt_padFrameQueue avt' = [[8]]"
    by (subst pad_fill.simps, subst pad_fill.simps)
      (simp add: padQueueFull_def AVTInput_init_def MAX_PAD_FRAME_QUEUE_SIZE_def pad_request_def MESSAGE_PAD_DATA_def
        pushPADFrame_def Let_def)
  then obtain avt' pad' where f: "pad_fill (AVTInput_init [] [] 5 40) (PadInterface_init\<lparr>pi_pad_ident := ''x''\<rparr>) 2
      [(SentBytes 2, [RecvData [2, 9, 8, 1] 0])] = Inr (avt', pad')" "avt_padFrameQueue avt' = [[8]]" by blast
  have "length (avt_padFrameQueue (AVTInput_init [] [] 5 40)) \<le> MAX_PAD_FRAME_QUEUE_SIZE" by (simp add: AVTInput_init_def)
  from pad_fill_bounded [OF f(1) this] show ?thesis using f unfolding MAX_PAD_FRAME_QUEUE_SIZE_def by blast
qed

subsection \<open>Failures\<close>



end
