(* ===== verification/Program.thy ===== *)
theory Program
  imports Companion
begin

text \<open>
  The program as a whole: one pass of the main loop of \<^verbatim>\<open>src/odr-sourcecompanion.cpp\<close> composed with the AVT input it reads from
  and the EDI output it writes to, and the ways the loop ends.
\<close>

subsection \<open>From the datagrams of the encoder to the receivers of the multiplex\<close>

text \<open>Two states of the EDI output that differ only in what goes into the frames.\<close>

definition edi_same_use :: "Output_EDI \<Rightarrow> Output_EDI \<Rightarrow> bool" where
  "edi_same_use e e' \<longleftrightarrow> eo_edi_sender e' = eo_edi_sender e \<and> eo_edi_conf e' = eo_edi_conf e \<and> eo_clock_tai e' = eo_clock_tai e
     \<and> eo_odr_version_tag e' = eo_odr_version_tag e"

lemma set_tist_keeps:
  assumes "0 \<le> ts"
  obtains e' where "set_tist e enable delay ts = (None, e')" "edi_same_use e e'"
proof -
  let ?t = "ts + uint delay * 1000000"
  have "cdiv t b * b \<le> t" if "0 \<le> t" "0 < b" for t b
  proof -
    have "cdiv t b = t div b" using that by (cases "t = 0") (simp_all add: cdiv_def)
    then show ?thesis using minus_div_mult_eq_mod [of t b] pos_mod_sign [OF that(2), of t] by (metis diff_ge_0_iff_ge)
  qed
  from this [of ?t 1000000000] have "0 \<le> ?t - cdiv ?t 1000000000 * 1000000000" using assms by simp
  then show thesis using that by (simp add: set_tist_def Let_def edi_same_use_def)
qed

text \<open>Only the bytes of the superframe are divided.\<close>

lemma superframe_parts_prefix:
  assumes "n \<le> length sf"
  shows "superframe_parts (sf @ rest) n = superframe_parts sf n"
proof -
  have "take (n div 5) (drop (i * (n div 5)) (sf @ rest)) = take (n div 5) (drop (i * (n div 5)) sf)" if "i < 5" for i
  proof -
    have "(i + 1) * (n div 5) \<le> 5 * (n div 5)" using that by (intro mult_le_mono1) simp
    also have "\<dots> \<le> length sf" using assms by simp
    finally have "n div 5 + i * (n div 5) \<le> length sf" by simp
    then show ?thesis by (simp add: take_drop)
  qed
  then show ?thesis by (simp add: superframe_parts_def)
qed

lemma measure_levels_keeps:
  assumes "n mod 120 = 0 \<Longrightarrow> fst (decode_frame lib (co_decoder c) (co_outbuf c) (n div 120 * 110)) \<in> {None, Some RuntimeError}"
  obtains pl pr d where "measure_levels lib c n = (None, pl, pr, c\<lparr>co_decoder := d\<rparr>)"
proof (cases "n mod 120 = 0")
  case False
  then show thesis using that [of 0 0 "co_decoder c"] by (simp add: measure_levels_def)
next
  case True
  obtain x d where x: "decode_frame lib (co_decoder c) (co_outbuf c) (n div 120 * 110) = (x, d)" by fastforce
  show thesis using assms [OF True] x that True by (cases "get_peaks d") (auto simp: measure_levels_def)
qed

text \<open>The first block of \<open>write_frame\<close>: the sender is created and the TAI offset is looked up when the output is used for the first time.\<close>

definition edi_open :: "edi_env \<Rightarrow> Output_EDI \<Rightarrow> cache \<Rightarrow> fdtable \<Rightarrow> (Sender \<times> ClockTAI \<times> cache \<times> fdtable) option" where
  "edi_open env e cache fds =
     (case (case eo_edi_sender e of Some s \<Rightarrow> (Inr s, fds) | None \<Rightarrow> Sender_init (eo_edi_conf e) (ee_setup env) fds) of
        (Inl x, _) \<Rightarrow> None
      | (Inr s, fds1) \<Rightarrow>
          (case offset_first (ee_time env) (ee_steady env) (ee_tai env) cache (eo_clock_tai e) of
             (Some x, _) \<Rightarrow> None
           | (None, cache1, clk) \<Rightarrow> Some (s, clk, cache1, fds1)))"

abbreviation edi_opened :: "Output_EDI \<Rightarrow> Sender \<Rightarrow> ClockTAI \<Rightarrow> Output_EDI" where
  "edi_opened e s clk \<equiv> e\<lparr>eo_edi_sender := Some s, eo_clock_tai := clk\<rparr>"

lemma edi_open_cong:
  assumes "eo_edi_sender e' = eo_edi_sender e" "eo_edi_conf e' = eo_edi_conf e" "eo_clock_tai e' = eo_clock_tai e"
  shows "edi_open env e' cache fds = edi_open env e cache fds"
  unfolding edi_open_def assms ..

lemma edi_open_in_use:
  assumes "edi_in_use e s"
  shows "edi_open env e cache fds = Some (s, eo_clock_tai e, cache, fds)" "edi_opened e s (eo_clock_tai e) = e"
  using assms by (auto simp: edi_in_use_def edi_open_def offset_first_def)

lemma offset_first_state:
  assumes "offset_first now t env fl c = (None, fl1, c1)"
  shows "ct_state c1 \<noteq> None"
  using assms by (auto simp: offset_first_def split: option.splits sum.splits prod.splits)

lemma edi_open_write:
  assumes "edi_open env e cache fds = Some (s, clk, cache1, fds1)"
  shows "EDI_write_frame env e buf cache fds = EDI_write_frame env (edi_opened e s clk) buf cache1 fds1"
proof -
  obtain x where o: "offset_first (ee_time env) (ee_steady env) (ee_tai env) cache (eo_clock_tai e) = (None, cache1, clk)"
    and s: "(case eo_edi_sender e of Some s \<Rightarrow> (Inr s, fds) | None \<Rightarrow> Sender_init (eo_edi_conf e) (ee_setup env) fds) = (Inr s, fds1)"
    using assms by (auto simp: edi_open_def split: prod.splits sum.splits option.splits)
  have "offset_first (ee_time env) (ee_steady env) (ee_tai env) cache1 clk = (None, cache1, clk)"
    using offset_first_state [OF o] by (auto simp: offset_first_def)
  then have "get_offset (ee_time env) (ee_steady env) (ee_tai env) cache1 clk
      = get_offset (ee_time env) (ee_steady env) (ee_tai env) cache (eo_clock_tai e)" by (simp add: get_offset_def o)
  then show ?thesis
    unfolding EDI_write_frame_def s
    by (simp add: edi_tagDSTI_def version_due_def edi_tagpacket_def num_seconds_sent_def Let_def split: prod.splits sum.splits)
qed

lemma edi_open_parts:
  assumes "edi_open env e cache fds = Some (s, clk, cache1, fds1)"
  shows "edi_parts e cache fds ((env, p) # xs) = edi_parts (edi_opened e s clk) cache1 fds1 ((env, p) # xs)"
  by (simp add: edi_open_write [OF assms])

text \<open>The buffer has room for a superframe of the bit rate.\<close>

definition outbuf_fits :: "'h companion \<Rightarrow> bool" where
  "outbuf_fits c \<longleftrightarrow> 5 * avt_dab24msFrameSize (co_avt c) \<le> length (co_outbuf c)
     \<and> nat (cdiv (op_bitrate (co_opts c)) 8 * 120) = 5 * avt_dab24msFrameSize (co_avt c)"

text \<open>The frames of superframe \<open>m\<close>, in order.\<close>

definition superframe_of_burst :: "(int \<times> OrderedQueueData) list \<Rightarrow> nat \<Rightarrow> bytes" where
  "superframe_of_burst fs m = concat (map (\<lambda>j. oqd_buf (the (map_of fs (5 * int m + int j)))) [0..<5])"

text \<open>The program between two passes: there is no PAD and no ZeroMQ output, an EDI destination is configured, no datagram waits.\<close>

definition program_up :: "'h companion \<Rightarrow> bool" where
  "program_up c \<longleftrightarrow> w_frames (co_avt c) = [] \<and> 0 \<le> avt_frameZeroTimestamp (co_avt c)
     \<and> outbuf_fits c \<and> op_padlen (co_opts c) = 0 \<and> op_edi_output_uris (co_opts c) \<noteq> [] \<and> co_zmq c = None
     \<and> co_send_error_count c \<le> 10 \<and> EDI_enabled (co_edi c)"

definition fragments_fit :: "'h companion \<Rightarrow> u32 \<Rightarrow> bool" where
  "fragments_fit c k \<longleftrightarrow>
     CEIL_DIV (avt_dab24msFrameSize (co_avt c) + length (eo_odr_version_tag (co_edi c)) + 83) (unat k) \<le> 256"

text \<open>In step with the encoder: superframe \<open>m\<close> comes next, and the EDI output is in use with the sender \<open>s\<close>.\<close>

definition in_step :: "'h companion \<Rightarrow> Sender \<Rightarrow> nat \<Rightarrow> bool" where
  "in_step c s m \<longleftrightarrow> program_up c \<and> avt_ready m (co_avt c) \<and> m < 1000 \<and> edi_in_use (co_edi c) s \<and> fragments_fit c (pft_k (sn_pft s))"

text \<open>As the main loop is entered: nothing has been received, the output has neither a sender nor the TAI offset, and its configuration
  gives a sender that works.\<close>

definition conf_ok :: "configuration_t \<Rightarrow> bool" where
  "conf_ok conf \<longleftrightarrow> cf_enable_pft conf \<and> cf_tagpacket_alignment conf = 0 \<and> 0 < cf_chunk_len conf \<and> cf_chunk_len conf \<le> 207
     \<and> cf_fec conf < 48 \<and> (cf_fragment_spreading_factor conf \<le> 0 \<or> 128 / 24000 \<le> cf_fragment_spreading_factor conf)"

definition program_started :: "'h companion \<Rightarrow> bool" where
  "program_started c \<longleftrightarrow> program_up c \<and> avt_fresh (co_avt c) \<and> eo_edi_sender (co_edi c) = None \<and> tai_inv (eo_clock_tai (co_edi c))
     \<and> conf_ok (eo_edi_conf (co_edi c)) \<and> fragments_fit c (cf_chunk_len (eo_edi_conf (co_edi c)))"

text \<open>The five frames \<open>fs\<close> of superframe \<open>m\<close> have arrived in the datagrams \<open>ds\<close>, in any order (but the first one first if nothing has been
  received yet), and the level meter does not touch memory out of bounds.\<close>

definition burst_arrives :: "'h fdk \<Rightarrow> nat \<Rightarrow> 'h companion \<Rightarrow> (recv_result \<times> timestamp_t) list \<Rightarrow> (int \<times> OrderedQueueData) list \<Rightarrow> bool" where
  "burst_arrives lib m c ds fs \<longleftrightarrow>
     mset (map fst fs) = mset (map (\<lambda>j. 5 * int m + int j) [0..<5])
     \<and> (avt_fresh (co_avt c) \<longrightarrow> fst (hd fs) = 5 * int m)
     \<and> list_all2 (\<lambda>(r, ts) (i, d). carries (avt_dab24msFrameSize (co_avt c)) r i (oqd_buf d) \<and> ts = oqd_capture_timestamp d) ds fs
     \<and> (\<forall>x \<in> set fs. 0 \<le> oqd_capture_timestamp (snd x))
     \<and> fst (decode_frame lib (co_decoder c)
            (superframe_of_burst fs m @ drop (5 * avt_dab24msFrameSize (co_avt c)) (co_outbuf c))
            (5 * avt_dab24msFrameSize (co_avt c) div 120 * 110)) \<in> {None, Some RuntimeError}"

text \<open>The same for a program whose output is in use with the sender \<open>s\<close>, or can be opened with it, while the clock shows five times that differ
  modulo a microsecond from each other and from those of the pending fragments.\<close>

definition superframe_arrives ::
  "'h fdk \<Rightarrow> nat \<Rightarrow> 'h companion \<Rightarrow> Sender \<Rightarrow> (recv_result \<times> timestamp_t) list \<Rightarrow> (int \<times> OrderedQueueData) list \<Rightarrow> write_env \<Rightarrow> bool" where
  "superframe_arrives lib m c s ds fs env \<longleftrightarrow> burst_arrives lib m c ds fs
     \<and> length (we_edi env) = 5 \<and> distinct (map (\<lambda>env. ee_steady env mod 1000) (we_edi env))
     \<and> map_option fst (edi_open (hd (we_edi env)) (co_edi c) (co_cache c) (co_fds c)) = Some s
     \<and> (\<forall>x \<in> set (sn_pending s). \<forall>env \<in> set (we_edi env). fst x mod 1000 \<noteq> ee_steady env mod 1000)"

definition datagrams_arrive :: "(recv_result \<times> timestamp_t) list \<Rightarrow> 'h companion \<Rightarrow> 'h companion" where
  "datagrams_arrive ds c = c\<lparr>co_avt := (co_avt c)\<lparr>w_frames := w_frames (co_avt c) @ ds\<rparr>\<rparr>"

lemma avt_fresh_frames [simp]: "avt_fresh (a\<lparr>w_frames := ds\<rparr>) = avt_fresh a"
  by (simp add: avt_fresh_def avt_ready_def)

lemma avt_ready_frames [simp]: "avt_ready m (a\<lparr>w_frames := ds\<rparr>) = avt_ready m a"
  by (simp add: avt_ready_def)

lemma superframe_of_burst_length:
  assumes "burst_arrives lib m c ds fs"
  shows "length (superframe_of_burst fs m) = 5 * avt_dab24msFrameSize (co_avt c)"
proof -
  have "length (oqd_buf (the (map_of fs (5 * int m + int j)))) = avt_dab24msFrameSize (co_avt c)" if "j < 5" for j
    using burst_lengths [of fs m] assms that unfolding burst_arrives_def by blast
  from this [of 0] this [of 1] this [of 2] this [of 3] this [of 4] show ?thesis by (simp add: superframe_of_burst_def upt_rec)
qed

lemma burst_parts:
  assumes "burst_arrives lib m c ds fs"
  shows "length (superframe_parts (superframe_of_burst fs m) (5 * avt_dab24msFrameSize (co_avt c))) = 5"
    "\<forall>p \<in> set (superframe_parts (superframe_of_burst fs m) (5 * avt_dab24msFrameSize (co_avt c))). length p = avt_dab24msFrameSize (co_avt c)"
proof -
  let ?sz = "avt_dab24msFrameSize (co_avt c)"
  show "length (superframe_parts (superframe_of_burst fs m) (5 * ?sz)) = 5" by (simp add: superframe_parts_def)
  have "(5 * ?sz) mod 5 = 0" "5 * ?sz \<le> length (superframe_of_burst fs m)" using superframe_of_burst_length [OF assms] by simp_all
  from superframe_parts_concat(2) [OF this]
  show "\<forall>p \<in> set (superframe_parts (superframe_of_burst fs m) (5 * ?sz)). length p = ?sz" by simp
qed

text \<open>A program that has just started or is in step takes the superframe: the input is in phase with it, and the output is in use or opens.\<close>

lemma Sender_init_ok:
  assumes "Sender_init conf envs fds = (Inr s, fds1)" "conf_ok conf"
  shows "sender_ok s" "sn_pending s = []" "pft_pseq (sn_pft s) = 0" "pft_k (sn_pft s) = cf_chunk_len conf"
  using assms by (auto simp: Sender_init_def PFT_init_def sender_ok_def conf_ok_def split: sum.splits prod.splits if_splits)

definition takes :: "'h companion \<Rightarrow> nat \<Rightarrow> (int \<times> OrderedQueueData) list \<Rightarrow> edi_env \<Rightarrow> Sender \<Rightarrow> ClockTAI \<Rightarrow> cache \<Rightarrow> fdtable \<Rightarrow> bool" where
  "takes c m fs ev s clk cache1 fds1 \<longleftrightarrow> program_up c \<and> m < 1000 \<and> avt_phase m (co_avt c) fs \<and> 0 < avt_dab24msFrameSize (co_avt c)
     \<and> edi_open ev (co_edi c) (co_cache c) (co_fds c) = Some (s, clk, cache1, fds1)
     \<and> edi_in_use (edi_opened (co_edi c) s clk) s \<and> fragments_fit c (pft_k (sn_pft s))"

lemma in_step_takes:
  assumes "in_step c s m"
  shows "takes c m fs ev s (eo_clock_tai (co_edi c)) (co_cache c) (co_fds c)"
proof -
  note i = assms [unfolded in_step_def]
  have "0 < avt_dab24msFrameSize (co_avt c)" using i by (simp add: avt_ready_def)
  then show ?thesis using i edi_open_in_use [of "co_edi c" s] by (simp add: takes_def avt_phase_def)
qed

lemma fresh_phase:
  assumes "burst_arrives lib m c ds fs" "avt_fresh (co_avt c)"
  shows "avt_phase m (co_avt c) fs" "0 < avt_dab24msFrameSize (co_avt c)"
proof -
  note a = assms(1) [unfolded burst_arrives_def]
  have "length fs = 5" using a mset_eq_length [of "map fst fs"] by fastforce
  then show "avt_phase m (co_avt c) fs" using assms(2) a by (auto simp: avt_phase_def)
  show "0 < avt_dab24msFrameSize (co_avt c)" using assms(2) by (auto simp: avt_fresh_def avt_ready_def)
qed

lemma started_takes:
  assumes "program_started c" "m < 1000" "superframe_arrives lib m c s ds fs env"
  obtains clk cache1 fds1 where "takes c m fs (hd (we_edi env)) s clk cache1 fds1"
proof -
  let ?e = "co_edi c" and ?ev = "hd (we_edi env)"
  note i = assms(1) [unfolded program_started_def] and a = assms(3) [unfolded superframe_arrives_def burst_arrives_def]
  obtain clk cache1 fds1 where o: "edi_open ?ev ?e (co_cache c) (co_fds c) = Some (s, clk, cache1, fds1)" using a by fastforce
  then have s: "Sender_init (eo_edi_conf ?e) (ee_setup ?ev) (co_fds c) = (Inr s, fds1)"
    and t: "offset_first (ee_time ?ev) (ee_steady ?ev) (ee_tai ?ev) (co_cache c) (eo_clock_tai ?e) = (None, cache1, clk)"
    using i by (auto simp: edi_open_def split: prod.splits sum.splits option.splits)
  have ok: "conf_ok (eo_edi_conf ?e)" using i by blast
  note k = Sender_init_ok [OF s ok]
  have "tai_inv (eo_clock_tai ?e)" using i by blast
  from offset_first_cases(1) [OF this t] have "edi_in_use (edi_opened ?e s clk) s"
    using k(1) ok offset_first_state [OF t] by (simp add: edi_in_use_def conf_ok_def)
  moreover have "burst_arrives lib m c ds fs" "avt_fresh (co_avt c)" using i assms(3) by (auto simp: superframe_arrives_def)
  note fresh_phase [OF this]
  ultimately show thesis using that i o assms(2) k(4) by (simp add: takes_def)
qed

text \<open>Reading: the superframe is in the buffer, and the input and the EDI output are ready for the next one.\<close>

lemma burst_read:
  assumes "program_up c" "avt_phase m (co_avt c) fs" "m < 1000" "0 < avt_dab24msFrameSize (co_avt c)" "burst_arrives lib m c ds fs"
    and "n = 5 * avt_dab24msFrameSize (co_avt c)" "length buf = length (co_outbuf c)"
  obtains avt' e1 where "wait_loop start ((datagrams_arrive ds c)\<lparr>co_outbuf := buf\<rparr>) (r # rs)
      = Some (Inr (n, c\<lparr>co_avt := avt', co_outbuf := superframe_of_burst fs m @ drop n buf, co_edi := e1\<rparr>))"
    "avt_ready (Suc m mod 1000) avt'" "w_frames avt' = []" "avt_dab24msFrameSize avt' = avt_dab24msFrameSize (co_avt c)"
    "0 \<le> avt_frameZeroTimestamp avt'" "edi_same_use (co_edi c) e1"
proof -
  note i = assms(1) [unfolded program_up_def] and a = assms(5) [unfolded burst_arrives_def]
  let ?avt = "(co_avt c)\<lparr>w_frames := w_frames (co_avt c) @ ds\<rparr>"
  have ready: "avt_phase m ?avt fs" using assms(2) by (simp add: avt_phase_def)
  have arr: "list_all2 (\<lambda>(r, ts) (i, d). carries (avt_dab24msFrameSize ?avt) r i (oqd_buf d) \<and> ts = oqd_capture_timestamp d) (w_frames ?avt) fs"
    using i a by simp
  have perm: "mset (map fst fs) = mset (map (\<lambda>j. 5 * int m + int j) [0..<5])" using a by blast
  have room: "5 * avt_dab24msFrameSize ?avt \<le> length buf" "0 < n" using assms(4,6,7) i by (auto simp: outbuf_fits_def)
  obtain avt' ts where g: "getNextFrame ?avt buf = Some (Inr (superframe_of_burst fs m @ drop n buf, Some ts, n, avt'))"
    "avt_ready (Suc m mod 1000) avt'" "w_frames avt' = []" "avt_dab24msFrameSize avt' = avt_dab24msFrameSize (co_avt c)"
    "ts = (if avt_frameAligned ?avt then avt_frameZeroTimestamp ?avt + 5 * 24000000
            else oqd_capture_timestamp (the (map_of fs (5 * int m))) + 4 * 24000000)" "avt_frameZeroTimestamp avt' = ts"
    using burst_gives_superframe [OF ready assms(3) perm arr room(1)] assms(6) by (auto simp: superframe_of_burst_def)
  have "5 * int m \<in> fst ` set fs" using mset_eq_setD [OF perm] by (force simp: upt_rec)
  then obtain d where d: "map_of fs (5 * int m) = Some d" by (metis map_of_eq_None_iff not_None_eq)
  have "0 \<le> oqd_capture_timestamp d" using a map_of_SomeD [OF d] by fastforce
  then have ts: "0 \<le> ts" using g(5) i d by simp
  then obtain e1 where e1: "set_tist (co_edi c) (op_tist_enabled (co_opts c)) (op_tist_delay_ms (co_opts c)) ts = (None, e1)"
    "edi_same_use (co_edi c) e1"
    by (rule set_tist_keeps)
  have "wait_loop start ((datagrams_arrive ds c)\<lparr>co_outbuf := buf\<rparr>) (r # rs)
      = Some (Inr (n, c\<lparr>co_avt := avt', co_outbuf := superframe_of_burst fs m @ drop n buf, co_edi := e1\<rparr>))"
    using g(1) e1(1) i room(2) by (simp add: datagrams_arrive_def)
  then show thesis using that g(2-4,6) ts e1(2) by simp
qed

text \<open>One pass of the main loop, for any EDI output that accepts the five parts: the program goes on and is ready for the next superframe.\<close>

lemma pass_goes_on:
  assumes "program_up c" "avt_phase m (co_avt c) fs" "m < 1000" "0 < avt_dab24msFrameSize (co_avt c)" "burst_arrives lib m c ds fs"
    and parts: "\<And>e. edi_same_use (co_edi c) e \<Longrightarrow> \<exists>e2 cache2. edi_parts e (co_cache c) (co_fds c)
        (zip (we_edi env) (superframe_parts (superframe_of_burst fs m) (5 * avt_dab24msFrameSize (co_avt c)))) = (Inr True, [], e2, cache2, fds1)
      \<and> eo_edi_conf e2 = eo_edi_conf (co_edi c) \<and> eo_odr_version_tag e2 = eo_odr_version_tag (co_edi c) \<and> P e2"
  obtains c' where "main_pass package_name version lib start (r # rs) env (datagrams_arrive ds c) = Some (Inr (Again, [], c'))"
    "program_up c'" "avt_ready (Suc m mod 1000) (co_avt c')" "co_send_error_count c' = co_send_error_count c" "co_fds c' = fds1"
    "avt_dab24msFrameSize (co_avt c') = avt_dab24msFrameSize (co_avt c)" "eo_edi_conf (co_edi c') = eo_edi_conf (co_edi c)"
    "eo_odr_version_tag (co_edi c') = eo_odr_version_tag (co_edi c)" "P (co_edi c')"
proof -
  define n where "n = 5 * avt_dab24msFrameSize (co_avt c)"
  define sf where "sf = superframe_of_burst fs m"
  define buf where "buf = replicate n 0 @ drop n (co_outbuf c)"
  note i = assms(1) [unfolded program_up_def] and a = assms(5) [unfolded burst_arrives_def]
  have n: "nat (cdiv (op_bitrate (co_opts c)) 8 * 120) = n" "n \<le> length (co_outbuf c)" "0 < n" "n mod 5 = 0"
    using i assms(4) by (auto simp: outbuf_fits_def n_def)
  have buf: "length buf = length (co_outbuf c)" "drop n buf = drop n (co_outbuf c)" using n(2) by (simp_all add: buf_def)
  have len: "length sf = n" using superframe_of_burst_length [OF assms(5)] by (simp add: n_def sf_def)
  let ?out = "sf @ drop n (co_outbuf c)"
  obtain avt' e1 where w: "wait_loop start ((datagrams_arrive ds c)\<lparr>co_outbuf := buf\<rparr>) (r # rs)
      = Some (Inr (n, c\<lparr>co_avt := avt', co_outbuf := ?out, co_edi := e1\<rparr>))"
    "avt_ready (Suc m mod 1000) avt'" "w_frames avt' = []" "avt_dab24msFrameSize avt' = avt_dab24msFrameSize (co_avt c)"
    "0 \<le> avt_frameZeroTimestamp avt'" "edi_same_use (co_edi c) e1"
    using burst_read [OF assms(1-5) n_def buf(1), of start r rs] unfolding sf_def buf(2) by metis
  let ?c1 = "c\<lparr>co_avt := avt', co_outbuf := ?out, co_edi := e1\<rparr>"
  obtain pl pr d where lev: "measure_levels lib ?c1 n = (None, pl, pr, ?c1\<lparr>co_decoder := d\<rparr>)"
    by (rule measure_levels_keeps [of n lib ?c1]) (use a in \<open>auto simp: n_def sf_def\<close>)
  let ?e = "update_audio_levels e1 pl pr"
  have same: "edi_same_use (co_edi c) ?e" using w(6) by (simp add: edi_same_use_def update_audio_levels_def)
  have sp: "superframe_parts ?out n = superframe_parts sf n" by (rule superframe_parts_prefix) (simp add: len)
  obtain e2 cache2 where q: "edi_parts ?e (co_cache c) (co_fds c) (zip (we_edi env) (superframe_parts ?out n)) = (Inr True, [], e2, cache2, fds1)"
    "eo_edi_conf e2 = eo_edi_conf (co_edi c)" "eo_odr_version_tag e2 = eo_odr_version_tag (co_edi c)" "P e2"
    using parts [OF same] unfolding sp unfolding sf_def n_def by blast
  let ?c3 = "?c1\<lparr>co_decoder := d, co_stats := map_option (\<lambda>s. stats_update_audio_levels s pl pr) (co_stats c)\<rparr>"
  have en: "EDI_enabled e1" using i w(6) by (simp add: EDI_enabled_def edi_same_use_def)
  have out: "write_outputs env ?c3 pl pr n = Inr (True, [], ?c3\<lparr>co_edi := e2, co_cache := cache2, co_fds := fds1\<rparr>)"
    using q(1) i en n(4) by (simp add: write_outputs_def)
  obtain c' where c': "main_pass package_name version lib start (r # rs) env (datagrams_arrive ds c) = Some (Inr (Again, [], c'))"
    "co_avt c' = avt'" "co_send_error_count c' = co_send_error_count c" "co_edi c' = e2" "co_opts c' = co_opts c" "co_zmq c' = co_zmq c"
    "co_outbuf c' = ?out" "co_fds c' = fds1"
    using w(1) [unfolded buf_def] lev out n i by (simp add: main_pass_def Let_def datagrams_arrive_def del: wait_loop.simps)
  have "program_up c'"
    using i w(3-5) q(2) n(1,2) len by (simp add: program_up_def c' outbuf_fits_def n_def EDI_enabled_def)
  then show thesis using that [OF c'(1) _ _ c'(3,8)] w(2,4) q(2-4) c'(2,4) by simp
qed

text \<open>With fragments: these of the five parts are queued.\<close>

lemma burst_pass:
  assumes "takes c m fs (hd (we_edi env)) s clk cache1 fds1" "superframe_arrives lib m c s ds fs env"
  obtains c' s1 frs where "main_pass package_name version lib start (r # rs) env (datagrams_arrive ds c) = Some (Inr (Again, [], c'))"
    "in_step c' s1 (Suc m mod 1000)" "co_send_error_count c' = co_send_error_count c" "co_fds c' = fds1" "sn_sockets s1 = sn_sockets s"
    "avt_dab24msFrameSize (co_avt c') = avt_dab24msFrameSize (co_avt c)" "length frs = 5"
    "snd ` set (sn_pending s1) = snd ` set (sn_pending s) \<union> \<Union> (set ` set frs)" "pft_pseq (sn_pft s1) = pft_pseq (sn_pft s) + 5"
    "\<forall>i < 5. frame_fragments (frs ! i) (pft_pseq (sn_pft s) + of_nat i)
       (superframe_parts (superframe_of_burst fs m) (5 * avt_dab24msFrameSize (co_avt c)) ! i)"
proof -
  note t = assms(1) [unfolded takes_def] and a = assms(2) [unfolded superframe_arrives_def]
  have up: "program_up c" "avt_phase m (co_avt c) fs" "m < 1000" "0 < avt_dab24msFrameSize (co_avt c)" "burst_arrives lib m c ds fs"
    using t a by blast+
  let ?parts = "superframe_parts (superframe_of_burst fs m) (5 * avt_dab24msFrameSize (co_avt c))"
  let ?P = "\<lambda>e2. \<exists>s1 frs. edi_in_use e2 s1 \<and> sn_sockets s1 = sn_sockets s \<and> length frs = 5
    \<and> snd ` set (sn_pending s1) = snd ` set (sn_pending s) \<union> \<Union> (set ` set frs) \<and> pft_pseq (sn_pft s1) = pft_pseq (sn_pft s) + 5
    \<and> pft_k (sn_pft s1) = pft_k (sn_pft s) \<and> (\<forall>i < 5. frame_fragments (frs ! i) (pft_pseq (sn_pft s) + of_nat i) (?parts ! i))"
  note parts = burst_parts [OF up(5)]
  have envs: "distinct (map (\<lambda>env. ee_steady env mod 1000) (we_edi env))" "length (we_edi env) = length ?parts"
      "\<forall>x \<in> set (sn_pending s). \<forall>env \<in> set (we_edi env). fst x mod 1000 \<noteq> ee_steady env mod 1000"
    using a parts(1) by simp_all
  have wr: "\<exists>e2 cache2. edi_parts e (co_cache c) (co_fds c) (zip (we_edi env) ?parts) = (Inr True, [], e2, cache2, fds1)
      \<and> eo_edi_conf e2 = eo_edi_conf (co_edi c) \<and> eo_odr_version_tag e2 = eo_odr_version_tag (co_edi c) \<and> ?P e2"
    if same: "edi_same_use (co_edi c) e" for e
  proof -
    let ?eo = "edi_opened e s clk"
    note same = same [unfolded edi_same_use_def]
    have op: "edi_open (hd (we_edi env)) e (co_cache c) (co_fds c) = Some (s, clk, cache1, fds1)"
      using edi_open_cong [of e "co_edi c"] same t by simp
    have u: "edi_in_use ?eo s" using t same by (simp add: edi_in_use_def)
    have fit: "\<forall>buf \<in> set ?parts. CEIL_DIV (length buf + length (eo_odr_version_tag ?eo) + 83) (unat (pft_k (sn_pft s))) \<le> 256"
      using t parts(2) same by (simp add: fragments_fit_def)
    obtain ev evs p ps where z: "we_edi env = ev # evs" "?parts = p # ps" using envs(2) parts(1) by (cases "we_edi env"; cases ?parts) auto
    show ?thesis
      using edi_parts_queue [OF u envs fit, of cache1 fds1] edi_open_parts [OF op [unfolded z(1) list.sel]] same parts(1)
      unfolding z by auto
  qed
  obtain c' where c': "main_pass package_name version lib start (r # rs) env (datagrams_arrive ds c) = Some (Inr (Again, [], c'))"
    "program_up c'" "avt_ready (Suc m mod 1000) (co_avt c')" "co_send_error_count c' = co_send_error_count c" "co_fds c' = fds1"
    "avt_dab24msFrameSize (co_avt c') = avt_dab24msFrameSize (co_avt c)" "eo_odr_version_tag (co_edi c') = eo_odr_version_tag (co_edi c)"
    "?P (co_edi c')"
    by (rule pass_goes_on [OF up wr, of package_name version start r rs])
  then obtain s1 frs where s1: "edi_in_use (co_edi c') s1" "sn_sockets s1 = sn_sockets s" "length frs = 5"
    "snd ` set (sn_pending s1) = snd ` set (sn_pending s) \<union> \<Union> (set ` set frs)" "pft_pseq (sn_pft s1) = pft_pseq (sn_pft s) + 5"
    "pft_k (sn_pft s1) = pft_k (sn_pft s)" "\<forall>i < 5. frame_fragments (frs ! i) (pft_pseq (sn_pft s) + of_nat i) (?parts ! i)"
    by blast
  have "in_step c' s1 (Suc m mod 1000)"
    using c'(2,3,6,7) s1(1,6) t by (simp add: in_step_def fragments_fit_def)
  then show thesis using that [OF c'(1) _ c'(4,5) s1(2) c'(6) s1(3-5,7)] by simp
qed

lemma avt_fresh_not_ready: "avt_fresh a \<Longrightarrow> \<not> avt_ready m a"
proof
  assume "avt_fresh a" "avt_ready m a"
  then have "(5 * int m - 1) mod MAX_QUEUE_SIZE = -1" by (simp add: avt_fresh_def avt_ready_def)
  moreover have "0 \<le> (5 * int m - 1) mod MAX_QUEUE_SIZE" by (simp add: MAX_QUEUE_SIZE_def)
  ultimately show False by simp
qed


text \<open>A program in use, for examples: superframes of 120 bytes, one EDI destination.\<close>

definition example_burst :: "nat \<Rightarrow> int \<times> OrderedQueueData" where
  "example_burst j = (int j, \<lparr>oqd_buf = replicate 24 (of_nat j), oqd_capture_timestamp = int j\<rparr>)"

definition example_companion :: "bool companion" where
  "example_companion =
     \<lparr>co_opts = options_default\<lparr>op_bitrate := 8, op_edi_output_uris := [''udp://receiver:12000'']\<rparr>,
      co_avt = (AVTInput_init [] [] 0 40)
       \<lparr>avt_dab24msFrameSize := 24, avt_currentFrame := replicate 120 0,
        avt_ordered := (OrderedQueue_init 5000 40)\<lparr>oq_lastIndexPop := 4999\<rparr>,
        w_frames := map (\<lambda>j. (RecvData (sti_packet 0 STI_FSync0 (replicate 9 0) j 1 0 0
          (replicate 4 0) (replicate 24 (of_nat j)) []) 0, int j)) [0, 3, 1, 4, 2]\<rparr>,
      co_pad = PadInterface_init,
      co_decoder = \<lparr>ad_set_up = False, ad_channels = 0, ad_peak_left = 0, ad_peak_right = 0, ad_handle = False, ad_output_frame = []\<rparr>,
      co_stats = None, co_zmq = None,
      co_edi = example_edi\<lparr>eo_edi_conf := configuration_default\<lparr>cf_destinations :=
         [UdpDestination \<lparr>ud_dest_addr = [], ud_dest_port = 0, ud_source_addr = [], ud_source_port = 0, ud_ttl = 10\<rparr>]\<rparr>\<rparr>,
      co_outbuf = replicate (24 * 120) 0, co_send_error_count = 0, co_cache = None, co_fds = {3}\<rparr>"

lemma example_burst_arrives:
  "list_all2 (\<lambda>(r, ts) (i, d). carries 24 r i (oqd_buf d) \<and> ts = oqd_capture_timestamp d)
     (w_frames (co_avt example_companion)) (map example_burst [0, 3, 1, 4, 2])"
proof -
  have "carries 24 (RecvData (sti_packet 0 STI_FSync0 (replicate 9 0) j 1 0 0 (replicate 4 0) (replicate 24 (of_nat j)) []) 0)
      (int j) (replicate 24 (of_nat j))" if "j < 5" for j
    using carries_packet [of "[]" STI_FSync0 "replicate 9 0" j 1 0 "replicate 24 (of_nat j)" "replicate 4 0" "[]" 0 0] that
    by (simp add: sti_wf_def MAX_AVT_FRAME_SIZE_def)
  from this [of 0] this [of 1] this [of 2] this [of 3] this [of 4]
  show ?thesis by (simp add: example_companion_def example_burst_def)
qed

lemma example_avt:
  "avt_dab24msFrameSize (co_avt example_companion) = 24" "avt_ready 0 (co_avt example_companion)"
  "mset (map fst (map example_burst [0, 3, 1, 4, 2])) = mset (map (\<lambda>j. 5 * int 0 + int j) [0..<5])"
  by (simp_all add: example_companion_def avt_ready_def AVTInput_init_def OrderedQueue_init_def oq_inv_def MAX_QUEUE_SIZE_def
      example_burst_def upt_rec)

lemma example_superframe: "superframe_of_burst (map example_burst [0, 3, 1, 4, 2]) 0 = concat (map (\<lambda>j. replicate 24 (of_nat j)) [0..<5])"
  by (simp add: superframe_of_burst_def example_burst_def upt_rec)

lemma example_decode: "fst (decode_frame lib d (superframe_of_burst (map example_burst [0, 3, 1, 4, 2]) 0 @ rest) 110) = Some RuntimeError"
proof -
  define s where "s = (concat (map (\<lambda>j. replicate 24 (of_nat j)) [0..<5]) :: bytes) @ rest"
  have s: "120 \<le> length s" "s ! 2 = 0" "s ! 3 = 0" "s ! 4 = 0" by (simp_all add: s_def upt_rec nth_append)
  have h: "num_aus (aac_header_of s) = 4" unfolding aac_header_of_def s by (simp add: num_aus_def)
  have f: "au_field_high s 3 = 0" unfolding au_field_high_def by (simp add: s(3,4))
  have a: "\<exists>a. au_starts (aac_header_of s) s 110 = Inr a \<and> length a = 6 \<and> a ! 0 = 8 \<and> a ! 1 = 0"
    unfolding au_starts_def Let_def h f unfolding aac_header_of_def s(2) by simp
  then obtain a where a: "au_starts (aac_header_of s) s 110 = Inr a" "\<not> au_ordered a 4"
    by (auto simp: au_ordered_def upt_rec)
  show ?thesis
    using a s(1) unfolding example_superframe s_def [symmetric] decode_frame_def Let_def h by (simp add: au_header_size_def)
qed

lemma example_in_step: "in_step (example_companion\<lparr>co_avt := (co_avt example_companion)\<lparr>w_frames := []\<rparr>\<rparr>) example_sender 0"
proof -
  let ?c = "example_companion\<lparr>co_avt := (co_avt example_companion)\<lparr>w_frames := []\<rparr>\<rparr>"
  have "avt_ready 0 (co_avt ?c)" using example_avt(2) by (simp add: avt_ready_def)
  moreover have "outbuf_fits ?c" "0 \<le> avt_frameZeroTimestamp (co_avt ?c)"
    by (simp_all add: outbuf_fits_def example_avt(1)) (simp_all add: example_companion_def options_default_def cdiv_def AVTInput_init_def)
  moreover have "edi_in_use (co_edi ?c) example_sender" "EDI_enabled (co_edi ?c)"
    using example_edi_in_use by (simp_all add: edi_in_use_def example_companion_def configuration_default_def EDI_enabled_def)
  moreover have "CEIL_DIV (24 + length (eo_odr_version_tag (co_edi ?c)) + 83) (unat (pft_k (sn_pft example_sender))) \<le> 256"
    by (simp add: example_companion_def example_edi_def EDI_init_def example_sender_def CEIL_DIV_def)
  moreover have "op_padlen (co_opts ?c) = 0" "op_edi_output_uris (co_opts ?c) \<noteq> []" "co_zmq ?c = None" "co_send_error_count ?c \<le> 10"
    by (simp_all add: example_companion_def options_default_def)
  moreover have "w_frames (co_avt ?c) = []" by simp
  ultimately show ?thesis by (simp add: in_step_def program_up_def fragments_fit_def example_avt(1))
qed

lemma example_arrives:
  "superframe_arrives lib 0 (example_companion\<lparr>co_avt := (co_avt example_companion)\<lparr>w_frames := []\<rparr>\<rparr>) example_sender
     (w_frames (co_avt example_companion)) (map example_burst [0, 3, 1, 4, 2])
     \<lparr>we_zmq = ZmqThrows, we_edi = map example_env [0, 1, 2, 3, 4], we_stats = SentBytes 0\<rparr>"
proof -
  define fs where "fs = map example_burst [0, 3, 1, 4, 2]"
  define es where "es = map example_env [0, 1, 2, 3, 4]"
  have "\<forall>x \<in> set fs. 0 \<le> oqd_capture_timestamp (snd x)" by (simp add: fs_def example_burst_def)
  moreover have "distinct (map (\<lambda>env. ee_steady env mod 1000) es)" "length es = 5" by (simp_all add: es_def example_env_def)
  moreover have "\<not> avt_fresh (co_avt example_companion)" using example_avt(2) avt_fresh_not_ready by blast
  moreover have "edi_in_use (co_edi example_companion) example_sender" using example_in_step by (simp add: in_step_def)
  ultimately show ?thesis
    using example_avt(3) example_burst_arrives example_decode [of lib "co_decoder example_companion"] example_edi_in_use(2)
      edi_open_in_use(1) [of "co_edi example_companion" example_sender]
    unfolding superframe_arrives_def burst_arrives_def fs_def [symmetric] es_def [symmetric] by (simp add: example_avt(1))
qed



subsection \<open>The end of the program\<close>

lemma wait_loop_count:
  "wait_loop start c rs = Some (Inr (n, c')) \<Longrightarrow> co_send_error_count c' = co_send_error_count c"
proof (induction start c rs rule: wait_loop.induct)
  case (2 start c r rs)
  then show ?case by (auto simp: Let_def split: sum.splits option.splits prod.splits if_splits)
qed simp

lemma measure_levels_count: "measure_levels lib c n = (x, pl, pr, c') \<Longrightarrow> co_send_error_count c' = co_send_error_count c"
  by (auto simp: measure_levels_def split: if_splits prod.splits option.splits)

lemma write_outputs_count:
  assumes "write_outputs env c pl pr n = Inr (ok, out, c')"
  shows "co_send_error_count c' = co_send_error_count c"
proof -
  obtain success c1 where c1: "(case co_zmq c of
              None \<Rightarrow> Inr (True, c)
            | Some z \<Rightarrow>
                (case ZMQ_write_frame (update_audio_levels z pl pr) (we_zmq env) (take n (co_outbuf c)) of
                   Inl x \<Rightarrow> Inl x
                 | Inr (ok, z1) \<Rightarrow> Inr (ok, c\<lparr>co_zmq := Some z1\<rparr>))) = Inr (success, c1)" 
    using assms unfolding write_outputs_def by (auto split: sum.splits)
  then have "co_send_error_count c1 = co_send_error_count c" by (auto split: option.splits sum.splits)
  moreover have "co_send_error_count c' = co_send_error_count c1"
    using assms unfolding write_outputs_def c1 by (auto simp: Let_def split: sum.splits prod.splits if_splits)
  ultimately show ?thesis by simp
qed

lemma main_pass_count:
  assumes "main_pass package_name version lib start rs env c = Some (Inr (r, out, c'))"
  shows "co_send_error_count c' \<le> co_send_error_count c + 1"
    and "r = Stop status \<Longrightarrow> status = 0 \<or> status = 4 \<and> 10 < co_send_error_count c'"
proof -
  show "co_send_error_count c' \<le> co_send_error_count c + 1"
    using assms unfolding main_pass_def
    by (auto simp: Let_def split: option.splits sum.splits prod.splits if_splits
        dest!: wait_loop_count measure_levels_count write_outputs_count)
  show "status = 0 \<or> status = 4 \<and> 10 < co_send_error_count c'" if "r = Stop status"
    using assms that unfolding main_pass_def
    by (auto simp: Let_def split: option.splits sum.splits prod.splits if_splits)
qed



end
