(* ===== verification/ProgramStream.thy ===== *)
theory ProgramStream
  imports Program
begin

text \<open>
  The program from its start: the state that the setup in \<^verbatim>\<open>main\<close> leaves, the main loop and the sender thread interleaved in any way,
  and what a UDP destination recovers from the datagrams it has got.
\<close>

subsection \<open>A stream of superframes\<close>

text \<open>
  The main loop and the sender thread, interleaved in any way, with the superframes that have arrived and the datagrams that the
  destination \<open>a\<close> has got so far. A step is one pass of the main loop for a superframe that has arrived, or one pass of the sender
  thread at some time. The first superframe has the number \<open>m0\<close>.
\<close>

record 'h stream_state =
  st_c :: "'h companion"
  st_in :: "bytes list"
  st_got :: "bytes list"

inductive stream_step ::
  "'h fdk \<Rightarrow> nat \<Rightarrow> InetAddress list \<Rightarrow> InetAddress \<Rightarrow> 'h stream_state \<Rightarrow> 'h stream_state \<Rightarrow> bool"
  for lib :: "'h fdk" and m0 addrs a where
  main: "m = (m0 + length (st_in x)) mod 1000 \<Longrightarrow> superframe_arrives lib m (st_c x) s ds fs env \<Longrightarrow>
    main_pass package_name version lib start (r # rs) env (datagrams_arrive ds (st_c x)) = Some (Inr (result, out, c')) \<Longrightarrow>
    stream_step lib m0 addrs a x (x\<lparr>st_c := c', st_in := st_in x @ [superframe_of_burst fs m],
      st_got := st_got x @ map snd (filter (\<lambda>d. fst d = a) out)\<rparr>)"
| sender: "eo_edi_sender (co_edi (st_c x)) = Some s \<Longrightarrow> length (sn_pending s) \<le> length envss \<Longrightarrow>
    \<forall>es \<in> set envss. udp_env_ok (sn_sockets s) addrs es \<Longrightarrow> run_pass s now envss (co_fds (st_c x)) = (e, out, s', fds') \<Longrightarrow>
    stream_step lib m0 addrs a x (x\<lparr>st_c := (st_c x)\<lparr>co_edi := (co_edi (st_c x))\<lparr>eo_edi_sender := Some s'\<rparr>, co_fds := fds'\<rparr>,
      st_got := st_got x @ map snd (filter (\<lambda>d. fst d = a) out)\<rparr>)"

definition stream_start :: "'h companion \<Rightarrow> 'h stream_state" where
  "stream_start c = \<lparr>st_c = c, st_in = [], st_got = []\<rparr>"

text \<open>The five parts of each superframe, of \<open>sz\<close> bytes each.\<close>

definition stream_parts :: "nat \<Rightarrow> bytes list \<Rightarrow> bytes list" where
  "stream_parts sz fs = concat (map (\<lambda>f. superframe_parts f (5 * sz)) fs)"

lemma stream_parts_length: "length (stream_parts sz fs) = 5 * length fs"
  by (induction fs) (simp_all add: stream_parts_def superframe_parts_def)

lemma stream_parts_concat: "\<forall>f \<in> set fs. length f = 5 * sz \<Longrightarrow> concat (stream_parts sz fs) = concat fs"
  by (induction fs) (simp_all add: stream_parts_def superframe_parts_concat(1))

text \<open>What has been sent and what is still pending are together the fragments of all parts so far.\<close>

definition stream_accounts :: "nat \<Rightarrow> 'h stream_state \<Rightarrow> Sender \<Rightarrow> bytes list list \<Rightarrow> bool" where
  "stream_accounts sz x s frs \<longleftrightarrow> avt_dab24msFrameSize (co_avt (st_c x)) = sz \<and> (\<forall>f \<in> set (st_in x). length f = 5 * sz)
     \<and> pft_pseq (sn_pft s) = of_nat (5 * length (st_in x)) \<and> length frs = 5 * length (st_in x)
     \<and> set (st_got x) \<union> snd ` set (sn_pending s) = \<Union> (set ` set frs)
     \<and> (\<forall>i < 5 * length (st_in x). frame_fragments (frs ! i) (of_nat i) (stream_parts sz (st_in x) ! i))"

text \<open>The invariant: the program has just started and nothing has arrived, or it is in step and the accounts are right.\<close>

definition stream_inv :: "nat \<Rightarrow> nat \<Rightarrow> 'h stream_state \<Rightarrow> bool" where
  "stream_inv m0 sz x \<longleftrightarrow>
     program_started (st_c x) \<and> st_in x = [] \<and> st_got x = [] \<and> avt_dab24msFrameSize (co_avt (st_c x)) = sz
     \<or> (\<exists>s frs. in_step (st_c x) s ((m0 + length (st_in x)) mod 1000) \<and> stream_accounts sz x s frs)"

lemma in_step_sender: "in_step c s m \<Longrightarrow> eo_edi_sender (co_edi c) = Some s"
  by (simp add: in_step_def edi_in_use_def)

lemma started_accounts:
  assumes "takes c m fs ev s clk cache1 fds1" "program_started c"
  shows "stream_accounts (avt_dab24msFrameSize (co_avt c)) (stream_start c) s []"
proof -
  have "\<exists>envs fds. Sender_init (eo_edi_conf (co_edi c)) envs fds = (Inr s, fds1)"
    using assms by (auto simp: takes_def program_started_def edi_open_def split: prod.splits sum.splits option.splits)
  moreover have "conf_ok (eo_edi_conf (co_edi c))" using assms(2) by (simp add: program_started_def)
  ultimately show ?thesis using Sender_init_ok by (fastforce simp: stream_accounts_def stream_start_def)
qed

lemma stream_takes:
  assumes "stream_inv m0 sz x" "superframe_arrives lib m (st_c x) s ds fs env" "m = (m0 + length (st_in x)) mod 1000"
  obtains frs clk cache1 fds1 where "takes (st_c x) m fs (hd (we_edi env)) s clk cache1 fds1" "stream_accounts sz x s frs"
proof (cases "program_started (st_c x) \<and> st_in x = [] \<and> st_got x = [] \<and> avt_dab24msFrameSize (co_avt (st_c x)) = sz")
  case True
  then have p: "program_started (st_c x)" "m < 1000" "x = stream_start (st_c x)" using assms(3) by (simp_all add: stream_start_def)
  obtain clk cache1 fds1 where t: "takes (st_c x) m fs (hd (we_edi env)) s clk cache1 fds1"
    by (rule started_takes [OF p(1,2) assms(2)])
  then show thesis using that started_accounts [OF t p(1)] True p(3) by metis
next
  case False
  then obtain t frs where i: "in_step (st_c x) t m" "stream_accounts sz x t frs" using assms(1,3) by (auto simp: stream_inv_def)
  have "t = s" using assms(2) edi_open_in_use(1) [of "co_edi (st_c x)" t] i(1) by (auto simp: superframe_arrives_def in_step_def)
  then show thesis using that in_step_takes [OF i(1)] i(2) by blast
qed

lemma stream_inv_main:
  assumes "stream_inv m0 sz x" "superframe_arrives lib m (st_c x) s ds fs env" "m = (m0 + length (st_in x)) mod 1000"
    and "main_pass package_name version lib start (r # rs) env (datagrams_arrive ds (st_c x)) = Some (Inr (result, out, c'))"
  shows "stream_inv m0 sz (x\<lparr>st_c := c', st_in := st_in x @ [superframe_of_burst fs m],
      st_got := st_got x @ map snd (filter (\<lambda>d. fst d = a) out)\<rparr>)"
proof -
  obtain frs clk cache1 fds1 where tk: "takes (st_c x) m fs (hd (we_edi env)) s clk cache1 fds1" "stream_accounts sz x s frs"
    by (rule stream_takes [OF assms(1-3)])
  note i = tk(2) [unfolded stream_accounts_def]
  define sf where "sf = superframe_of_burst fs m"
  define n where "n = 5 * length (st_in x)"
  obtain c1 s1 frs1 where p: "main_pass package_name version lib start (r # rs) env (datagrams_arrive ds (st_c x)) = Some (Inr (Again, [], c1))"
    "in_step c1 s1 (Suc m mod 1000)" "avt_dab24msFrameSize (co_avt c1) = avt_dab24msFrameSize (co_avt (st_c x))" "length frs1 = 5"
    "snd ` set (sn_pending s1) = snd ` set (sn_pending s) \<union> \<Union> (set ` set frs1)" "pft_pseq (sn_pft s1) = pft_pseq (sn_pft s) + 5"
    "\<forall>i < 5. frame_fragments (frs1 ! i) (pft_pseq (sn_pft s) + of_nat i)
       (superframe_parts (superframe_of_burst fs m) (5 * avt_dab24msFrameSize (co_avt (st_c x))) ! i)"
    by (rule burst_pass [OF tk(1) assms(2), of package_name version start r rs])
  have r: "out = []" "c' = c1" using assms(4) p(1) by auto
  have len: "length sf = 5 * sz" using superframe_of_burst_length [of lib m "st_c x" ds fs] assms(2) [unfolded superframe_arrives_def] i by (simp add: sf_def)
  have parts: "stream_parts sz (st_in x @ [sf]) = stream_parts sz (st_in x) @ superframe_parts sf (5 * sz)" by (simp add: stream_parts_def)
  have fr: "frame_fragments ((frs @ frs1) ! k) (of_nat k) (stream_parts sz (st_in x @ [sf]) ! k)" if "k < n + 5" for k
  proof (cases "k < n")
    case True
    then show ?thesis using i by (simp add: parts nth_append stream_parts_length n_def)
  next
    case False
    then obtain j where j: "k = n + j" "j < 5" using \<open>k < n + 5\<close> by (metis add_less_cancel_left le_Suc_ex not_less)
    then show ?thesis using i p(7) [folded sf_def] by (simp add: parts nth_append stream_parts_length n_def add.assoc)
  qed
  let ?y = "x\<lparr>st_c := c1, st_in := st_in x @ [sf], st_got := st_got x @ []\<rparr>"
  have "stream_accounts sz ?y s1 (frs @ frs1)"
    using i p(3-6) len fr unfolding stream_accounts_def by (auto simp: n_def add.assoc)
  moreover have "(m0 + (length (st_in x) + 1)) mod 1000 = Suc m mod 1000" by (simp add: assms(3) mod_Suc_eq)
  ultimately have "stream_inv m0 sz ?y" using p(2) unfolding stream_inv_def by auto
  then show ?thesis using r unfolding sf_def by simp
qed

lemma stream_inv_sender:
  assumes "stream_inv m0 sz x" "eo_edi_sender (co_edi (st_c x)) = Some s" "length (sn_pending s) \<le> length envss"
    and "\<forall>es \<in> set envss. udp_env_ok (sn_sockets s) addrs es"
    and "run_pass s now envss (co_fds (st_c x)) = (e, out, s', fds')" "distinct addrs" "a \<in> set addrs"
  shows "stream_inv m0 sz (x\<lparr>st_c := (st_c x)\<lparr>co_edi := (co_edi (st_c x))\<lparr>eo_edi_sender := Some s'\<rparr>, co_fds := fds'\<rparr>,
      st_got := st_got x @ map snd (filter (\<lambda>d. fst d = a) out)\<rparr>)"
proof -
  have "\<not> program_started (st_c x)" using assms(2) by (simp add: program_started_def)
  then obtain t frs where u: "in_step (st_c x) t ((m0 + length (st_in x)) mod 1000)" "stream_accounts sz x t frs"
    using assms(1) by (auto simp: stream_inv_def)
  have t: "t = s" using in_step_sender [OF u(1)] assms(2) by simp
  note u = u [unfolded t] and i = u(2) [unfolded t stream_accounts_def]
  have run: "sn_running s" using u(1) by (simp add: in_step_def edi_in_use_def sender_ok_def)
  have o: "map snd (filter (\<lambda>d. fst d = a) out) = map snd (filter (\<lambda>x. fst x \<le> now) (sn_pending s))"
    "sn_pending s' = filter (\<lambda>x. now < fst x) (sn_pending s)"
    using run_pass_due [OF run assms(3,4,7,6), of now "co_fds (st_c x)"] assms(5) by auto
  note k = run_pass_keeps [OF assms(5)]
  let ?c = "(st_c x)\<lparr>co_edi := (co_edi (st_c x))\<lparr>eo_edi_sender := Some s'\<rparr>, co_fds := fds'\<rparr>"
  have "in_step ?c s' ((m0 + length (st_in x)) mod 1000)"
    using u(1) k
    by (simp add: in_step_def program_up_def fragments_fit_def edi_in_use_def sender_ok_def EDI_enabled_def outbuf_fits_def)
  moreover have "snd ` set (filter (\<lambda>x. fst x \<le> now) (sn_pending s)) \<union> snd ` set (filter (\<lambda>x. now < fst x) (sn_pending s))
      = snd ` set (sn_pending s)" by (auto simp: image_iff) (metis linorder_not_le snd_conv fst_conv)
  then have "stream_accounts sz (x\<lparr>st_c := ?c, st_got := st_got x @ map snd (filter (\<lambda>d. fst d = a) out)\<rparr>) s' frs"
    using i k(3) o unfolding stream_accounts_def by (simp add: Un_assoc)
  ultimately show ?thesis unfolding stream_inv_def by auto
qed

lemma stream_inv_step:
  assumes "stream_step lib m0 addrs a x y" "stream_inv m0 sz x" "distinct addrs" "a \<in> set addrs"
  shows "stream_inv m0 sz y"
  using assms(1)
proof cases
  case (main m s ds fs env package_name version start r rs result out c')
  show ?thesis unfolding main(1) by (rule stream_inv_main [OF assms(2) main(3,2,4)])
next
  case (sender s envss now e out s' fds')
  show ?thesis unfolding sender(1) by (rule stream_inv_sender [OF assms(2) sender(2-5) assms(3,4)])
qed

lemma stream_inv_reach:
  assumes "(stream_step lib m0 addrs a)\<^sup>*\<^sup>* x y" "stream_inv m0 sz x" "distinct addrs" "a \<in> set addrs"
  shows "stream_inv m0 sz y"
  using assms(1)
proof (induction rule: rtranclp_induct)
  case base
  then show ?case by (rule assms(2))
next
  case (step y z)
  show ?case by (rule stream_inv_step [OF step.hyps(2) step.IH assms(3,4)])
qed

lemma stream_inv_received:
  assumes "stream_inv m0 sz x" "eo_edi_sender (co_edi (st_c x)) = Some s" "sn_pending s = []" "5 * length (st_in x) \<le> 65536"
  shows "concat (map (\<lambda>i. the (edi_received (st_got x) (of_nat i))) [0..<5 * length (st_in x)]) = concat (st_in x)"
proof -
  have "\<not> program_started (st_c x)" using assms(2) by (simp add: program_started_def)
  then obtain t frs where u: "in_step (st_c x) t ((m0 + length (st_in x)) mod 1000)" "stream_accounts sz x t frs"
    using assms(1) by (auto simp: stream_inv_def)
  have t: "t = s" using in_step_sender [OF u(1)] assms(2) by simp
  note i = u(2) [unfolded t stream_accounts_def]
  let ?n = "5 * length (st_in x)" and ?parts = "stream_parts sz (st_in x)"
  have ds: "set (st_got x) = \<Union> (set ` set frs)" using i assms(3) by simp
  have "edi_received (st_got x) (of_nat k) = Some (?parts ! k)" if "k < ?n" for k
    using fragments_received [OF ds, of ?parts k 0] i that assms(4) by (simp add: stream_parts_length)
  then have "map (\<lambda>k. the (edi_received (st_got x) (of_nat k))) [0..<?n] = map (\<lambda>k. ?parts ! k) [0..<?n]" by simp
  also have "\<dots> = ?parts" using stream_parts_length [of sz "st_in x"] by (metis map_nth)
  finally show ?thesis using stream_parts_concat i by metis
qed

lemma add_edi_uri_keeps:
  assumes "add_edi_uri e uri = Inr e'"
  shows "eo_edi_sender e' = eo_edi_sender e" "eo_clock_tai e' = eo_clock_tai e" "cf_chunk_len (eo_edi_conf e') = cf_chunk_len (eo_edi_conf e)"
    "cf_fec (eo_edi_conf e') = cf_fec (eo_edi_conf e)" "cf_tagpacket_alignment (eo_edi_conf e') = cf_tagpacket_alignment (eo_edi_conf e)"
    "cf_fragment_spreading_factor (eo_edi_conf e') = cf_fragment_spreading_factor (eo_edi_conf e)"
  using assms by (auto simp: add_edi_uri_def add_tcp_destination_def add_udp_destination_def Let_def split: if_splits option.splits sum.splits)

lemma add_edi_uris_keeps:
  assumes "add_edi_uris e uris = Inr e'"
  shows "eo_edi_sender e' = eo_edi_sender e \<and> eo_clock_tai e' = eo_clock_tai e \<and> cf_chunk_len (eo_edi_conf e') = cf_chunk_len (eo_edi_conf e)
    \<and> cf_fec (eo_edi_conf e') = cf_fec (eo_edi_conf e) \<and> cf_tagpacket_alignment (eo_edi_conf e') = cf_tagpacket_alignment (eo_edi_conf e)
    \<and> cf_fragment_spreading_factor (eo_edi_conf e') = cf_fragment_spreading_factor (eo_edi_conf e)"
  using assms
proof (induction uris arbitrary: e)
  case (Cons uri uris)
  then obtain e1 where e1: "add_edi_uri e uri = Inr e1" "add_edi_uris e1 uris = Inr e'" by (auto split: sum.splits)
  show ?case using Cons.IH [OF e1(2)] add_edi_uri_keeps [OF e1(1)] by simp
qed simp

lemma prepare_keeps:
  assumes "prepare env a = Inr (r, b)" "w_pad a = []"
  shows "avt_jitterBufferSize b = avt_jitterBufferSize a \<and> avt_nbFrames b = avt_nbFrames a \<and> avt_currentFrameSize b = avt_currentFrameSize a
    \<and> avt_frameZeroTimestamp b = avt_frameZeroTimestamp a \<and> w_frames b = w_frames a \<and> w_pad b = []"
  using assms
  by (auto simp: prepare_def purgeMessages_def openSocketCli_def Let_def split: sum.splits prod.splits if_splits option.splits)

lemma sendCtrlMessage_keeps:
  assumes "sendCtrlMessage a = Inr b"
  shows "avt_ordered b = avt_ordered a \<and> avt_nbFrames b = avt_nbFrames a \<and> avt_currentFrameSize b = avt_currentFrameSize a
    \<and> avt_currentFrame b = avt_currentFrame a \<and> avt_dab24msFrameSize b = avt_dab24msFrameSize a
    \<and> avt_frameZeroTimestamp b = avt_frameZeroTimestamp a \<and> w_frames b = w_frames a \<and> w_pad b = w_pad a"
  using assms by (auto simp: sendCtrlMessage_def Let_def split: sum.splits prod.splits if_splits)

lemma setDabPlusParameters_fresh:
  assumes "setDabPlusParameters a bitrate channels sample_rate sbr ps = Inr (0, b)"
    and "avt_nbFrames a = 0" "avt_currentFrameSize a = 0" "w_pad a = []" "5 \<le> avt_jitterBufferSize a"
  shows "avt_fresh b" "avt_dab24msFrameSize b = nat (bitrate * 3)" "w_frames b = w_frames a"
    "avt_frameZeroTimestamp b = avt_frameZeroTimestamp a"
proof -
  note c = setDabPlusParameters_accepts [OF assms(1)]
  define d where "d = cdiv bitrate 8"
  have d: "bitrate = 8 * d" "1 \<le> d" "d \<le> 24" using c(1-3) by (simp_all add: d_def)
  have sz: "to_size_t (bitrate * 3) = nat (bitrate * 3)" using d by (simp add: to_size_t_def)
  have l: "nat (d * 8 * 5 * 3) = 5 * nat (bitrate * 3)" using d by simp
  obtain a3 where s: "sendCtrlMessage a3 = Inr b" "avt_ordered a3 = OrderedQueue_init MAX_QUEUE_SIZE (avt_jitterBufferSize a)"
    "avt_dab24msFrameSize a3 = nat (bitrate * 3)" "avt_currentFrame a3 = replicate (5 * nat (bitrate * 3)) 0"
    "avt_nbFrames a3 = 0" "avt_currentFrameSize a3 = 0" "w_pad a3 = []" "w_frames a3 = w_frames a"
    "avt_frameZeroTimestamp a3 = avt_frameZeroTimestamp a"
    using assms unfolding setDabPlusParameters_def Let_def sz l [unfolded d_def, symmetric]
    by (auto split: if_splits sum.splits)
  note k = sendCtrlMessage_keeps [OF s(1)]
  show "avt_fresh b"
    using k s(2-7) assms(5) d by (auto simp: avt_fresh_def avt_ready_def OrderedQueue_init_def oq_inv_def MAX_QUEUE_SIZE_def)
  show "avt_dab24msFrameSize b = nat (bitrate * 3)" "w_frames b = w_frames a" "avt_frameZeroTimestamp b = avt_frameZeroTimestamp a"
    using k s by simp_all
qed

text \<open>What the setup leaves for the main loop when there is neither PAD nor a ZeroMQ output.\<close>

lemma main_setup_state:
  assumes "main_setup env handle argv = Goes c"
    and conf: "op_padlen (co_opts c) = 0" "op_output_uris (co_opts c) = []" "5 \<le> op_avt_jitterBufferSize (co_opts c)"
    and edi: "EDI_enabled (co_edi c)"
    and tag: "length (me_package_name env) + length (me_version env) \<le> 52000"
  shows "program_up c" "avt_fresh (co_avt c)" "eo_edi_sender (co_edi c) = None" "tai_inv (eo_clock_tai (co_edi c))"
    "eo_clock_tai (co_edi c) = ClockTAI_init []" "cf_chunk_len (eo_edi_conf (co_edi c)) = 207" "cf_fec (eo_edi_conf (co_edi c)) = 0"
    "cf_tagpacket_alignment (eo_edi_conf (co_edi c)) = 0" "cf_fragment_spreading_factor (eo_edi_conf (co_edi c)) = 95 / 100"
    "avt_dab24msFrameSize (co_avt c) \<le> 576" "avt_dab24msFrameSize (co_avt c) = nat (op_bitrate (co_opts c) * 3)"
    "length (eo_odr_version_tag (co_edi c)) \<le> 52034"
proof -
  let ?o = "co_opts c" and ?e = "co_edi c"
  obtain o1 edi1 avt1 where p: "parse_options options_default (getopt_long argv) = Goes o1" "check_options (me_run env) o1 = Goes ?o"
    and g: "connect_zmq (me_mem env) (me_zmq env) (op_keyfile ?o) None (op_output_uris ?o) = Inr (co_zmq c)"
    "add_edi_uris (EDI_init (me_steady env)) (op_edi_output_uris ?o) = Inr edi1"
    "?e = (if op_edi_output_uris ?o \<noteq> []
       then set_odr_version_tag edi1 (version_tag (me_package_name env) (me_version env) (op_identifier ?o)) else edi1)"
    "prepare (me_net env) (AVTInput_init (op_avt_input_uri ?o) (op_avt_output_uri ?o) (op_avt_pad_port ?o) (op_avt_jitterBufferSize ?o))
       = Inr (0, avt1)"
    "setDabPlusParameters avt1 (op_bitrate ?o) (op_channels ?o) (op_sample_rate ?o) (op_allowSBR ?o) (op_allowPS ?o) = Inr (0, co_avt c)"
    "co_outbuf c = replicate (24 * 120) 0" "co_send_error_count c = 0"
    by (rule main_setup_goes [OF assms(1)])
  have "avt_nbFrames avt1 = 0" "avt_currentFrameSize avt1 = 0" "w_pad avt1 = []" "5 \<le> avt_jitterBufferSize avt1"
    and a1: "w_frames avt1 = []" "avt_frameZeroTimestamp avt1 = 0"
    using prepare_keeps [OF g(4)] conf(3) by (simp_all add: AVTInput_init_def)
  note a = setDabPlusParameters_fresh [OF g(5) this(1-4)] and b = setDabPlusParameters_accepts(1-3) [OF g(5)]
  have uris: "op_edi_output_uris ?o \<noteq> []"
    using edi g(2,3) by (auto simp: EDI_enabled_def EDI_init_def configuration_default_def)
  have k: "eo_edi_sender ?e = None" "eo_clock_tai ?e = ClockTAI_init []" "cf_chunk_len (eo_edi_conf ?e) = 207" "cf_fec (eo_edi_conf ?e) = 0"
    "cf_tagpacket_alignment (eo_edi_conf ?e) = 0" "cf_fragment_spreading_factor (eo_edi_conf ?e) = 95 / 100"
    using add_edi_uris_keeps [OF g(2)] g(3) by (simp_all add: set_odr_version_tag_def EDI_init_def configuration_default_def)
  have sz: "avt_dab24msFrameSize (co_avt c) \<le> 576" using a(2) b by simp
  have "?o = o1" using p(2) by (auto simp: check_options_def split: if_splits)
  then have "length (op_identifier ?o) \<le> 32" using parse_options_identifier [OF p(1)] by (simp add: options_default_def)
  then have len: "length (eo_odr_version_tag ?e) \<le> 52034" using g(3) uris tag by (simp add: set_odr_version_tag_def version_tag_def)
  have "nat (cdiv (op_bitrate ?o) 8 * 120) = 5 * avt_dab24msFrameSize (co_avt c)" unfolding a(2) by (subst (2) b(1)) (use b(2) in simp)
  then have "outbuf_fits c" using sz by (simp add: outbuf_fits_def g(6))
  then show "program_up c"
    using a(3,4) a1 conf(1,2) uris g(1,7) edi by (simp add: program_up_def)
  show "tai_inv (eo_clock_tai ?e)" by (simp add: k(2) tai_inv_def ClockTAI_init_def Bulletin_init_def)
  show "avt_fresh (co_avt c)" "eo_edi_sender ?e = None" "eo_clock_tai ?e = ClockTAI_init []" "cf_chunk_len (eo_edi_conf ?e) = 207"
    "cf_fec (eo_edi_conf ?e) = 0" "cf_tagpacket_alignment (eo_edi_conf ?e) = 0" "cf_fragment_spreading_factor (eo_edi_conf ?e) = 95 / 100"
    "avt_dab24msFrameSize (co_avt c) \<le> 576" "avt_dab24msFrameSize (co_avt c) = nat (op_bitrate ?o * 3)"
    "length (eo_odr_version_tag ?e) \<le> 52034"
    by (fact a k sz len)+
qed

lemma main_setup_starts:
  assumes "main_setup env handle argv = Goes c"
    and "op_padlen (co_opts c) = 0" "op_output_uris (co_opts c) = []" "5 \<le> op_avt_jitterBufferSize (co_opts c)"
    and "EDI_enabled (co_edi c)" "length (me_package_name env) + length (me_version env) \<le> 52000" "cf_enable_pft (eo_edi_conf (co_edi c))"
  shows "program_started c"
proof -
  note k = main_setup_state [OF assms(1-6)]
  have "CEIL_DIV (avt_dab24msFrameSize (co_avt c) + length (eo_odr_version_tag (co_edi c)) + 83) 207 \<le> 256"
    using k(10,12) CEIL_DIV_le_iff [of 207] by simp
  then show ?thesis using k(1-4,6-9) assms(7) by (simp add: program_started_def conf_ok_def fragments_fit_def)
qed


text \<open>A program that has just been started, for examples, and the answers of the system while the output opens.\<close>

definition example_argv :: "string \<Rightarrow> string list" where
  "example_argv uri = [''odr'', ''-I'', ''udp://:32010'', ''--bitrate=8'', ''-e'' @ uri]"

definition example_bulletin :: string where
  "example_bulletin = bulletin_text 3928521600 [(3644697600, 36, '' 1 Jul 2015''), (3692217600, 37, '' 1 Jan 2017'')]"

definition example_open_env :: edi_env where
  "example_open_env = (example_env 0)\<lparr>
     ee_setup := [\<lparr>su_bind = \<lparr>be_gai = 0, be_cands = [], be_any = 3\<rparr>, su_source = (True, True), su_ttl = True, su_gai = 0, su_cands = [],
       su_listen = True\<rparr>],
     ee_time := 1600000000, ee_tai := (ee_tai (example_env 0))\<lparr>te_curl := \<lambda>_. CurlPieces [example_bulletin]\<rparr>\<rparr>"

lemma example_setup:
  assumes "add_edi_uri (EDI_init 0) uri = Inr e" "uri \<noteq> []"
  obtains c :: "bool companion" where "main_setup example_main_env (Some False) (example_argv uri) = Goes c"
    "co_opts c = options_default\<lparr>op_avt_input_uri := ''udp://:32010'', op_bitrate := 8, op_edi_output_uris := [uri]\<rparr>"
    "co_edi c = set_odr_version_tag e ''odr 1 ''" "co_cache c = None"
proof -
  let ?o = "options_default\<lparr>op_avt_input_uri := ''udp://:32010'', op_bitrate := 8, op_edi_output_uris := [uri]\<rparr>"
  have i: "stoi ''8'' = Inr 8" by (simp add: stoi_def stol_range_def is_space_def is_digit_def digits_val_def digit_val_def)
  have g: "getopt_long (example_argv uri) = [(of_char (CHR ''I''), ''udp://:32010''), (of_char (CHR ''b''), ''8''), (of_char (CHR ''e''), uri)]"
    using assms(2)
    by (simp add: example_argv_def getopt_long_def optstring_def long_word_def long_option_def longopts_def no_argument_def required_argument_def)
  have p: "parse_options options_default (getopt_long (example_argv uri)) = Goes ?o"
    by (simp add: g option_step_def with_int_def i options_default_def)
  have c: "check_options (me_run example_main_env) ?o = Goes ?o" by (simp add: check_options_def options_default_def)
  have z: "connect_zmq (me_mem example_main_env) (me_zmq example_main_env) (op_keyfile ?o) None (op_output_uris ?o) = Inr None"
    by (simp add: options_default_def)
  have e: "add_edi_uris (EDI_init (me_steady example_main_env)) (op_edi_output_uris ?o) = Inr e"
    by (simp add: assms(1) example_main_env_def)
  obtain a where a: "prepare (me_net example_main_env)
      (AVTInput_init (op_avt_input_uri ?o) (op_avt_output_uri ?o) (op_avt_pad_port ?o) (op_avt_jitterBufferSize ?o)) = Inr (0, a)"
    "avt_output_uri a = []" by (rule example_prepare) (simp add: options_default_def)
  have "\<exists>a'. setDabPlusParameters a (op_bitrate ?o) (op_channels ?o) (op_sample_rate ?o) (op_allowSBR ?o) (op_allowPS ?o) = Inr (0, a')"
    using a(2) by (simp add: setDabPlusParameters_def options_default_def cdiv_def sendCtrlMessage_def Let_def)
  then have "\<exists>c :: bool companion. main_setup example_main_env (Some False) (example_argv uri) = Goes c"
    unfolding main_setup_def AACDecoder_init_def option.case sum.case p outcome.case c z e a(1) Let_def
    by (auto simp: options_default_def example_argv_def)
  then obtain c0 :: "bool companion" where m: "main_setup example_main_env (Some False) (example_argv uri) = Goes c0"
    by blast
  show thesis
  proof (rule main_setup_goes [OF m])
    fix o1 edi1
    assume g: "parse_options options_default (getopt_long (example_argv uri)) = Goes o1" "check_options (me_run example_main_env) o1 = Goes (co_opts c0)"
      "add_edi_uris (EDI_init (me_steady example_main_env)) (op_edi_output_uris (co_opts c0)) = Inr edi1"
      "co_edi c0 = (if op_edi_output_uris (co_opts c0) \<noteq> [] then set_odr_version_tag edi1
         (version_tag (me_package_name example_main_env) (me_version example_main_env) (op_identifier (co_opts c0))) else edi1)"
      "co_cache c0 = me_cache example_main_env"
    have o: "co_opts c0 = ?o" using g(1,2) p c by simp
    have "edi1 = e" using g(3) e unfolding o by simp
    then have "co_edi c0 = set_odr_version_tag e ''odr 1 ''"
      using g(4) unfolding o by (simp add: version_tag_def example_main_env_def options_default_def)
    then show thesis using that [OF m o] g(5) by (simp add: example_main_env_def)
  qed
qed

lemma example_offset:
  obtains cache1 clk where "offset_first (ee_time example_open_env) (ee_steady example_open_env) (ee_tai example_open_env) None (ClockTAI_init [])
    = (None, cache1, clk)"
proof -
  let ?b = "\<lparr>bl_source = ''https://raw.githubusercontent.com/eggert/tz/master/leap-seconds.list'', bl_data = BulletinText example_bulletin\<rparr>"
  let ?env = "ee_tai example_open_env" and ?now = "1600000000 :: int"
  have b: "bulletin_state ?now ?b = \<lparr>bs_valid = True, bs_expires_at = 1719532800, bs_offset = 37\<rparr>"
    using bulletin_state_text [of ?b 3928521600 "[(3644697600, 36, '' 1 Jul 2015''), (3692217600, 37, '' 1 Jan 2017'')]"
      ?now "[(3644697600, 36, '' 1 Jul 2015'')]" 3692217600 37 "'' 1 Jan 2017''"]
    by (simp add: NTP_UNIX_OFFSET_def example_bulletin_def)
  have v: "\<not> usable ?now (bulletin_state ?now Bulletin_init)"
    "\<not> usable ?now (bulletin_state ?now (load_from_file (te_load ?env) None tai_cache_location))"
    by (simp_all add: bulletin_state_def Bulletin_init_def load_from_file_def Let_def usable_def BulletinState_init_def)
  have u: "usable ?now (bulletin_state ?now ?b)" unfolding b by (simp add: usable_def expires_in_def)
  have d: "download_from_url (te_curl ?env) ''https://raw.githubusercontent.com/eggert/tz/master/leap-seconds.list'' = Inr ?b"
    by (simp add: download_from_url_def example_open_env_def fill_bulletin_def)
  have "\<exists>fl clk. get_valid_offset ?now ?env None (ClockTAI_init []) = (Inr (Some (bulletin_state ?now ?b)), fl, clk)"
    unfolding get_valid_offset_def ClockTAI_init_def default_tai_urls_def
    using v u d by (simp add: Let_def store_to_cache_def)
  then have "\<exists>cache1 clk. offset_first ?now 0 ?env None (ClockTAI_init []) = (None, cache1, clk)"
    by (auto simp: offset_first_def ClockTAI_init_def)
  moreover have "ee_time example_open_env = ?now" "ee_steady example_open_env = 0" by (simp_all add: example_open_env_def example_env_def)
  ultimately show thesis using that by auto
qed

lemma example_udp: "add_edi_uri (EDI_init 0) ''udp://receiver:12000'' = Inr (add_udp_destination (EDI_init 0) ''receiver'' 12000)"
proof -
  have "stoi ''12000'' = Inr 12000" by (simp add: stoi_def stol_range_def is_space_def is_digit_def digits_val_def digit_val_def)
  then show ?thesis by (simp add: add_edi_uri_def edi_uri_parts_def Let_def)
qed

lemma example_opens:
  assumes "co_edi c = set_odr_version_tag (add_udp_destination (EDI_init 0) ''receiver'' 12000) ''odr 1 ''" "co_cache c = None"
  obtains s clk cache1 where "edi_open example_open_env (co_edi c) (co_cache c) (co_fds c) = Some (s, clk, cache1, insert 3 (co_fds c))"
    "sn_sockets s = [DUdp \<lparr>ud_dest_addr = ''receiver'', ud_dest_port = 12000, ud_source_addr = [], ud_source_port = 0, ud_ttl = 10\<rparr>
       \<lparr>us_sock = 3, us_port = 0\<rparr>]" "sn_pending s = []"
proof -
  obtain cache1 clk where o: "offset_first (ee_time example_open_env) (ee_steady example_open_env) (ee_tai example_open_env) None (ClockTAI_init [])
      = (None, cache1, clk)" by (rule example_offset)
  have e: "ee_setup example_open_env = [\<lparr>su_bind = \<lparr>be_gai = 0, be_cands = [], be_any = 3\<rparr>, su_source = (True, True), su_ttl = True, su_gai = 0, su_cands = [],
       su_listen = True\<rparr>]" by (simp add: example_open_env_def)
  show thesis
    by (rule that) (use o e assms in \<open>simp add: edi_open_def set_odr_version_tag_def add_udp_destination_def EDI_init_def configuration_default_def
      Sender_init_def PFT_init_def setup_destination_def udp_reinit_def\<close>, simp, simp)
qed

lemma example_start_arrives:
  fixes c :: "bool companion"
  assumes "avt_dab24msFrameSize (co_avt c) = 24" "edi_open example_open_env (co_edi c) (co_cache c) (co_fds c) = Some (s, clk, cache1, fds1)"
    and "sn_pending s = []"
  shows "superframe_arrives lib 0 c s (w_frames (co_avt example_companion)) (map example_burst [0, 3, 1, 4, 2])
     \<lparr>we_zmq = ZmqThrows, we_edi = example_open_env # map example_env [1, 2, 3, 4], we_stats = SentBytes 0\<rparr>"
proof -
  define es where "es = example_open_env # map example_env [1, 2, 3, 4]"
  have "distinct (map (\<lambda>env. ee_steady env mod 1000) es)" "length es = 5" "hd es = example_open_env"
    by (simp_all add: es_def example_env_def example_open_env_def)
  moreover have "\<forall>x \<in> set (map example_burst [0, 3, 1, 4, 2]). 0 \<le> oqd_capture_timestamp (snd x)"
    "fst (hd (map example_burst [0, 3, 1, 4, 2])) = 5 * int 0" by (simp_all add: example_burst_def)
  ultimately show ?thesis
    using example_avt(3) example_burst_arrives assms example_decode [of lib "co_decoder c"]
    unfolding superframe_arrives_def burst_arrives_def es_def [symmetric] by simp
qed


end
