(* ===== verification/ProgramTCP.thy ===== *)
theory ProgramTCP
  imports ProgramStream
begin

text \<open>
  The program from its start with one TCP destination. Such an output does not use fragments: the AF packets go to the queue of the
  sending client, and its thread writes them to the connection. What a receiver reads from the connection is a stream of AF packets,
  which it divides by the lengths in their headers.
\<close>

subsection \<open>The receiver of the stream\<close>

definition af_next :: "bytes \<Rightarrow> (bytes \<times> bytes) option" where
  "af_next bs =
     (if length bs < 12 then None
      else (let n = unat (rd32 (drop 2 bs)) + 12 in if length bs < n then None else Some (take n bs, drop n bs)))"

function tcp_received :: "bytes \<Rightarrow> bytes option list" where
  "tcp_received bs = (case af_next bs of None \<Rightarrow> [] | Some (af, rest) \<Rightarrow> af_stream_data af # tcp_received rest)"
  by pat_completeness auto
termination
  by (relation "measure length") (auto simp: af_next_def Let_def split: if_splits)

declare tcp_received.simps [simp del]

text \<open>An AF packet that carries a frame.\<close>

definition frame_packet :: "bytes \<Rightarrow> bytes \<Rightarrow> bool" where
  "frame_packet af buf \<longleftrightarrow> af_stream_data af = Some buf"

lemma frame_packet_next:
  assumes "frame_packet af buf"
  shows "af_next (af @ rest) = Some (af, rest)"
proof -
  have "af_parse af \<noteq> None" using assms by (auto simp: frame_packet_def af_stream_data_def split: option.splits)
  then have l: "\<not> length af < 12" "unat (rd32 (drop 2 af)) + 12 = length af" unfolding af_parse_def by metis+
  have "rd32 (drop 2 (af @ rest)) = rd32 (drop 2 af)" using l(1) by (auto simp: rd32_def nth_append)
  then show ?thesis using l by (simp add: af_next_def)
qed

lemma frame_packet_nonempty: "\<not> frame_packet [] buf"
  by (simp add: frame_packet_def af_stream_data_def af_parse_def)

lemma tcp_received_packets: "list_all2 frame_packet afs bufs \<Longrightarrow> tcp_received (concat afs) = map Some bufs"
proof (induction rule: list_all2_induct)
  case Nil
  then show ?case by (simp add: tcp_received.simps af_next_def)
next
  case (Cons af afs buf bufs)
  then show ?case
    using frame_packet_next [OF Cons(1), of "concat afs"]
    by (subst tcp_received.simps) (simp add: frame_packet_def)
qed

subsection \<open>Writing to the queue of the client\<close>

abbreviation client_queue :: "TCPSendClient \<Rightarrow> bytes list" where
  "client_queue cl \<equiv> the_queue (sc_queue cl)"

definition same_connection :: "TCPSendClient \<Rightarrow> TCPSendClient \<Rightarrow> bool" where
  "same_connection cl cl' \<longleftrightarrow> sc_sock cl' = sc_sock cl \<and> sc_is_connected cl' = sc_is_connected cl"

definition tcp_sender :: "Sender \<Rightarrow> TCPSendClient \<Rightarrow> bool" where
  "tcp_sender s cl \<longleftrightarrow> \<not> cf_enable_pft (sn_conf s) \<and> sn_sockets s = [DClient cl] \<and> sc_running cl \<and> \<not> wakeup_requested (sc_queue cl)"

definition tcp_in_use :: "Output_EDI \<Rightarrow> Sender \<Rightarrow> TCPSendClient \<Rightarrow> bool" where
  "tcp_in_use e s cl \<longleftrightarrow> eo_edi_sender e = Some s \<and> tcp_sender s cl \<and> cf_tagpacket_alignment (eo_edi_conf e) = 0
     \<and> tai_inv (eo_clock_tai e) \<and> ct_state (eo_clock_tai e) \<noteq> None"

lemma sc_sendall_push:
  assumes "sc_running cl" "length (client_queue cl) < 512"
  shows "sc_sendall cl b = Inr (cl\<lparr>sc_queue := (sc_queue cl)\<lparr>the_queue := client_queue cl @ [b]\<rparr>\<rparr>)"
  using assms by (simp add: sc_sendall_def tsq_push_def Let_def tsq_size_def SC_MAX_QUEUE_SIZE_def)

lemma tcp_write_queues:
  assumes "tcp_in_use e s cl" "length (client_queue cl) < 512" "ee_send env \<noteq> []" "length buf < 2 ^ 28" "length (eo_odr_version_tag e) < 2 ^ 28"
  obtains e' s1 cl1 af cache1 where "EDI_write_frame env e buf cache fds = (Inr True, [], e', cache1, fds)" "tcp_in_use e' s1 cl1"
    "client_queue cl1 = client_queue cl @ [af]" "frame_packet af buf"
    "eo_odr_version_tag e' = eo_odr_version_tag e" "eo_edi_conf e' = eo_edi_conf e" "same_connection cl cl1"
proof -
  note u = assms(1) [unfolded tcp_in_use_def tcp_sender_def]
  have clock: "tai_inv (eo_clock_tai e)" "ct_state (eo_clock_tai e) \<noteq> None" using u by blast+
  obtain off cache1 clk where g: "get_offset (ee_time env) (ee_steady env) (ee_tai env) cache (eo_clock_tai e) = (Inr off, cache1, clk)"
    and clk: "tai_inv clk" "ct_state clk \<noteq> None"
    by (rule tai.get_known [OF clock, of "(ee_time env, ee_steady env, ee_tai env)" cache]) simp
  let ?p = "edi_tagpacket e off (ee_steady env) buf"
  obtain payload p where p: "TagPacket_Assemble ?p = Inr (payload, p)"
    "tag_parse payload = Some (edi_expected_items e off (ee_steady env) buf)"
    "length payload \<le> length buf + length (eo_odr_version_tag e) + 71"
    using edi_tagpacket_assembles [OF _ assms(4,5)] u by metis
  have pl: "length payload < 2 ^ 32" using p(3) assms(4,5) by simp
  obtain af a' where af: "AFPacketiser_Assemble (sn_af s) ?p = Inr (af, a', p)" "af_parse af = Some (af_seq (sn_af s), payload)"
    by (rule AFPacketiser_Assemble_ok [OF p(1), of "sn_af s"]) (use pl in blast)
  have pk: "frame_packet af buf"
    using af(2) p(2) edi_expected_stream [of e off "ee_steady env" buf] by (simp add: frame_packet_def af_stream_data_def)
  define cl1 where "cl1 = cl\<lparr>sc_queue := (sc_queue cl)\<lparr>the_queue := client_queue cl @ [af]\<rparr>\<rparr>"
  have push: "sc_sendall cl af = Inr cl1" unfolding cl1_def by (rule sc_sendall_push) (use u assms(2) in auto)
  obtain ev evs where ev: "ee_send env = ev # evs" using assms(3) by (cases "ee_send env") auto
  have all: "send_to_all [DClient cl] (ee_send env) af fds = (None, [], [DClient cl1], fds)" by (simp add: ev send_to_def push)
  obtain s1 where w: "write_tag s (ee_steady env) (ee_send env) ?p fds = (None, [], s1, p, fds)" "sn_sockets s1 = [DClient cl1]"
      "sn_conf s1 = sn_conf s"
    using u all by (cases "cf_dump (sn_conf s)") (simp_all add: write_tag_def af(1) write_af_def Let_def)
  obtain e' where e': "EDI_write_frame env e buf cache fds = (Inr True, [], e', cache1, fds)" "eo_edi_sender e' = Some s1"
      "eo_edi_conf e' = eo_edi_conf e" "eo_odr_version_tag e' = eo_odr_version_tag e" "eo_clock_tai e' = clk"
    using g w(1) u by (simp add: EDI_write_frame_def Let_def)
  have "tcp_in_use e' s1 cl1" using e' w(2,3) u clk by (simp add: tcp_in_use_def tcp_sender_def cl1_def)
  moreover have "client_queue cl1 = client_queue cl @ [af]" "same_connection cl cl1" by (simp_all add: cl1_def same_connection_def)
  ultimately show thesis using that [OF e'(1) _ _ pk e'(4,3)] by blast
qed

lemma tcp_parts_queue:
  assumes "tcp_in_use e s cl" "length (client_queue cl) + length parts \<le> 512" "length envs = length parts" "\<forall>env \<in> set envs. ee_send env \<noteq> []"
    and "\<forall>buf \<in> set parts. length buf < 2 ^ 28" "length (eo_odr_version_tag e) < 2 ^ 28"
  shows "\<exists>e' s1 cl1 afs cache1. edi_parts e cache fds (zip envs parts) = (Inr True, [], e', cache1, fds) \<and> tcp_in_use e' s1 cl1
    \<and> client_queue cl1 = client_queue cl @ afs \<and> list_all2 frame_packet afs parts
    \<and> eo_odr_version_tag e' = eo_odr_version_tag e \<and> eo_edi_conf e' = eo_edi_conf e \<and> same_connection cl cl1"
  using assms
proof (induction parts arbitrary: e s cl cache envs)
  case Nil
  then show ?case by (intro exI [of _ e] exI [of _ s] exI [of _ cl] exI [of _ "[]"]) (simp add: same_connection_def)
next
  case (Cons part parts)
  obtain env envs' where envs: "envs = env # envs'" using Cons.prems(3) by (cases envs) auto
  have one: "length (client_queue cl) < 512" "ee_send env \<noteq> []" "length part < 2 ^ 28" using Cons.prems(2,4,5) envs by simp_all
  obtain e1 s1 cl1 af cache1 where w: "EDI_write_frame env e part cache fds = (Inr True, [], e1, cache1, fds)" "tcp_in_use e1 s1 cl1"
    "client_queue cl1 = client_queue cl @ [af]" "frame_packet af part"
    "eo_odr_version_tag e1 = eo_odr_version_tag e" "eo_edi_conf e1 = eo_edi_conf e" "same_connection cl cl1"
    by (rule tcp_write_queues [OF Cons.prems(1) one Cons.prems(6)])
  obtain e2 s2 cl2 afs cache2 where r: "edi_parts e1 cache1 fds (zip envs' parts) = (Inr True, [], e2, cache2, fds)" "tcp_in_use e2 s2 cl2"
    "client_queue cl2 = client_queue cl1 @ afs" "list_all2 frame_packet afs parts"
    "eo_odr_version_tag e2 = eo_odr_version_tag e1" "eo_edi_conf e2 = eo_edi_conf e1" "same_connection cl1 cl2"
    using Cons.IH [OF w(2), of envs' cache1] Cons.prems(2-6) envs w(3,5) by auto
  show ?case
    using w r by (intro exI [of _ e2] exI [of _ s2] exI [of _ cl2] exI [of _ "af # afs"] exI [of _ cache2]) (simp add: envs same_connection_def)
qed

subsection \<open>The thread of the client\<close>

text \<open>A pass that does not lose the connection takes nothing from the queue but what it writes to the connection, as a whole.\<close>

lemma sc_process_stream:
  assumes "sc_process resolve cl as fds = Some (Inr (cl', out, fds'))" "sc_running cl" "\<not> wakeup_requested (sc_queue cl)"
    and "sc_is_connected cl \<longrightarrow> sc_is_connected cl'"
  obtains "sc_running cl'" "\<not> wakeup_requested (sc_queue cl')"
    "\<exists>afs. client_queue cl = afs @ client_queue cl' \<and> out = concat afs"
proof (cases "sc_is_connected cl")
  case True
  show thesis
  proof (cases "client_queue cl")
    case Nil
    then show thesis using assms True by (simp add: sc_process_def tsq_wait_and_pop_def)
  next
    case (Cons af q)
    obtain ret o1 rest where t: "tcp_sendall af as = Some (ret, o1, rest)" "ret \<noteq> -1"
      using assms True Cons
      by (auto simp: sc_process_def tsq_wait_and_pop_def Let_def split: option.splits prod.splits if_splits)
    then have "o1 = af" using tcp_sendall_complete [of af as] by blast
    then have "out = af" "cl' = cl\<lparr>sc_queue := (sc_queue cl)\<lparr>the_queue := q\<rparr>\<rparr>"
      using assms True Cons t by (auto simp: sc_process_def tsq_wait_and_pop_def Let_def)
    then show thesis using that assms(2,3) Cons by (auto intro!: exI [of _ "[af]"])
  qed
next
  case False
  then have "client_queue cl' = client_queue cl" "sc_running cl'" "\<not> wakeup_requested (sc_queue cl')" "out = []"
    using assms by (auto simp: sc_process_def Let_def split: prod.splits option.splits if_splits)
  then show thesis using that by (auto intro!: exI [of _ "[]"])
qed

subsection \<open>The stream\<close>

text \<open>The program in step with the encoder, with one TCP destination; and the state in which the main loop is entered.\<close>

definition tcp_in_step :: "'h companion \<Rightarrow> Sender \<Rightarrow> TCPSendClient \<Rightarrow> nat \<Rightarrow> bool" where
  "tcp_in_step c s cl m \<longleftrightarrow> program_up c \<and> avt_ready m (co_avt c) \<and> m < 1000 \<and> tcp_in_use (co_edi c) s cl
     \<and> avt_dab24msFrameSize (co_avt c) < 2 ^ 28 \<and> length (eo_odr_version_tag (co_edi c)) < 2 ^ 28"

definition tcp_started :: "'h companion \<Rightarrow> bool" where
  "tcp_started c \<longleftrightarrow> program_up c \<and> avt_fresh (co_avt c) \<and> eo_edi_sender (co_edi c) = None \<and> tai_inv (eo_clock_tai (co_edi c))
     \<and> \<not> cf_enable_pft (eo_edi_conf (co_edi c)) \<and> cf_tagpacket_alignment (eo_edi_conf (co_edi c)) = 0
     \<and> (\<exists>t. cf_destinations (eo_edi_conf (co_edi c)) = [TcpClient t])
     \<and> avt_dab24msFrameSize (co_avt c) < 2 ^ 28 \<and> length (eo_odr_version_tag (co_edi c)) < 2 ^ 28"

text \<open>The output is in use with the client \<open>cl\<close> or opens with it, and the queue of the client has room for the five packets.\<close>

definition tcp_takes :: "'h companion \<Rightarrow> write_env \<Rightarrow> TCPSendClient \<Rightarrow> bool" where
  "tcp_takes c env cl \<longleftrightarrow> length (we_edi env) = 5 \<and> (\<forall>ev \<in> set (we_edi env). ee_send ev \<noteq> [])
     \<and> map_option (\<lambda>x. sn_sockets (fst x)) (edi_open (hd (we_edi env)) (co_edi c) (co_cache c) (co_fds c)) = Some [DClient cl]
     \<and> length (client_queue cl) + 5 \<le> 512"

lemma tcp_opened:
  assumes "tcp_started c \<or> (\<exists>s cl. tcp_in_step c s cl m)" "tcp_takes c env cl"
  obtains s clk cache1 fds1 where "edi_open (hd (we_edi env)) (co_edi c) (co_cache c) (co_fds c) = Some (s, clk, cache1, fds1)"
    "tcp_in_use (edi_opened (co_edi c) s clk) s cl"
    "tcp_started c \<Longrightarrow> client_queue cl = []" "\<And>s' cl'. tcp_in_step c s' cl' m \<Longrightarrow> cl = cl'"
proof -
  let ?e = "co_edi c" and ?ev = "hd (we_edi env)"
  obtain s clk cache1 fds1 where o: "edi_open ?ev ?e (co_cache c) (co_fds c) = Some (s, clk, cache1, fds1)" "sn_sockets s = [DClient cl]"
    using assms(2) by (auto simp: tcp_takes_def)
  show thesis
  proof (cases "tcp_started c")
    case True
    note i = True [unfolded tcp_started_def]
    have s: "Sender_init (eo_edi_conf ?e) (ee_setup ?ev) (co_fds c) = (Inr s, fds1)"
      and t: "offset_first (ee_time ?ev) (ee_steady ?ev) (ee_tai ?ev) (co_cache c) (eo_clock_tai ?e) = (None, cache1, clk)"
      using i o(1) by (auto simp: edi_open_def split: prod.splits sum.splits option.splits)
    obtain d where d: "cf_destinations (eo_edi_conf ?e) = [TcpClient d]" using i by blast
    have k: "sn_conf s = eo_edi_conf ?e" "cl = TCPSendClient_init (tct_dest_addr d) (tct_dest_port d)"
      using s d o(2) by (auto simp: Sender_init_def setup_destination_def zip_Cons1 split: sum.splits prod.splits list.splits)
    have "tai_inv (eo_clock_tai ?e)" using i by blast
    from offset_first_cases(1) [OF this t] have "tcp_in_use (edi_opened ?e s clk) s cl"
      using i k o(2) offset_first_state [OF t] by (simp add: tcp_in_use_def tcp_sender_def TCPSendClient_init_def tsq_empty_def)
    moreover have "client_queue cl = []" by (simp add: k(2) TCPSendClient_init_def tsq_empty_def)
    moreover have "\<not> tcp_in_step c s' cl' m" for s' cl' using i by (auto simp: tcp_in_step_def tcp_in_use_def)
    ultimately show thesis using that [OF o(1)] by blast
  next
    case False
    then obtain s' cl' where i: "tcp_in_step c s' cl' m" using assms(1) by blast
    note u = i [unfolded tcp_in_step_def tcp_in_use_def]
    have "s = s' \<and> clk = eo_clock_tai ?e" using o(1) u by (auto simp: edi_open_def offset_first_def)
    moreover have "edi_opened ?e s' (eo_clock_tai ?e) = ?e" using u by simp
    ultimately have "tcp_in_use (edi_opened ?e s clk) s cl" "cl = cl'"
      using u o(2) i by (auto simp: tcp_in_step_def tcp_in_use_def tcp_sender_def)
    moreover have "cl = cl''" if "tcp_in_step c s'' cl'' m" for s'' cl''
      using that u \<open>cl = cl'\<close> by (auto simp: tcp_in_step_def tcp_in_use_def tcp_sender_def)
    ultimately show thesis using that [OF o(1)] False by blast
  qed
qed

text \<open>One pass of the main loop: the packets of the five parts are queued.\<close>

lemma tcp_pass:
  assumes "tcp_started c \<or> (\<exists>s cl. tcp_in_step c s cl m)" "m < 1000" "tcp_takes c env cl" "burst_arrives lib m c ds fs"
  obtains c' s1 cl1 afs where "main_pass package_name version lib start (r # rs) env (datagrams_arrive ds c) = Some (Inr (Again, [], c'))"
    "tcp_in_step c' s1 cl1 (Suc m mod 1000)" "client_queue cl1 = client_queue cl @ afs"
    "avt_dab24msFrameSize (co_avt c') = avt_dab24msFrameSize (co_avt c)"
    "list_all2 frame_packet afs (superframe_parts (superframe_of_burst fs m) (5 * avt_dab24msFrameSize (co_avt c)))" "same_connection cl cl1"
proof -
  let ?sz = "avt_dab24msFrameSize (co_avt c)" and ?parts = "superframe_parts (superframe_of_burst fs m) (5 * avt_dab24msFrameSize (co_avt c))"
  have up: "program_up c" "?sz < 2 ^ 28" "length (eo_odr_version_tag (co_edi c)) < 2 ^ 28"
    using assms(1) by (auto simp: tcp_started_def tcp_in_step_def)
  have ph: "avt_phase m (co_avt c) fs" "0 < ?sz"
    using assms(1) fresh_phase [OF assms(4)] by (auto simp: tcp_started_def tcp_in_step_def avt_phase_def avt_ready_def)
  obtain s clk cache1 fds1 where o: "edi_open (hd (we_edi env)) (co_edi c) (co_cache c) (co_fds c) = Some (s, clk, cache1, fds1)"
    "tcp_in_use (edi_opened (co_edi c) s clk) s cl"
    by (rule tcp_opened [OF assms(1,3)])
  note parts = burst_parts [OF assms(4)]
  let ?P = "\<lambda>e2. \<exists>s1 cl1 afs. tcp_in_use e2 s1 cl1 \<and> client_queue cl1 = client_queue cl @ afs \<and> list_all2 frame_packet afs ?parts
    \<and> same_connection cl cl1"
  have wr: "\<exists>e2 cache2. edi_parts e (co_cache c) (co_fds c) (zip (we_edi env) ?parts) = (Inr True, [], e2, cache2, fds1)
      \<and> eo_edi_conf e2 = eo_edi_conf (co_edi c) \<and> eo_odr_version_tag e2 = eo_odr_version_tag (co_edi c) \<and> ?P e2"
    if same: "edi_same_use (co_edi c) e" for e
  proof -
    note same = same [unfolded edi_same_use_def] and t = assms(3) [unfolded tcp_takes_def]
    have op: "edi_open (hd (we_edi env)) e (co_cache c) (co_fds c) = Some (s, clk, cache1, fds1)"
      using edi_open_cong [of e "co_edi c"] same o(1) by simp
    have u: "tcp_in_use (edi_opened e s clk) s cl" using o(2) same by (simp add: tcp_in_use_def)
    have room: "length (client_queue cl) + length ?parts \<le> 512" "length (we_edi env) = length ?parts" "\<forall>ev \<in> set (we_edi env). ee_send ev \<noteq> []"
      using t parts(1) by simp_all
    have len: "\<forall>buf \<in> set ?parts. length buf < 2 ^ 28" "length (eo_odr_version_tag (edi_opened e s clk)) < 2 ^ 28"
      using parts(2) up(2,3) same by simp_all
    obtain ev evs p ps where z: "we_edi env = ev # evs" "?parts = p # ps"
      using room(2) parts(1) by (cases "we_edi env"; cases ?parts) auto
    obtain e2 s1 cl1 afs cache2 where q: "edi_parts (edi_opened e s clk) cache1 fds1 (zip (we_edi env) ?parts) = (Inr True, [], e2, cache2, fds1)"
      "tcp_in_use e2 s1 cl1" "client_queue cl1 = client_queue cl @ afs" "list_all2 frame_packet afs ?parts"
      "eo_odr_version_tag e2 = eo_odr_version_tag e" "eo_edi_conf e2 = eo_edi_conf e" "same_connection cl cl1"
      using tcp_parts_queue [OF u room len, of cache1 fds1] by auto
    have "edi_parts e (co_cache c) (co_fds c) (zip (we_edi env) ?parts) = (Inr True, [], e2, cache2, fds1)"
      using q(1) edi_open_parts [OF op [unfolded z(1) list.sel], of p "zip evs ps"] unfolding z zip_Cons_Cons by simp
    then show ?thesis using q(2-7) same by (intro exI [of _ e2] exI [of _ cache2]) auto
  qed
  obtain c' where c': "main_pass package_name version lib start (r # rs) env (datagrams_arrive ds c) = Some (Inr (Again, [], c'))"
    "program_up c'" "avt_ready (Suc m mod 1000) (co_avt c')" "avt_dab24msFrameSize (co_avt c') = ?sz"
    "eo_odr_version_tag (co_edi c') = eo_odr_version_tag (co_edi c)" "?P (co_edi c')"
    by (rule pass_goes_on [OF up(1) ph(1) assms(2) ph(2) assms(4) wr, of package_name version start r rs])
  then obtain s1 cl1 afs where "tcp_in_use (co_edi c') s1 cl1" "client_queue cl1 = client_queue cl @ afs" "list_all2 frame_packet afs ?parts"
    "same_connection cl cl1" by blast
  then show thesis using that [OF c'(1) _ _ c'(4)] c'(2-5) up(2,3) by (simp add: tcp_in_step_def)
qed

text \<open>
  The main loop and the thread of the client, interleaved in any way. The connection may be refused any number of times before it is
  established; once it is, it holds. What the receiver has read so far are the bytes \<open>tc_got\<close>.
\<close>

record 'h tcp_state =
  tc_c :: "'h companion"
  tc_in :: "bytes list"
  tc_got :: bytes

inductive tcp_step :: "'h fdk \<Rightarrow> nat \<Rightarrow> 'h tcp_state \<Rightarrow> 'h tcp_state \<Rightarrow> bool" for lib :: "'h fdk" and m0 where
  main: "m = (m0 + length (tc_in x)) mod 1000 \<Longrightarrow> burst_arrives lib m (tc_c x) ds fs \<Longrightarrow> tcp_takes (tc_c x) env cl \<Longrightarrow>
    main_pass package_name version lib start (r # rs) env (datagrams_arrive ds (tc_c x)) = Some (Inr (result, out, c')) \<Longrightarrow>
    tcp_step lib m0 x (x\<lparr>tc_c := c', tc_in := tc_in x @ [superframe_of_burst fs m]\<rparr>)"
| client: "eo_edi_sender (co_edi (tc_c x)) = Some s \<Longrightarrow> sn_sockets s = [DClient cl] \<Longrightarrow>
    sc_process resolve cl answers (co_fds (tc_c x)) = Some (Inr (cl', out, fds')) \<Longrightarrow> sc_is_connected cl \<longrightarrow> sc_is_connected cl' \<Longrightarrow>
    tcp_step lib m0 x (x\<lparr>tc_c := (tc_c x)\<lparr>co_edi := (co_edi (tc_c x))\<lparr>eo_edi_sender := Some (s\<lparr>sn_sockets := [DClient cl']\<rparr>)\<rparr>, co_fds := fds'\<rparr>,
      tc_got := tc_got x @ out\<rparr>)"

definition tcp_start :: "'h companion \<Rightarrow> 'h tcp_state" where
  "tcp_start c = \<lparr>tc_c = c, tc_in = [], tc_got = []\<rparr>"

text \<open>The packets of all parts are those that have been sent, then those in the queue.\<close>

definition tcp_accounts :: "nat \<Rightarrow> 'h tcp_state \<Rightarrow> TCPSendClient \<Rightarrow> bytes list \<Rightarrow> bool" where
  "tcp_accounts sz x cl sent \<longleftrightarrow> avt_dab24msFrameSize (co_avt (tc_c x)) = sz \<and> (\<forall>f \<in> set (tc_in x). length f = 5 * sz)
     \<and> tc_got x = concat sent \<and> list_all2 frame_packet (sent @ client_queue cl) (stream_parts sz (tc_in x))"

definition tcp_inv :: "nat \<Rightarrow> nat \<Rightarrow> 'h tcp_state \<Rightarrow> bool" where
  "tcp_inv m0 sz x \<longleftrightarrow>
     tcp_started (tc_c x) \<and> tc_in x = [] \<and> tc_got x = [] \<and> avt_dab24msFrameSize (co_avt (tc_c x)) = sz
     \<or> (\<exists>s cl sent. tcp_in_step (tc_c x) s cl ((m0 + length (tc_in x)) mod 1000) \<and> tcp_accounts sz x cl sent)"

lemma tcp_inv_main:
  assumes "tcp_inv m0 sz x" "m = (m0 + length (tc_in x)) mod 1000" "burst_arrives lib m (tc_c x) ds fs" "tcp_takes (tc_c x) env cl"
    and "main_pass package_name version lib start (r # rs) env (datagrams_arrive ds (tc_c x)) = Some (Inr (result, out, c'))"
  shows "tcp_inv m0 sz (x\<lparr>tc_c := c', tc_in := tc_in x @ [superframe_of_burst fs m]\<rparr>)"
proof -
  define sf where "sf = superframe_of_burst fs m"
  have st: "tcp_started (tc_c x) \<or> (\<exists>s cl. tcp_in_step (tc_c x) s cl m)" using assms(1,2) by (auto simp: tcp_inv_def)
  obtain sent where acc: "tcp_accounts sz x cl sent"
    by (rule tcp_opened [OF st assms(4)]) (use assms(1,2) in \<open>auto simp: tcp_inv_def tcp_accounts_def stream_parts_def\<close>)
  note i = acc [unfolded tcp_accounts_def]
  have m: "m < 1000" using assms(2) by simp
  obtain c1 s1 cl1 afs where p: "main_pass package_name version lib start (r # rs) env (datagrams_arrive ds (tc_c x)) = Some (Inr (Again, [], c1))"
    "tcp_in_step c1 s1 cl1 (Suc m mod 1000)" "client_queue cl1 = client_queue cl @ afs"
    "avt_dab24msFrameSize (co_avt c1) = avt_dab24msFrameSize (co_avt (tc_c x))"
    "list_all2 frame_packet afs (superframe_parts (superframe_of_burst fs m) (5 * avt_dab24msFrameSize (co_avt (tc_c x))))"
    by (rule tcp_pass [OF st m assms(4,3), of package_name version start r rs])
  have c1: "c' = c1" using assms(5) p(1) by simp
  have len: "length sf = 5 * sz" using superframe_of_burst_length [OF assms(3)] i by (simp add: sf_def)
  have parts: "stream_parts sz (tc_in x @ [sf]) = stream_parts sz (tc_in x) @ superframe_parts sf (5 * sz)" by (simp add: stream_parts_def)
  let ?y = "x\<lparr>tc_c := c1, tc_in := tc_in x @ [sf]\<rparr>"
  have "list_all2 frame_packet ((sent @ client_queue cl) @ afs) (stream_parts sz (tc_in x @ [sf]))"
    unfolding parts by (rule list_all2_appendI) (use i p(5) in \<open>simp_all add: sf_def\<close>)
  then have "tcp_accounts sz ?y cl1 sent" using i p(3,4) len by (auto simp: tcp_accounts_def)
  moreover have "(m0 + (length (tc_in x) + 1)) mod 1000 = Suc m mod 1000" by (simp add: assms(2) mod_Suc_eq)
  ultimately have "tcp_inv m0 sz ?y" using p(2) unfolding tcp_inv_def by auto
  then show ?thesis unfolding c1 sf_def .
qed

lemma tcp_in_step_client: "tcp_in_step c s cl m \<Longrightarrow> eo_edi_sender (co_edi c) = Some s \<and> sn_sockets s = [DClient cl]"
  by (simp add: tcp_in_step_def tcp_in_use_def tcp_sender_def)

lemma tcp_inv_sender:
  assumes "tcp_inv m0 sz x" "eo_edi_sender (co_edi (tc_c x)) = Some s" "sn_sockets s = [DClient cl]"
  obtains sent where "tcp_in_step (tc_c x) s cl ((m0 + length (tc_in x)) mod 1000)" "tcp_accounts sz x cl sent"
proof -
  have "\<not> tcp_started (tc_c x)" using assms(2) by (simp add: tcp_started_def)
  then obtain s' cl' sent where u: "tcp_in_step (tc_c x) s' cl' ((m0 + length (tc_in x)) mod 1000)" "tcp_accounts sz x cl' sent"
    using assms(1) by (auto simp: tcp_inv_def)
  have "s' = s" "cl' = cl" using tcp_in_step_client [OF u(1)] assms(2,3) by auto
  then show thesis using that u by blast
qed

lemma tcp_inv_client:
  assumes "tcp_inv m0 sz x" "eo_edi_sender (co_edi (tc_c x)) = Some s" "sn_sockets s = [DClient cl]"
    and "sc_process resolve cl answers (co_fds (tc_c x)) = Some (Inr (cl', out, fds'))" "sc_is_connected cl \<longrightarrow> sc_is_connected cl'"
  shows "tcp_inv m0 sz (x\<lparr>tc_c := (tc_c x)\<lparr>co_edi := (co_edi (tc_c x))\<lparr>eo_edi_sender := Some (s\<lparr>sn_sockets := [DClient cl']\<rparr>)\<rparr>, co_fds := fds'\<rparr>,
      tc_got := tc_got x @ out\<rparr>)"
proof -
  obtain sent where u: "tcp_in_step (tc_c x) s cl ((m0 + length (tc_in x)) mod 1000)" "tcp_accounts sz x cl sent"
    by (rule tcp_inv_sender [OF assms(1-3)])
  have run: "sc_running cl" "\<not> wakeup_requested (sc_queue cl)" using u(1) by (simp_all add: tcp_in_step_def tcp_in_use_def tcp_sender_def)
  obtain afs where k: "sc_running cl'" "\<not> wakeup_requested (sc_queue cl')" "client_queue cl = afs @ client_queue cl'" "out = concat afs"
    by (rule sc_process_stream [OF assms(4) run assms(5)]) blast
  let ?s = "s\<lparr>sn_sockets := [DClient cl']\<rparr>"
  let ?c = "(tc_c x)\<lparr>co_edi := (co_edi (tc_c x))\<lparr>eo_edi_sender := Some ?s\<rparr>, co_fds := fds'\<rparr>"
  have "tcp_in_step ?c ?s cl' ((m0 + length (tc_in x)) mod 1000)"
    using u(1) k(1,2) by (simp add: tcp_in_step_def tcp_in_use_def tcp_sender_def program_up_def outbuf_fits_def EDI_enabled_def)
  moreover have "tcp_accounts sz (x\<lparr>tc_c := ?c, tc_got := tc_got x @ out\<rparr>) cl' (sent @ afs)"
    using u(2) k(3,4) by (simp add: tcp_accounts_def)
  ultimately show ?thesis unfolding tcp_inv_def by auto
qed

lemma tcp_inv_reach:
  assumes "(tcp_step lib m0)\<^sup>*\<^sup>* x y" "tcp_inv m0 sz x"
  shows "tcp_inv m0 sz y"
  using assms
proof (induction rule: rtranclp_induct)
  case (step y z)
  from step.hyps(2) show ?case
  proof cases
    case (main m ds fs env cl package_name version start r rs result out c')
    show ?thesis unfolding main(1) by (rule tcp_inv_main [OF step.IH [OF step.prems] main(2-5)])
  next
    case (client s cl resolve answers cl' out fds')
    show ?thesis unfolding client(1) by (rule tcp_inv_client [OF step.IH [OF step.prems] client(2-5)])
  qed
qed simp

lemma stream_parts_lengths: "\<forall>f \<in> set fs. length f = 5 * sz \<Longrightarrow> \<forall>q \<in> set (stream_parts sz fs). length q = sz"
proof
  fix q assume fs: "\<forall>f \<in> set fs. length f = 5 * sz" and "q \<in> set (stream_parts sz fs)"
  then obtain f where f: "f \<in> set fs" "q \<in> set (superframe_parts f (5 * sz))" by (auto simp: stream_parts_def)
  then show "length q = sz" using superframe_parts_concat(2) [of "5 * sz" f] fs by simp
qed

lemma concat_take: "\<forall>q \<in> set qs. length q = sz \<Longrightarrow> concat (take k qs) = take (k * sz) (concat qs)"
proof (induction qs arbitrary: k)
  case (Cons q qs)
  then show ?case by (cases k) simp_all
qed simp

lemma tcp_inv_received:
  assumes "tcp_inv m0 sz x" "eo_edi_sender (co_edi (tc_c x)) = Some s" "sn_sockets s = [DClient cl]"
  shows "tcp_received (tc_got x) = map Some (take (5 * length (tc_in x) - length (client_queue cl)) (stream_parts sz (tc_in x)))"
    "concat (map the (tcp_received (tc_got x))) = take ((5 * length (tc_in x) - length (client_queue cl)) * sz) (concat (tc_in x))"
proof -
  obtain sent where u: "tcp_accounts sz x cl sent" by (rule tcp_inv_sender [OF assms])
  note i = u [unfolded tcp_accounts_def]
  let ?parts = "stream_parts sz (tc_in x)" and ?k = "5 * length (tc_in x) - length (client_queue cl)"
  have "length (sent @ client_queue cl) = 5 * length (tc_in x)" using i list_all2_lengthD stream_parts_length by metis
  then have k: "?k = length sent" by simp
  have "list_all2 frame_packet sent (take ?k ?parts)" unfolding k using i by (auto simp: list_all2_append1)
  then show r: "tcp_received (tc_got x) = map Some (take ?k ?parts)" using tcp_received_packets i by metis
  have "\<forall>f \<in> set (tc_in x). length f = 5 * sz" using i by blast
  note l = stream_parts_lengths [OF this] and c = stream_parts_concat [OF this]
  have "concat (map the (tcp_received (tc_got x))) = concat (take ?k ?parts)" unfolding r by (simp add: comp_def)
  then show "concat (map the (tcp_received (tc_got x))) = take (?k * sz) (concat (tc_in x))" unfolding concat_take [OF l] c .
qed

text \<open>Fragments are used only if there is a UDP destination.\<close>

definition pft_for_udp :: "configuration_t \<Rightarrow> bool" where
  "pft_for_udp conf \<longleftrightarrow> (cf_enable_pft conf \<longrightarrow> list_ex (\<lambda>d. case d of UdpDestination _ \<Rightarrow> True | _ \<Rightarrow> False) (cf_destinations conf))"

lemma add_edi_uri_pft:
  assumes "add_edi_uri e uri = Inr e'" "pft_for_udp (eo_edi_conf e)"
  shows "pft_for_udp (eo_edi_conf e')"
  using assms
  by (auto simp: pft_for_udp_def add_edi_uri_def add_tcp_destination_def add_udp_destination_def Let_def split: if_splits option.splits sum.splits)

lemma add_edi_uris_pft: "add_edi_uris e uris = Inr e' \<Longrightarrow> pft_for_udp (eo_edi_conf e) \<Longrightarrow> pft_for_udp (eo_edi_conf e')"
proof (induction uris arbitrary: e)
  case (Cons uri uris)
  then obtain e1 where e1: "add_edi_uri e uri = Inr e1" "add_edi_uris e1 uris = Inr e'" by (auto split: sum.splits)
  show ?case by (rule Cons.IH [OF e1(2) add_edi_uri_pft [OF e1(1) Cons.prems(2)]])
qed simp

lemma main_setup_starts_tcp:
  assumes "main_setup env handle argv = Goes c"
    and "op_padlen (co_opts c) = 0" "op_output_uris (co_opts c) = []" "5 \<le> op_avt_jitterBufferSize (co_opts c)"
    and "cf_destinations (eo_edi_conf (co_edi c)) = [TcpClient t]" "length (me_package_name env) + length (me_version env) \<le> 52000"
  shows "tcp_started c" "avt_dab24msFrameSize (co_avt c) = nat (op_bitrate (co_opts c) * 3)"
proof -
  have en: "EDI_enabled (co_edi c)" using assms(5) by (simp add: EDI_enabled_def)
  note k = main_setup_state [OF assms(1-4) en assms(6)]
  obtain edi1 where g: "add_edi_uris (EDI_init (me_steady env)) (op_edi_output_uris (co_opts c)) = Inr edi1"
    "eo_edi_conf (co_edi c) = eo_edi_conf edi1"
    by (rule main_setup_goes [OF assms(1)]) (simp add: set_odr_version_tag_def)
  have "\<not> cf_enable_pft (eo_edi_conf (co_edi c))"
    using add_edi_uris_pft [OF g(1)] assms(5) unfolding g(2) by (auto simp: pft_for_udp_def EDI_init_def configuration_default_def)
  then show "tcp_started c" using k(1-4,8,10,12) assms(5) by (simp add: tcp_started_def)
  show "avt_dab24msFrameSize (co_avt c) = nat (op_bitrate (co_opts c) * 3)" by (rule k(11))
qed


text \<open>An example: the client connects and writes the first packet.\<close>

definition example_tcp_env :: "edi_env \<Rightarrow> edi_env" where
  "example_tcp_env ev = ev\<lparr>ee_send := [\<lparr>dn_gai = 0, dn_addrs = [], dn_send = None\<rparr>]\<rparr>"

definition example_tcp_write :: write_env where
  "example_tcp_write = \<lparr>we_zmq = ZmqThrows, we_edi = map example_tcp_env (example_open_env # map example_env [1, 2, 3, 4]), we_stats = SentBytes 0\<rparr>"

lemma example_tcp: "add_edi_uri (EDI_init 0) ''tcp://receiver:12000'' = add_tcp_destination (EDI_init 0) ''receiver'' 12000"
proof -
  have "stoi ''12000'' = Inr 12000" by (simp add: stoi_def stol_range_def is_space_def is_digit_def digits_val_def digit_val_def)
  then show ?thesis by (simp add: add_edi_uri_def edi_uri_parts_def Let_def)
qed

lemma example_tcp_takes:
  assumes "add_tcp_destination (EDI_init 0) ''receiver'' 12000 = Inr e" "co_edi c = set_odr_version_tag e ''odr 1 ''" "co_cache c = None"
  shows "tcp_takes c example_tcp_write (TCPSendClient_init ''receiver'' 12000)"
proof -
  let ?ev = "example_tcp_env example_open_env"
  obtain cache1 clk where "offset_first (ee_time example_open_env) (ee_steady example_open_env) (ee_tai example_open_env) None (ClockTAI_init [])
      = (None, cache1, clk)" by (rule example_offset)
  then have o: "offset_first (ee_time ?ev) (ee_steady ?ev) (ee_tai ?ev) None (ClockTAI_init []) = (None, cache1, clk)"
    by (simp add: example_tcp_env_def)
  obtain su where su: "ee_setup ?ev = [su]" by (simp add: example_tcp_env_def example_open_env_def)
  have "map_option (\<lambda>x. sn_sockets (fst x)) (edi_open ?ev (co_edi c) (co_cache c) (co_fds c)) = Some [DClient (TCPSendClient_init ''receiver'' 12000)]"
    using assms o su by (auto simp: edi_open_def set_odr_version_tag_def add_tcp_destination_def EDI_init_def configuration_default_def
      Sender_init_def PFT_init_def setup_destination_def Let_def)
  then show ?thesis
    by (simp add: tcp_takes_def example_tcp_write_def example_tcp_env_def TCPSendClient_init_def tsq_empty_def)
qed

lemma example_tcp_arrives:
  fixes c :: "bool companion"
  assumes "avt_dab24msFrameSize (co_avt c) = 24"
  shows "burst_arrives lib 0 c (w_frames (co_avt example_companion)) (map example_burst [0, 3, 1, 4, 2])"
proof -
  have "\<forall>x \<in> set (map example_burst [0, 3, 1, 4, 2]). 0 \<le> oqd_capture_timestamp (snd x)"
    "fst (hd (map example_burst [0, 3, 1, 4, 2])) = 5 * int 0" by (simp_all add: example_burst_def)
  then show ?thesis
    using example_avt(3) example_burst_arrives assms example_decode [of lib "co_decoder c"] unfolding burst_arrives_def by simp
qed

text \<open>A connected client with a packet in its queue writes it.\<close>

lemma sc_process_sends:
  assumes "sc_running cl" "sc_is_connected cl" "\<not> wakeup_requested (sc_queue cl)" "client_queue cl = af # q" "af \<noteq> []"
  shows "sc_process resolve cl [int (length af)] fds = Some (Inr (cl\<lparr>sc_queue := (sc_queue cl)\<lparr>the_queue := q\<rparr>\<rparr>, af, fds))"
proof -
  have "tcp_sendall af [int (length af)] = Some (0, af, [])" using assms(5) by (cases af) simp_all
  then show ?thesis using assms by (simp add: sc_process_def tsq_wait_and_pop_def Let_def)
qed

lemma sc_process_connects:
  assumes "sc_running cl" "\<not> sc_is_connected cl" "ts_sock (sc_sock cl) = -1"
  shows "sc_process (\<lambda>h p. (0, [\<lparr>cc_fd = 9, cc_getfl = True, cc_setfl = True, cc_connect = None, cc_poll = pl\<rparr>])) cl as fds
    = Some (Inr (cl\<lparr>sc_sock := (sc_sock cl)\<lparr>ts_sock := 9\<rparr>, sc_is_connected := True\<rparr>, [], insert 9 fds))"
  using assms by (simp add: sc_process_def tcp_connect_def)


end
