(* ===== verification/Logging.thy ===== *)
theory Logging
  imports ThreadsafeQueue
begin

text \<open>
  Model of \<open>lib/Log.h\<close> and \<open>lib/Log.cpp\<close>: messages go through a queue to a thread that gives them to the backends. A backend
  is the record of what it has written; the formatted text of a message is an argument. Times are in
  microseconds. The time in front of a line on the terminal is left out.
\<close>

datatype log_level_t = debug | info | warn | error | alert | emerg | trace | discard

definition levels_as_str :: "log_level_t \<Rightarrow> string" where
  "levels_as_str l =
     (case l of debug \<Rightarrow> ''     '' | info \<Rightarrow> ''     '' | warn \<Rightarrow> ''WARN '' | error \<Rightarrow> ''ERROR'' | alert \<Rightarrow> ''ALERT''
      | emerg \<Rightarrow> ''EMERG'' | trace \<Rightarrow> ''TRACE'' | discard \<Rightarrow> ''-----'')"

subsection \<open>Backends\<close>

datatype LogBackend =
    LogToFile "string list"
  | LogToSyslog "(nat \<times> string) list"
  | LogTracer u64 "string list"

text \<open>The priorities of \<open>syslog.h\<close>.\<close>

definition syslog_level :: "log_level_t \<Rightarrow> nat" where
  "syslog_level l = (case l of debug \<Rightarrow> 7 | info \<Rightarrow> 6 | warn \<Rightarrow> 4 | error \<Rightarrow> 3 | alert \<Rightarrow> 1 | emerg \<Rightarrow> 0 | _ \<Rightarrow> 2)"

definition log_level_text :: "log_level_t \<Rightarrow> string" where
  "log_level_text l =
     (case l of debug \<Rightarrow> ''DEBUG'' | info \<Rightarrow> ''INFO'' | warn \<Rightarrow> ''WARN'' | error \<Rightarrow> ''ERROR'' | alert \<Rightarrow> ''ALERT''
      | _ \<Rightarrow> ''EMERG'')"

text \<open>The file and trace backends open their file; \<open>LogTracer\<close> starts with a line of its own.\<close>

definition LogToFile_init :: "bool \<Rightarrow> exn + LogBackend" where
  "LogToFile_init opened = (if opened then Inr (LogToFile []) else Inl RuntimeError)"

definition LogTracer_init :: "bool \<Rightarrow> u64 \<Rightarrow> exn + LogBackend" where
  "LogTracer_init opened now =
     (if opened then Inr (LogTracer now [''0,TRACER,startup at '' @ dec_nat (unat now)]) else Inl RuntimeError)"

definition LogToFile_log :: "string \<Rightarrow> string list \<Rightarrow> log_level_t \<Rightarrow> string \<Rightarrow> string list" where
  "LogToFile_log ident ls level message =
     (if \<not> (level = trace \<or> level = discard)
      then ls @ [ident @ '': '' @ log_level_text level @ '': '' @ message] else ls)"

definition LogToSyslog_log :: "string \<Rightarrow> (nat \<times> string) list \<Rightarrow> log_level_t \<Rightarrow> string \<Rightarrow> (nat \<times> string) list" where
  "LogToSyslog_log ident ls level message =
     (if \<not> (level = trace \<or> level = discard) then ls @ [(syslog_level level, ident @ '' '' @ message)] else ls)"

definition LogTracer_log :: "u64 \<Rightarrow> u64 \<Rightarrow> string list \<Rightarrow> log_level_t \<Rightarrow> string \<Rightarrow> string list" where
  "LogTracer_log now startup ls level message =
     (if level = trace then ls @ [dec_nat (unat (now - startup)) @ '','' @ message] else ls)"

definition backend_log :: "string \<Rightarrow> u64 \<Rightarrow> LogBackend \<Rightarrow> log_level_t \<Rightarrow> string \<Rightarrow> LogBackend" where
  "backend_log ident now b level message =
     (case b of
        LogToFile ls \<Rightarrow> LogToFile (LogToFile_log ident ls level message)
      | LogToSyslog ls \<Rightarrow> LogToSyslog (LogToSyslog_log ident ls level message)
      | LogTracer startup ls \<Rightarrow> LogTracer startup (LogTracer_log now startup ls level message))"

subsection \<open>The logger\<close>

record log_message_t =
  lm_level :: log_level_t
  lm_message :: string

record Logger =
  lg_backends :: "LogBackend list"
  lg_queue :: "log_message_t tsq"
  lg_terminal :: "string list"

definition Logger_init :: Logger where
  "Logger_init = \<lparr>lg_backends = [], lg_queue = tsq_empty, lg_terminal = []\<rparr>"

definition register_backend :: "Logger \<Rightarrow> LogBackend \<Rightarrow> Logger" where
  "register_backend g backend = g\<lparr>lg_backends := lg_backends g @ [backend]\<rparr>"

definition logstr :: "Logger \<Rightarrow> log_level_t \<Rightarrow> string \<Rightarrow> Logger" where
  "logstr g level message =
     (if level = discard then g
      else g\<lparr>lg_queue := snd (tsq_push (lg_queue g) \<lparr>lm_level = level, lm_message = message\<rparr> 0)\<rparr>)"

text \<open>The loop around \<open>vsnprintf\<close>, which returns \<open>n\<close>, negative for an error: the size of the string in the end. With an
  error it has no end.\<close>

partial_function (option) vsnprintf_loop :: "int \<Rightarrow> int \<Rightarrow> int option" where
  "vsnprintf_loop n sz =
     (if n > -1 \<and> n < sz then Some n else if n > -1 then vsnprintf_loop n (n + 1) else vsnprintf_loop n (sz * 2))"

text \<open>\<open>log(level, fmt, ...)\<close>; \<open>text\<close> is the formatted text, \<open>None\<close> if it cannot be formatted.\<close>

definition logger_log :: "Logger \<Rightarrow> log_level_t \<Rightarrow> string option \<Rightarrow> Logger option" where
  "logger_log g level text =
     (if level = discard then Some g
      else
        (case vsnprintf_loop (case text of None \<Rightarrow> -1 | Some t \<Rightarrow> int (length t)) 100 of
           None \<Rightarrow> None
         | Some n \<Rightarrow> Some (logstr g level (take (nat n) (case text of None \<Rightarrow> '''' | Some t \<Rightarrow> t)))))"

text \<open>\<open>LogLine\<close>: the pieces are collected and logged when the line is destroyed.\<close>

record LogLine =
  ll_os :: string
  ll_level :: log_level_t

definition logger_level :: "log_level_t \<Rightarrow> LogLine" where
  "logger_level level = \<lparr>ll_os = '''', ll_level = level\<rparr>"

definition logline_append :: "LogLine \<Rightarrow> string \<Rightarrow> LogLine" where
  "logline_append l s = (if ll_level l \<noteq> discard then l\<lparr>ll_os := ll_os l @ s\<rparr> else l)"

definition LogLine_destroy :: "LogLine \<Rightarrow> Logger \<Rightarrow> Logger" where
  "LogLine_destroy l g = (if ll_level l \<noteq> discard then logstr g (ll_level l) (ll_os l) else g)"

text \<open>One pass of \<open>io_process\<close>: the flag says whether the loop goes on. The last character of an empty message is outside it.\<close>

definition io_pass :: "string \<Rightarrow> u64 \<Rightarrow> Logger \<Rightarrow> exn + bool \<times> Logger" where
  "io_pass ident now g =
     (case tsq_wait_and_pop (lg_queue g) 1 of
        Inl e \<Rightarrow> Inl e
      | Inr (Sleep, q) \<Rightarrow> Inr (True, g\<lparr>lg_queue := q\<rparr>)
      | Inr (ThreadsafeQueueWakeup, q) \<Rightarrow> Inr (False, g\<lparr>lg_queue := q\<rparr>)
      | Inr (Popped m, q) \<Rightarrow>
          if lm_message m = '''' then Inl OutOfBounds
          else
            (let message = (if last (lm_message m) = CHR 0x0A then butlast (lm_message m) else lm_message m);
                 g1 = g\<lparr>lg_queue := q, lg_backends := map (\<lambda>b. backend_log ident now b (lm_level m) message) (lg_backends g)\<rparr>
             in Inr (True, if lm_level m \<noteq> trace
                           then g1\<lparr>lg_terminal := lg_terminal g1 @ [levels_as_str (lm_level m) @ '' '' @ message]\<rparr> else g1)))"

text \<open>Destruction: the thread is woken and ends at its next look at the queue.\<close>

definition Logger_destroy :: "string \<Rightarrow> u64 \<Rightarrow> Logger \<Rightarrow> exn + Logger" where
  "Logger_destroy ident now g =
     (case io_pass ident now (g\<lparr>lg_queue := tsq_trigger_wakeup (lg_queue g)\<rparr>) of
        Inl e \<Rightarrow> Inl e
      | Inr (_, g1) \<Rightarrow> Inr (g1\<lparr>lg_backends := []\<rparr>))"

subsection \<open>Properties\<close>

lemma vsnprintf_loop_ends: "0 \<le> n \<Longrightarrow> vsnprintf_loop n 100 = Some n"
  by (subst vsnprintf_loop.simps) (auto simp: vsnprintf_loop.simps [of n "n + 1"])

fun io_passes :: "string \<Rightarrow> u64 list \<Rightarrow> Logger \<Rightarrow> exn + Logger" where
  "io_passes ident [] g = Inr g"
| "io_passes ident (now # ts) g =
     (case io_pass ident now g of Inl e \<Rightarrow> Inl e | Inr (_, g1) \<Rightarrow> io_passes ident ts g1)"

definition chomp :: "string \<Rightarrow> string" where
  "chomp s = (if s \<noteq> [] \<and> last s = CHR 0x0A then butlast s else s)"



text \<open>What is still in the queue when the logger is destroyed is lost: no backend and not the terminal gets another line.\<close>

theorem logger_destroy_drops:
  "\<exists>g'. Logger_destroy ident now g = Inr g' \<and> lg_terminal g' = lg_terminal g \<and> the_queue (lg_queue g') = the_queue (lg_queue g)"
  by (simp add: Logger_destroy_def io_pass_def tsq_wait_and_pop_def tsq_trigger_wakeup_def)

end
