(* ===== verification/ClockRC.thy ===== *)
theory ClockRC
  imports ClockTAI
begin

text \<open>
  The remote-control parameters of the TAI clock, the last part of \<^verbatim>\<open>lib/ClockTAI.cpp\<close>. They are called from the thread of the
  remote control, under the mutex that protects the clock, so that each is one step between calls of \<open>get_offset\<close>. The build has them
  only when remote control is enabled.
\<close>

text \<open>\<open>steady_clock::time_point::min()\<close>, in nanoseconds.\<close>

definition time_point_min :: int where "time_point_min = - (2 ^ 63)"

definition set_parameter :: "int \<Rightarrow> int \<Rightarrow> string \<Rightarrow> string \<Rightarrow> ClockTAI \<Rightarrow> exn + ClockTAI" where
  "set_parameter now time_now parameter value c =
     (if parameter = ''expiry'' \<or> parameter = ''expires_at'' then Inl ParameterError
      else if parameter = ''tai_utc_offset'' then
        (case stoi value of
           Inl e \<Rightarrow> Inl e
         | Inr offset \<Rightarrow>
             (let b = create_with_fixed_offset now offset
              in Inr (c\<lparr>ct_bulletin := b, ct_state := Some (bulletin_state now b), ct_state_last_updated := time_now\<rparr>)))
      else if parameter = ''url'' then
        Inr (c\<lparr>ct_bulletin_urls := split_pipe_separated_string value, ct_state_last_updated := time_point_min,
               ct_bulletin := clear_expiry_if_overridden now (ct_bulletin c)\<rparr>)
      else Inl ParameterError)"

definition get_parameter :: "int \<Rightarrow> string \<Rightarrow> ClockTAI \<Rightarrow> exn + string" where
  "get_parameter now parameter c =
     (if parameter = ''expiry'' then Inr (dec_int (expires_in now (bulletin_state now (ct_bulletin c))))
      else if parameter = ''expires_at'' then Inr (dec_int (bs_expires_at (bulletin_state now (ct_bulletin c))))
      else if parameter = ''tai_utc_offset'' then
        (case ct_state c of Some s \<Rightarrow> Inr (dec_int (bs_offset s)) | None \<Rightarrow> Inl ParameterError)
      else if parameter = ''url'' then Inr (join_string_with_pipe (ct_bulletin_urls c))
      else Inl ParameterError)"

text \<open>The values of the JSON map.\<close>

datatype json_value = JInt int | JString string | JNull

definition get_all_values :: "int \<Rightarrow> ClockTAI \<Rightarrow> string \<rightharpoonup> json_value" where
  "get_all_values now c =
     (let state = bulletin_state now (ct_bulletin c)
      in [''tai_utc_offset'' \<mapsto> JInt (bs_offset state),
          ''expiry'' \<mapsto> JInt (expires_in now state),
          ''expires_at'' \<mapsto> (if bs_valid state then JInt (bs_expires_at state) else JNull),
          ''url'' \<mapsto> JString (join_string_with_pipe (ct_bulletin_urls c))])"

subsection \<open>The list of URLs\<close>

lemma getlines_join: "s = [] \<or> last s \<noteq> CHR ''|'' \<Longrightarrow> join_string_with_pipe (getlines (CHR ''|'') s) = s"
proof (induction "CHR ''|''" s rule: getlines.induct)
  case (1 s)
  let ?p = "\<lambda>c. c \<noteq> CHR ''|''"
  show ?case
  proof (cases "s = []")
    case True
    then show ?thesis by (simp add: getlines.simps)
  next
    case False
    define r where "r = dropWhile ?p s"
    have s: "s = takeWhile ?p s @ r" by (simp add: r_def)
    show ?thesis
    proof (cases r)
      case Nil
      then have "takeWhile ?p s = s" "dropWhile ?p s = []" using s by (simp_all add: r_def)
      then have "getlines (CHR ''|'') s = [s]" using False by (subst getlines.simps) (simp add: getlines.simps [of _ "[]"] del: takeWhile_eq_all_conv dropWhile_eq_Nil_conv)
      then show ?thesis by simp
    next
      case (Cons x xs)
      have x: "x = CHR ''|''" using Cons by (simp add: r_def dropWhile_eq_Cons_conv)
      have "last s = last (x # xs)" using s Cons by (metis last_appendR list.distinct(1))
      then have ne: "xs \<noteq> []" "last xs \<noteq> CHR ''|''" using "1.prems" False x by (auto split: if_splits)
      have ih: "join_string_with_pipe (getlines (CHR ''|'') xs) = xs" using "1.hyps" [OF False] ne Cons by (simp add: r_def)
      obtain y ys where y: "getlines (CHR ''|'') xs = y # ys" using ne(1) by (simp add: getlines.simps [of _ xs])
      have "getlines (CHR ''|'') s = takeWhile ?p s # y # ys" using False y Cons by (simp add: getlines.simps [of _ s] r_def)
      then have "join_string_with_pipe (getlines (CHR ''|'') s) = takeWhile ?p s @ ''|'' @ xs" using ih y by simp
      then show ?thesis using s Cons x by simp
    qed
  qed
qed

text \<open>A list of URLs that is set over the remote control is the one that is shown, and the one that the next download uses. Only a
  separator at the end is lost.\<close>

theorem rc_url_roundtrip:
  assumes "value = [] \<or> last value \<noteq> CHR ''|''"
  shows "\<exists>c'. set_parameter now time_now ''url'' value c = Inr c' \<and> get_parameter now1 ''url'' c' = Inr value
    \<and> get_all_values now1 c' ''url'' = Some (JString value)
    \<and> (\<forall>env fl. tai_candidates env fl c' = [ct_bulletin c', load_from_file (te_load env) fl tai_cache_location]
         @ downloads env (split_pipe_separated_string value))"
  using getlines_join [OF assms]
  by (simp add: set_parameter_def get_parameter_def get_all_values_def split_pipe_separated_string_def tai_candidates_def Let_def)

theorem rc_url_roundtrip_witness:
  "\<exists>c'. set_parameter 5 7 ''url'' ''http://a|http://b'' (ClockTAI_init []) = Inr c' \<and> get_parameter 6 ''url'' c' = Inr ''http://a|http://b''"
  using rc_url_roundtrip [of "''http://a|http://b''" 5 7 "ClockTAI_init []" 6] by auto

subsection \<open>Overriding the offset\<close>

text \<open>An override is in force: it has not expired, it is the state, and what the background task may have found is the override, too.\<close>

definition overridden :: "int \<Rightarrow> int \<Rightarrow> ClockTAI \<Rightarrow> bool" where
  "overridden off expiry c \<longleftrightarrow> bl_data (ct_bulletin c) = Override \<lparr>od_offset = off, od_expires_at = expiry\<rparr>
     \<and> map_option bs_offset (ct_state c) = Some off
     \<and> (\<forall>r. ct_offset_future c = Ready r \<longrightarrow> (\<exists>s. r = Inr (Some s) \<and> bs_offset s = off))"

lemma overridden_get:
  assumes "overridden off expiry c" "get_offset now time_now env fl c = (r, fl', c')"
  shows "r = Inr off" "overridden off expiry c'" "fl' = fl"
proof -
  obtain s where s: "ct_state c = Some s" "bs_offset s = off" using assms(1) by (auto simp: overridden_def)
  have o: "offset_first now time_now env fl c = (None, fl, c)" by (simp add: offset_first_def s(1))
  have "\<exists>c1. offset_refresh time_now c = (None, c1) \<and> overridden off expiry c1"
    using assms(1) s by (auto simp: offset_refresh_def overridden_def Let_def split: offset_future.splits)
  then obtain c1 where c1: "offset_refresh time_now c = (None, c1)" "overridden off expiry c1" by blast
  then obtain s1 where "ct_state c1 = Some s1" "bs_offset s1 = off" by (auto simp: overridden_def)
  then show "r = Inr off" "overridden off expiry c'" "fl' = fl" using assms(2) c1 by (simp_all add: get_offset_def o)
qed

lemma overridden_finish:
  assumes "overridden off expiry c" "now < expiry" "async_finish now env fl c = (fl', c')"
  shows "overridden off expiry c'"
proof (cases "ct_offset_future c")
  case Running
  have s: "bulletin_state now (ct_bulletin c) = \<lparr>bs_valid = True, bs_expires_at = expiry, bs_offset = off\<rparr>"
    using assms(1) by (simp add: overridden_def bulletin_state_def)
  have "get_valid_offset now env fl c = (Inr (Some (bulletin_state now (ct_bulletin c))), fl, c)"
    using assms(2) by (simp add: get_valid_offset_def s usable_def expires_in_def)
  then show ?thesis using assms(1,3) Running s by (auto simp: async_finish_def overridden_def)
qed (use assms in \<open>auto simp: async_finish_def\<close>)

text \<open>What the program and the background task do while the remote control is silent, before the time \<open>expiry\<close>.\<close>

inductive clock_runs :: "int \<Rightarrow> ClockTAI \<Rightarrow> ClockTAI \<Rightarrow> bool" for expiry where
  same: "clock_runs expiry c c"
| get: "clock_runs expiry c c1 \<Longrightarrow> get_offset now time_now env fl c1 = (r, fl', c2) \<Longrightarrow> clock_runs expiry c c2"
| finish: "clock_runs expiry c c1 \<Longrightarrow> now < expiry \<Longrightarrow> async_finish now env fl c1 = (fl', c2) \<Longrightarrow> clock_runs expiry c c2"

lemma clock_runs_overridden:
  assumes "clock_runs expiry c c'" "overridden off expiry c"
  shows "overridden off expiry c'"
  using assms
proof (induction rule: clock_runs.induct)
  case (get c c1 now time_now env fl r fl' c2)
  then show ?case using overridden_get(2) by blast
next
  case (finish c c1 now env fl fl' c2)
  then show ?case using overridden_finish by blast
qed

lemma to_int32_id:
  assumes "0 \<le> x" "x < 2 ^ 31"
  shows "to_int32 x = x"
  using assms by (simp add: to_int32_def sint_sbintrunc' signed_take_bit_int_eq_self)

lemma set_override:
  assumes "- (2 ^ 31) \<le> off" "off < 2 ^ 31" "0 \<le> now" "now + 315360000 < 2 ^ 31"
  obtains c1 where "set_parameter now time_now ''tai_utc_offset'' (dec_int off) c = Inr c1"
    "bl_data (ct_bulletin c1) = Override \<lparr>od_offset = off, od_expires_at = now + 315360000\<rparr>"
    "map_option bs_offset (ct_state c1) = Some off" "ct_state_last_updated c1 = time_now" "ct_offset_future c1 = ct_offset_future c"
proof -
  have "stoi (dec_int off) = Inr off" using assms(1,2) by (simp add: stoi_def stol_range_dec_int)
  moreover have "to_int32 (now + 315360000) = now + 315360000" by (rule to_int32_id) (use assms(3,4) in simp_all)
  ultimately show thesis
    using that by (simp add: set_parameter_def create_with_fixed_offset_def bulletin_state_def Let_def)
qed

text \<open>C34: an override of the offset holds. If the background task has no result waiting when the remote control sets the offset, then
  whatever the program and the task do afterwards, for ten years, every call of \<open>get_offset\<close> gives this offset, without an error and
  without touching the cache, and the remote control shows it (if the end of the ten years is before the year 2038).\<close>

theorem rc_override_holds:
  assumes "- (2 ^ 31) \<le> off" "off < 2 ^ 31" "0 \<le> now" "now + 315360000 < 2 ^ 31" "\<forall>r. ct_offset_future c \<noteq> Ready r"
  shows "\<exists>c1. set_parameter now time_now ''tai_utc_offset'' (dec_int off) c = Inr c1
    \<and> (\<forall>c2. clock_runs (now + 315360000) c1 c2 \<longrightarrow> get_parameter now2 ''tai_utc_offset'' c2 = Inr (dec_int off)
         \<and> (\<forall>now2 time2 env fl. \<exists>c3. get_offset now2 time2 env fl c2 = (Inr off, fl, c3)))"
proof -
  obtain c1 where c1: "set_parameter now time_now ''tai_utc_offset'' (dec_int off) c = Inr c1"
    "bl_data (ct_bulletin c1) = Override \<lparr>od_offset = off, od_expires_at = now + 315360000\<rparr>"
    "map_option bs_offset (ct_state c1) = Some off" "ct_offset_future c1 = ct_offset_future c"
    by (rule set_override [OF assms(1-4)])
  then have o1: "overridden off (now + 315360000) c1" using assms(5) by (simp add: overridden_def)
  have "get_parameter now2 ''tai_utc_offset'' c2 = Inr (dec_int off)
      \<and> (\<forall>now2 time2 env fl. \<exists>c3. get_offset now2 time2 env fl c2 = (Inr off, fl, c3))" if "clock_runs (now + 315360000) c1 c2" for c2
  proof -
    have o2: "overridden off (now + 315360000) c2" by (rule clock_runs_overridden [OF that o1])
    have "\<exists>c3. get_offset now2 time2 env fl c2 = (Inr off, fl, c3)" for now2 time2 env fl
    proof -
      obtain r fl' c3 where g: "get_offset now2 time2 env fl c2 = (r, fl', c3)" by (metis prod_cases3)
      then show ?thesis using overridden_get(1,3) [OF o2 g] by blast
    qed
    then show ?thesis using o2 by (auto simp: get_parameter_def overridden_def)
  qed
  then show ?thesis using c1(1) by blast
qed

theorem rc_override_holds_witness:
  "\<exists>c1. set_parameter 1600000000 7 ''tai_utc_offset'' (dec_int 38) (ClockTAI_init []) = Inr c1
    \<and> get_parameter 1600000001 ''tai_utc_offset'' c1 = Inr (dec_int 38)"
  using rc_override_holds [of 38 1600000000 "ClockTAI_init []" 7 1600000001] clock_runs.same by (auto simp: ClockTAI_init_def)

text \<open>Otherwise the override is lost after an hour: the result that was waiting replaces it, whatever its offset is.\<close>

theorem rc_override_lost:
  assumes "- (2 ^ 31) \<le> off" "off < 2 ^ 31" "0 \<le> now" "now + 315360000 < 2 ^ 31"
    and "ct_offset_future c = Ready (Inr (Some s))" "time_now + hour_ns < time1"
  shows "\<exists>c1 c2. set_parameter now time_now ''tai_utc_offset'' (dec_int off) c = Inr c1
    \<and> get_offset now1 time1 env fl c1 = (Inr (bs_offset s), fl, c2)"
proof -
  obtain c1 where c1: "set_parameter now time_now ''tai_utc_offset'' (dec_int off) c = Inr c1"
    "map_option bs_offset (ct_state c1) = Some off" "ct_state_last_updated c1 = time_now" "ct_offset_future c1 = ct_offset_future c"
    by (rule set_override [OF assms(1-4)])
  then show ?thesis using assms(5,6) by (auto simp: get_offset_def offset_first_def offset_refresh_def Let_def)
qed

subsection \<open>A new URL\<close>

text \<open>
  Setting the URLs makes the time of the last update the earliest one there is. If the download fails, one hour is added to it, which is
  still in the past: the next call starts the next download at once, and so on, where the log says that it will be retried in an hour.
\<close>

theorem rc_url_retries_at_once:
  assumes "ct_state c = Some s" "ct_offset_future c = Ready (Inr None)" "ct_state_last_updated c = time_point_min" "0 \<le> t1" "0 \<le> t2"
  shows "\<exists>c1 c2. get_offset now1 t1 env fl c = (Inr (bs_offset s), fl, c1) \<and> ct_offset_future c1 = NoFuture
    \<and> get_offset now2 t2 env fl c1 = (Inr (bs_offset s), fl, c2) \<and> ct_offset_future c2 = Running"
  using assms by (simp add: get_offset_def offset_first_def offset_refresh_def hour_ns_def time_point_min_def Let_def)

end
