(* ===== verification/Descriptors.thy ===== *)
theory Descriptors
  imports Transport
begin

text \<open>
  The file descriptors of the EDI sender: what its destinations hold open, from the constructor to the destructor, and on every path
  on which the constructor throws.
\<close>

text \<open>What a destination holds open, and what the system may answer with while one is set up.\<close>

definition dest_fds :: "dest_socket \<Rightarrow> fdtable" where
  "dest_fds s = (case s of DUdp _ u \<Rightarrow> udp_fds u | DServer d \<Rightarrow> {ts_sock (td_listener d)} - {-1} | DClient c \<Rightarrow> {ts_sock (sc_sock c)} - {-1})"

definition setup_fds :: "setup_env \<Rightarrow> fdtable" where
  "setup_fds env = bind_fds (su_bind env) \<union> (fst ` set (su_cands env) - {-1})"

definition dest_idle :: "dest_socket \<Rightarrow> bool" where
  "dest_idle s = (case s of DServer d \<Rightarrow> td_connections d = [] | _ \<Rightarrow> True)"

lemma dest_destroy_fds: "dest_idle s \<Longrightarrow> -1 \<notin> fds \<Longrightarrow> dest_destroy s fds = fds - dest_fds s"
  by (auto simp: dest_destroy_def dest_fds_def dest_idle_def udp_destroy_fds TCPDataDispatcher_destroy_def tcp_close_def close_fd_def
      TCPSendClient_destroy_def TCPSocket_destroy_def split: dest_socket.splits)

lemma dest_destroy_all:
  "list_all dest_idle ss \<Longrightarrow> -1 \<notin> fds \<Longrightarrow> foldl (\<lambda>f d. dest_destroy d f) fds ss = fds - \<Union> (dest_fds ` set ss)"
  by (induction ss arbitrary: fds) (auto simp: dest_destroy_fds)

lemma listen_loop_fds:
  assumes "listen_loop cands fds = (r, fds1)" "list_all (\<lambda>(_, reuse, _). reuse) cands" "(fst ` set cands - {-1}) \<inter> fds = {}"
  obtains (bound) fd where "r = Inr (Some fd)" "fds1 = insert fd fds" "fd \<in> fst ` set cands - {-1}"
    | (none) "r = Inr None" "fds1 = fds"
  using assms
proof (induction cands fds arbitrary: thesis rule: listen_loop.induct)
  case (2 sfd reuse bound cs fds)
  show ?case
  proof (cases "sfd = -1 \<or> \<not> bound")
    case True
    have same: "close_fd sfd (insert sfd fds) = fds" if "sfd \<noteq> -1" using "2.prems"(5) that by (auto simp: close_fd_def)
    have "listen_loop cs fds = (r, fds1)" using True "2.prems"(3,4) same by (auto split: if_splits)
    moreover have "(fst ` set cs - {-1}) \<inter> fds = {}" using "2.prems"(5) by auto
    ultimately show ?thesis using "2.IH" True same "2.prems"(1,2,4) by (cases "sfd = -1") (auto, metis+)
  next
    case False
    then show ?thesis using "2.prems"(1) [of sfd] "2.prems"(3,4) by auto
  qed
qed auto

text \<open>Setting up a destination: if it fails nothing stays open, otherwise exactly what the destination holds. (If \<open>SO_REUSEADDR\<close> cannot be
  set, the socket of a server is lost; that is excluded here.)\<close>

definition reuse_ok :: "setup_env \<Rightarrow> bool" where
  "reuse_ok env = list_all (\<lambda>(_, reuse, _). reuse) (su_cands env)"

lemma setup_destination_fds:
  assumes "setup_destination d env fds = (r, fds1)" "reuse_ok env" "setup_fds env \<inter> fds = {}" "-1 \<notin> fds"
  shows "case r of Inl _ \<Rightarrow> fds1 = fds | Inr s \<Rightarrow> fds1 = fds \<union> dest_fds s \<and> dest_fds s \<subseteq> setup_fds env \<and> dest_idle s"
proof (cases d)
  case (UdpDestination u)
  obtain x s f where i: "UDPSocket_init (ud_source_port u) (su_bind env) fds = (x, s, f)" by (metis prod_cases3)
  note k = UDPSocket_init_fds [OF i]
  have bk: "f - udp_fds s = fds" using k(1,2) assms(3) by (auto simp: setup_fds_def)
  show ?thesis
    using assms(1) k i bk unfolding UdpDestination setup_destination_def destination_t.case i
    by (auto simp: dest_fds_def dest_idle_def setup_fds_def udp_destroy_fds udp_setMulticastSource_def udp_setMulticastTTL_def
        simp del: UDPSocket_init_def split: option.splits if_splits)
next
  case (TcpServer t)
  let ?d = "TCPDataDispatcher_init (tsv_max_frames_queued t) (tsv_preroll_buffers t)"
  have init: "td_listener ?d = TCPSocket_init" "td_connections ?d = []" by (simp_all add: TCPDataDispatcher_init_def)
  obtain x f where l: "listen_loop (su_cands env) fds = (x, f)" by fastforce
  have c: "(fst ` set (su_cands env) - {-1}) \<inter> fds = {}" using assms(3) by (auto simp: setup_fds_def)
  note defs = TcpServer setup_destination_def td_start_def tcp_listen_def TCPSocket_init_def dest_fds_def dest_idle_def
    TCPDataDispatcher_destroy_def tcp_close_def close_fd_def
  from l assms(2) [unfolded reuse_ok_def] c show ?thesis
  proof (cases rule: listen_loop_fds)
    case (bound fd)
    then have fd: "fd \<in> setup_fds env" "fd \<noteq> -1" "fd \<notin> fds" using assms(3) by (simp_all only: setup_fds_def) blast+
    show ?thesis using assms(1,4) l [unfolded bound(1,2)] init fd by (auto simp: defs split: if_splits)
  next
    case none
    then show ?thesis using assms(1,4) l init by (auto simp: defs split: if_splits)
  qed
next
  case (TcpClient c)
  then show ?thesis
    using assms(1) by (auto simp: setup_destination_def dest_fds_def dest_idle_def TCPSendClient_init_def TCPSocket_init_def)
qed

text \<open>The system answers with new descriptors.\<close>

fun fresh_envs :: "setup_env list \<Rightarrow> fdtable \<Rightarrow> bool" where
  "fresh_envs [] fds = True"
| "fresh_envs (env # envs) fds \<longleftrightarrow> reuse_ok env \<and> setup_fds env \<inter> fds = {} \<and> fresh_envs envs (fds \<union> setup_fds env)"

lemma fresh_envs_mono: "fresh_envs envs fds \<Longrightarrow> fds' \<subseteq> fds \<Longrightarrow> fresh_envs envs fds'"
  by (induction envs arbitrary: fds fds') (auto, meson Un_mono subset_refl)

lemma setup_destinations_fds:
  assumes "setup_destinations des fds = (r, fds1)" "fresh_envs (map snd des) fds" "-1 \<notin> fds"
  shows "case r of Inl _ \<Rightarrow> fds1 = fds | Inr ss \<Rightarrow> fds1 = fds \<union> \<Union> (dest_fds ` set ss) \<and> \<Union> (dest_fds ` set ss) \<inter> fds = {} \<and> list_all dest_idle ss"
  using assms
proof (induction des arbitrary: fds r fds1)
  case (Cons x des)
  obtain d env where x: "x = (d, env)" by (cases x)
  have f: "reuse_ok env" "setup_fds env \<inter> fds = {}" "fresh_envs (map snd des) (fds \<union> setup_fds env)" using Cons.prems(2) x by auto
  obtain r0 f0 where s: "setup_destination d env fds = (r0, f0)" by fastforce
  note k = setup_destination_fds [OF s f(1,2) Cons.prems(3)]
  have m: "-1 \<notin> setup_fds env" by (auto simp: setup_fds_def bind_fds_def)
  show ?case
  proof (cases r0)
    case (Inl e)
    then show ?thesis using k s Cons.prems(1) x by auto
  next
    case (Inr s0)
    then have f0: "f0 = fds \<union> dest_fds s0" "dest_fds s0 \<subseteq> setup_fds env" "dest_idle s0" using k by auto
    then have g: "fresh_envs (map snd des) f0" "-1 \<notin> f0" using fresh_envs_mono [OF f(3)] m Cons.prems(3) by blast+
    obtain r1 f1 where t: "setup_destinations des f0 = (r1, f1)" by fastforce
    note ih = Cons.IH [OF t g]
    show ?thesis
    proof (cases r1)
      case (Inl e)
      then have "f1 = f0" using ih by simp
      then have "fds1 = f0 - dest_fds s0" "\<exists>e. r = Inl e"
        using Cons.prems(1) x s \<open>r0 = Inr s0\<close> t Inl dest_destroy_fds [OF f0(3) g(2)] by auto
      moreover have "f0 - dest_fds s0 = fds" using f0(1,2) f(2) by blast
      ultimately show ?thesis by auto
    next
      case (Inr ss)
      then have "r = Inr (s0 # ss)" "fds1 = f1" using Cons.prems(1) x s \<open>r0 = Inr s0\<close> t by auto
      then show ?thesis using ih Inr f0 f(2) by auto
    qed
  qed
qed auto

text \<open>C14: the sender neither leaks nor steals descriptors. Whatever destinations are configured and whichever of them cannot be set up, when
  the constructor throws, exactly the descriptors from before are open; when it succeeds, those are open that the destinations hold, and
  the destructor closes these and no others. (The one way to lose a descriptor, a server socket whose address cannot be reused, is
  excluded.)\<close>

theorem sender_releases_descriptors:
  assumes "fresh_envs envs fds" "-1 \<notin> fds" "length envs = length (cf_destinations conf)"
  shows "case Sender_init conf envs fds of
      (Inl _, fds1) \<Rightarrow> fds1 = fds
    | (Inr s, fds1) \<Rightarrow> fds1 = fds \<union> \<Union> (dest_fds ` set (sn_sockets s)) \<and> snd (Sender_destroy s fds1) = fds"
proof (cases "PFT_init (cf_chunk_len conf) (cf_fec conf)")
  case (Inl e)
  then show ?thesis by (simp add: Sender_init_def)
next
  case (Inr pft)
  obtain r fds1 where s: "setup_destinations (zip (cf_destinations conf) envs) fds = (r, fds1)" by fastforce
  have f: "fresh_envs (map snd (zip (cf_destinations conf) envs)) fds" using assms(1,3) by simp
  note k = setup_destinations_fds [OF s f assms(2)]
  show ?thesis
  proof (cases r)
    case (Inl e)
    then show ?thesis using Inr s k by (simp add: Sender_init_def)
  next
    case (Inr ss)
    then have fds1: "fds1 = fds \<union> \<Union> (dest_fds ` set ss)" "\<Union> (dest_fds ` set ss) \<inter> fds = {}" "list_all dest_idle ss" using k by auto
    have "-1 \<notin> dest_fds d" for d by (auto simp: dest_fds_def udp_fds_def split: dest_socket.splits)
    then have "-1 \<notin> fds1" using fds1(1) assms(2) by auto
    note d = dest_destroy_all [OF fds1(3) this]
    have "fds1 - \<Union> (dest_fds ` set ss) = fds" using fds1(1,2) by blast
    then show ?thesis using \<open>PFT_init _ _ = Inr pft\<close> s Inr fds1(1) d by (simp add: Sender_init_def Sender_destroy_def)
  qed
qed

theorem sender_releases_descriptors_witness:
  "let conf = configuration_default\<lparr>cf_destinations :=
         [UdpDestination \<lparr>ud_dest_addr = ''a'', ud_dest_port = 1, ud_source_addr = [], ud_source_port = 0, ud_ttl = 10\<rparr>,
          TcpClient \<lparr>tct_dest_addr = ''b'', tct_dest_port = 2, tct_max_frames_queued = 3\<rparr>]\<rparr>;
       env = \<lambda>fd. \<lparr>su_bind = \<lparr>be_gai = 0, be_cands = [], be_any = fd\<rparr>, su_source = (True, True), su_ttl = True, su_gai = 0, su_cands = [],
         su_listen = True\<rparr>
   in case Sender_init conf [env 5, env 6] {3} of (Inl _, _) \<Rightarrow> False | (Inr s, fds1) \<Rightarrow> fds1 = {3, 5} \<and> snd (Sender_destroy s fds1) = {3}"
  using sender_releases_descriptors [of "[\<lparr>su_bind = \<lparr>be_gai = 0, be_cands = [], be_any = 5\<rparr>, su_source = (True, True), su_ttl = True, su_gai = 0, su_cands = [],
         su_listen = True\<rparr>, \<lparr>su_bind = \<lparr>be_gai = 0, be_cands = [], be_any = 6\<rparr>, su_source = (True, True), su_ttl = True, su_gai = 0, su_cands = [],
         su_listen = True\<rparr>]" "{3}" "configuration_default\<lparr>cf_destinations :=
         [UdpDestination \<lparr>ud_dest_addr = ''a'', ud_dest_port = 1, ud_source_addr = [], ud_source_port = 0, ud_ttl = 10\<rparr>,
          TcpClient \<lparr>tct_dest_addr = ''b'', tct_dest_port = 2, tct_max_frames_queued = 3\<rparr>]\<rparr>"]
  by (simp add: setup_fds_def bind_fds_def reuse_ok_def Sender_init_def PFT_init_def setup_destination_def udp_reinit_def configuration_default_def
      dest_fds_def udp_fds_def TCPSendClient_init_def TCPSocket_init_def insert_commute)

end
