(* ===== verification/Spec2Isabelle.thy ===== *)
theory Spec2Isabelle
  imports ProgramTCP Logging ClockRC Descriptors
begin

text \<open>
  \<^bold>\<open>ODR-SourceCompanion\<close>

  The program connects a hardware audio encoder (AVT) to a DAB multiplexer. It receives 24 ms audio frames in UDP datagrams, puts
  them in order, joins five of them to a DAB+ superframe, measures the audio level, and sends the superframe on: as one ZeroMQ
  message, and as five EDI frames to UDP and TCP destinations. In the other direction it fetches PAD (texts and slides) from
  ODR-PadEnc and hands it to the encoder when that asks for it.

  Paths below are those of the repository, with \<^verbatim>\<open>src/\<close> for its own source directory and \<^verbatim>\<open>lib/\<close> for its library.

  \<^bold>\<open>How the code is modelled\<close>

  A class is a record, a method a function that takes the object and returns it updated; \<open>error + value\<close> is the result of what can
  throw, with the error type \<open>exn\<close> of \<open>Prelude\<close>. \<open>OutOfBounds\<close> and \<open>DivByZero\<close> stand for executions that C++ leaves undefined, and they
  are never caught. Integers are words of the width of the code where the code computes with them (fields of packets, counters,
  checksums), \<open>nat\<close> for sizes and \<open>int\<close> for times in nanoseconds. What comes from outside is an argument: the answers of system
  calls, clocks, curl, ZeroMQ and fdk-aac, one after the other (\<open>recv_result\<close>, \<open>edi_env\<close>, \<open>tai_env\<close>, \<open>fdk\<close> and so on). An answer list that is
  too short means that nothing (more) arrives. Open file descriptors are a set that is passed through, so that leaks can be seen.
  Threads are functions for one pass of their loop, and for the thread-safe queue and the whole program, where the
  interleaving matters, a step relation.

  \<^bold>\<open>The theories\<close>

  \<^item> \<open>Prelude\<close>: types, errors, big-endian fields, decimal numbers, \<open>stoi\<close> and its relatives, C division.
  \<^item> \<open>CRC\<close> (\<^verbatim>\<open>lib/crc.c\<close>): tables, generators, the three checksums. The locale \<open>crc_table\<close> is interpreted for the three tables; the
    table-driven functions equal the bit-serial definition, and \<open>crc16\<close> detects every corruption
    within two adjacent bytes.
  \<^item> \<open>OrderedQueue\<close> (\<^verbatim>\<open>src/OrderedQueue.cpp\<close>): the jitter buffer. The locale \<open>jitter_buffer\<close> states what the AVT input relies on;
    reordering, bounds and progress follow.
  \<^item> \<open>CommandLine\<close> (\<^verbatim>\<open>src/odr-sourcecompanion.cpp\<close>): the tables of options and \<open>getopt_long\<close>; every spelling of an option gives that option.
  \<^item> \<open>Sockets\<close>, \<open>TCPSockets\<close>, \<open>TCPServers\<close> (\<^verbatim>\<open>lib/Socket.cpp\<close>): UDP sockets, TCP sockets with their retry loops, and the classes with a
    thread (connection, dispatcher, receiving server, reconnecting client). What a client of the dispatcher gets is a contiguous
    piece of what was written.
  \<^item> \<open>ThreadsafeQueue\<close> (\<^verbatim>\<open>lib/ThreadsafeQueue.h\<close>): critical sections as functions, producer and consumer as the step relation \<open>tstep\<close>;
    locale \<open>fifo\<close>; no wake-up is lost, and every run is one of an abstract queue.
  \<^item> \<open>AVTInput\<close>, \<open>AVTStream\<close> (\<^verbatim>\<open>src/AVTInput.cpp\<close>): the input with its assembly of superframes, then what it does with the datagrams
    of an encoder: superframes in order, parameters, PAD requests, and two defects of the frame parser.
  \<^item> \<open>ReedSolomon\<close>, \<open>RSCode\<close> (\<^verbatim>\<open>lib/fec/\<close>, \<^verbatim>\<open>lib/ReedSolomon.cpp\<close>): the codec, and its algebra over the field with 256 elements: tables,
    generator polynomial, every encoded block has zero syndromes, decoding it changes nothing, as many corrupted bytes as there are parity
    bytes are detected.
  \<^item> \<open>TagItems\<close>, \<open>AFPacket\<close>, \<open>PFT\<close>, \<open>Transport\<close> (\<^verbatim>\<open>lib/edioutput/\<close>): the layers of EDI. The receivers \<open>tag_parse\<close>, \<open>af_parse\<close> and
    \<open>pf_reassemble\<close> follow the standard, not the code, and each layer is shown to be read back by its receiver; the locale \<open>tag_source\<close>
    states what the TAG packet relies on from its items. With forward error correction the packet is recovered when up to \<open>m\<close> fragments are
    lost. \<open>Transport\<close> has the sender with its pending fragments and its thread; the locale \<open>delayed_sender\<close> states what a pass of the
    thread does, and gives that every fragment is sent exactly once. \<open>Descriptors\<close> follows the file descriptors of the sender from its
    constructor, on every path on which that throws, to its destructor.
  \<^item> \<open>AACDecoder\<close> (\<^verbatim>\<open>src/AACDecoder.cpp\<close>): header and access units of a superframe, peaks; fdk-aac is the record \<open>fdk\<close> of three functions.
  \<^item> \<open>ClockTAI\<close> (\<^verbatim>\<open>lib/ClockTAI.cpp\<close>): the parser for the leap second bulletin, the cache file, the download in the background, and the
    offset with its refreshes. The locale \<open>offset_clock\<close> is what the EDI output relies on. The offset is never from an invalid bulletin, and
    it is the one with the latest expiry of those at hand. \<open>ClockRC\<close> has the parameters of the remote control: an override of the offset holds
    for ten years.
  \<^item> \<open>Outputs\<close> (\<^verbatim>\<open>src/Outputs.cpp\<close>, \<^verbatim>\<open>src/encryption.c\<close>): file, ZeroMQ and EDI output.
  \<^item> \<open>Peripherals\<close> (\<^verbatim>\<open>src/PadInterface.cpp\<close>, \<^verbatim>\<open>src/StatsPublish.cpp\<close>, \<^verbatim>\<open>src/utils.c\<close>): UNIX sockets for PAD and statistics, level meter.
  \<^item> \<open>Logging\<close> (\<^verbatim>\<open>lib/Log.cpp\<close>): the logger with its thread and backends.
  \<^item> \<open>Companion\<close> (\<^verbatim>\<open>src/odr-sourcecompanion.cpp\<close>): options, set-up, one pass of the main loop and the loop; what a receiver of the
    EDI output gets of a superframe.
  \<^item> \<open>Program\<close>: one pass of the program from the datagrams of the encoder to the receivers of the multiplex, and how it ends.
  \<^item> \<open>ProgramStream\<close>, \<open>ProgramTCP\<close>: the program from its command line on, with the threads interleaved in any way, for UDP and for TCP
    destinations: what a receiver recovers is what the encoder has sent.

  \<^bold>\<open>How the parts meet\<close>

  \<open>AVTInput\<close> owns a jitter buffer and three sockets. \<open>Companion\<close> owns the input, the PAD interface, the decoder, the statistics and
  the outputs; the EDI output owns the TAI clock and the sender, which owns the AF and PFT layers, the destinations and the fragments that
  wait to be sent. \<open>Program\<close> goes through all of them: five frames in any order at the input are, after one pass of the main
  loop and one pass of the sender thread, the same five frames at a receiver that undoes the PFT, AF and TAG layers. The step relations
  \<open>stream_step\<close> and \<open>tcp_step\<close> start from the state that \<open>main_setup\<close> leaves, in which nothing has been received and the output has neither a sender nor
  the TAI offset, and interleave passes of the main loop and of the sender's or the client's thread in any way. By rule
  induction, what has been sent and what waits are always together what belongs to the superframes that have arrived, so that a
  receiver recovers the stream.

  \<^bold>\<open>Bounds and loops\<close>

  Loops that the code bounds by its data are total functions with a termination proof (a measure on what is left to read, write or
  fragment). Loops that poll the outside run over the list of answers. The search of the jitter buffer for the next frame, the search for
  the inverse of \<open>prim\<close> in the Reed-Solomon codec and the retries of \<open>vsnprintf\<close> may run forever and are \<open>partial_function (option)\<close>; that
  they return is proved where it is true: for every queue that satisfies its invariant, and for every \<open>prim\<close> without a common divisor with 255. No fuel is used. Sizes that a theorem assumes, such as 28 bits for the TAG length or 256 fragments per
  packet, are those at which fields of the formats wrap around.

  \<^bold>\<open>Not modelled\<close>

  \<^verbatim>\<open>src/zmq.hpp\<close> is a vendored binding; ZeroMQ, curl, fdk-aac, the C library's formatting and the operating system are arguments. Printing
  to the console, the usage text, text forms of addresses and configuration, debugging code and code that the preprocessor
  switches off (\<open>adjtimex\<close>, transport addressing of PFT beyond its constants) are left out, but for the remote control of the TAI clock.
  Destructors that only release memory are not definitions. The spreading factor of
  the sender is a rational number and the decibels of the level meter an argument, where the code has floating-point numbers. Failing
  allocations are not modelled.
\<close>

end
